(* ===== verification/Prelude.thy ===== *)
theory Prelude
  imports Main "HOL-Library.Word"
begin

text \<open>
  What every other theory of the development shares: the types that stand for Python's
  \<open>str\<close>, \<open>bytes\<close> and exceptions, the state-and-exception monad in which the stateful code is
  written, the rules by which frame conditions and invariants pass through that monad, and the
  codec interfaces used wherever one part of the program reads what another part wrote.
\<close>

section \<open>Text, bytes, identifiers\<close>

text \<open>
  A Python \<open>str\<close> is a sequence of Unicode code points, so it is a list of naturals here;
  \<open>lit\<close> turns an ASCII literal of the source into one. A \<open>bytes\<close> object is a list of
  8-bit words and a \<open>uuid.UUID\<close> is the 128-bit value it holds.
\<close>

type_synonym pystr = "nat list"
type_synonym bytes = "8 word list"
type_synonym uuid = "128 word"

definition lit :: "string \<Rightarrow> pystr" where
  "lit s = map of_char s"

lemma lit_eq_iff [simp]: "lit s = lit t \<longleftrightarrow> s = t"
proof
  assume "lit s = lit t"
  then have "map char_of (lit s) = (map char_of (lit t) :: string)" by simp
  then show "s = t" by (simp add: lit_def o_def)
qed simp

lemma lit_Nil_iff [simp]: "lit s = [] \<longleftrightarrow> s = []" "[] = lit s \<longleftrightarrow> s = []"
  by (auto simp: lit_def)

lemma length_lit [simp]: "length (lit s) = length s"
  by (simp add: lit_def)

section \<open>Exceptions\<close>

text \<open>
  The exceptions the program raises or catches. \<open>BadIntLiteral\<close>, \<open>IntDigitsLimit\<close>,
  \<open>JSONDecodeError\<close> and the two Unicode errors are the subclasses of Python's
  \<open>ValueError\<close> that the standard library raises in the code modelled here; \<open>HTTPError\<close>
  (urllib's, with status and body), \<open>FileNotFoundError\<close> and \<open>CalledProcessError\<close> are the
  standard library's as the tools meet them. \<open>External\<close>
  is any exception of a third-party library (the database driver, the broker client).
\<close>

datatype exn =
    HTTPException nat pystr
  | RequestValidationError
  | QueueUnavailableError pystr
  | ValueError pystr
  | BadIntLiteral nat pystr
  | IntDigitsLimit
  | JSONDecodeError
  | UnicodeDecodeError
  | UnicodeEncodeError
  | KeyError pystr
  | TypeError pystr
  | AttributeError pystr
  | OverflowError pystr
  | RuntimeError pystr
  | HTTPError nat bytes
  | FileNotFoundError pystr
  | CalledProcessError int
  | External pystr

text \<open>What \<open>except ValueError\<close> catches.\<close>

fun is_value_error :: "exn \<Rightarrow> bool" where
  "is_value_error (ValueError _) = True"
| "is_value_error (BadIntLiteral _ _) = True"
| "is_value_error IntDigitsLimit = True"
| "is_value_error JSONDecodeError = True"
| "is_value_error UnicodeDecodeError = True"
| "is_value_error UnicodeEncodeError = True"
| "is_value_error _ = False"

text \<open>What \<open>except QueueUnavailableError\<close> catches.\<close>

fun is_queue_unavailable :: "exn \<Rightarrow> bool" where
  "is_queue_unavailable (QueueUnavailableError _) = True"
| "is_queue_unavailable _ = False"

text \<open>Sequencing of pure computations that may raise.\<close>

definition sum_bind :: "exn + 'a \<Rightarrow> ('a \<Rightarrow> exn + 'b) \<Rightarrow> exn + 'b" where
  "sum_bind r f = (case r of Inl e \<Rightarrow> Inl e | Inr x \<Rightarrow> f x)"

lemma sum_bind_simps [simp]:
  "sum_bind (Inl e) f = Inl e"
  "sum_bind (Inr x) f = f x"
  by (simp_all add: sum_bind_def)

lemma sum_bind_Inr_iff: "sum_bind r f = Inr y \<longleftrightarrow> (\<exists>x. r = Inr x \<and> f x = Inr y)"
  by (cases r) auto

lemma sum_bind_Inl_iff:
  "sum_bind r f = Inl e \<longleftrightarrow> r = Inl e \<or> (\<exists>x. r = Inr x \<and> f x = Inl e)"
  by (cases r) auto

section \<open>Stateful code that may raise\<close>

text \<open>
  A Python function that has effects is a function from the world to its outcome and the new
  world. The new world is there whether the function returns or raises: an exception unwinds the
  stack and leaves every effect that came before it in place.
\<close>

type_synonym ('w, 'a) io = "'w \<Rightarrow> (exn + 'a) \<times> 'w"

definition io_return :: "'a \<Rightarrow> ('w, 'a) io" where
  "io_return x = (\<lambda>w. (Inr x, w))"

definition io_raise :: "exn \<Rightarrow> ('w, 'a) io" where
  "io_raise e = (\<lambda>w. (Inl e, w))"

definition io_lift :: "exn + 'a \<Rightarrow> ('w, 'a) io" where
  "io_lift r = (\<lambda>w. (r, w))"

definition io_gets :: "('w \<Rightarrow> 'a) \<Rightarrow> ('w, 'a) io" where
  "io_gets f = (\<lambda>w. (Inr (f w), w))"

definition io_modify :: "('w \<Rightarrow> 'w) \<Rightarrow> ('w, unit) io" where
  "io_modify f = (\<lambda>w. (Inr (), f w))"

definition io_bind :: "('w, 'a) io \<Rightarrow> ('a \<Rightarrow> ('w, 'b) io) \<Rightarrow> ('w, 'b) io" where
  "io_bind m f = (\<lambda>w. case m w of (Inl e, w') \<Rightarrow> (Inl e, w') | (Inr x, w') \<Rightarrow> f x w')"

abbreviation io_then :: "('w, 'a) io \<Rightarrow> ('w, 'b) io \<Rightarrow> ('w, 'b) io" where
  "io_then m n \<equiv> io_bind m (\<lambda>_. n)"

text \<open>\<open>try: m / except: h e\<close>, the handler running in the world the exception left.\<close>

definition io_catch :: "('w, 'a) io \<Rightarrow> (exn \<Rightarrow> ('w, 'a) io) \<Rightarrow> ('w, 'a) io" where
  "io_catch m h = (\<lambda>w. case m w of (Inl e, w') \<Rightarrow> h e w' | (Inr x, w') \<Rightarrow> (Inr x, w'))"

text \<open>\<open>try: m / finally: n\<close>: an exception of \<open>n\<close> replaces the outcome of \<open>m\<close>.\<close>

definition io_finally :: "('w, 'a) io \<Rightarrow> ('w, unit) io \<Rightarrow> ('w, 'a) io" where
  "io_finally m n =
     (\<lambda>w. case m w of (r, w') \<Rightarrow> (case n w' of (Inl e, w'') \<Rightarrow> (Inl e, w'') | (Inr _, w'') \<Rightarrow> (r, w'')))"

lemma io_run_simps [simp]:
  "io_return x w = (Inr x, w)"
  "io_raise e w = (Inl e, w)"
  "io_lift r w = (r, w)"
  "io_gets f w = (Inr (f w), w)"
  "io_modify g w = (Inr (), g w)"
  by (simp_all add: io_return_def io_raise_def io_lift_def io_gets_def io_modify_def)

lemma io_bind_run [simp]:
  "m w = (Inl e, w') \<Longrightarrow> io_bind m f w = (Inl e, w')"
  "m w = (Inr x, w') \<Longrightarrow> io_bind m f w = f x w'"
  by (simp_all add: io_bind_def)

lemma io_catch_run [simp]:
  "m w = (Inl e, w') \<Longrightarrow> io_catch m h w = h e w'"
  "m w = (Inr x, w') \<Longrightarrow> io_catch m h w = (Inr x, w')"
  by (simp_all add: io_catch_def)

lemma io_bind_return [simp]: "io_bind (io_return x) f = f x"
  by (simp add: io_bind_def fun_eq_iff)

lemma io_bind_raise [simp]: "io_bind (io_raise e) f = io_raise e"
  by (simp add: io_bind_def fun_eq_iff)

lemma io_bind_assoc: "io_bind (io_bind m f) g = io_bind m (\<lambda>x. io_bind (f x) g)"
  by (auto simp: io_bind_def fun_eq_iff split: prod.splits sum.splits)

lemma io_bind_cong [fundef_cong]:
  "m w = m' w' \<Longrightarrow> (\<And>x w''. m' w' = (Inr x, w'') \<Longrightarrow> f x w'' = f' x w'') \<Longrightarrow>
    io_bind m f w = io_bind m' f' w'"
  by (auto simp: io_bind_def split: prod.splits sum.splits)

section \<open>Frames and invariants\<close>

text \<open>
  \<open>preserves P m\<close>: the computation \<open>m\<close> keeps the state predicate \<open>P\<close>, however it ends.
  \<open>keeps f m\<close>: it does not change what \<open>f\<close> reads. Both pass through the combinators, so
  that a composed operation is settled by its parts; the rules are collected in
  \<open>pres_rules\<close> and \<open>keeps_rules\<close>. \<open>triple\<close> is the general form, with one
  postcondition for a normal return and one for an exception.
\<close>

definition preserves :: "('w \<Rightarrow> bool) \<Rightarrow> ('w, 'a) io \<Rightarrow> bool" where
  "preserves P m \<longleftrightarrow> (\<forall>w. P w \<longrightarrow> P (snd (m w)))"

definition keeps :: "('w \<Rightarrow> 'v) \<Rightarrow> ('w, 'a) io \<Rightarrow> bool" where
  "keeps f m \<longleftrightarrow> (\<forall>w. f (snd (m w)) = f w)"

definition triple ::
  "('w \<Rightarrow> bool) \<Rightarrow> ('w, 'a) io \<Rightarrow> ('a \<Rightarrow> 'w \<Rightarrow> bool) \<Rightarrow> (exn \<Rightarrow> 'w \<Rightarrow> bool) \<Rightarrow> bool" where
  "triple P m Q E \<longleftrightarrow>
     (\<forall>w. P w \<longrightarrow> (case m w of (Inr x, w') \<Rightarrow> Q x w' | (Inl e, w') \<Rightarrow> E e w'))"

named_theorems pres_rules \<open>how an invariant passes through the combinators\<close>
named_theorems keeps_rules \<open>how a frame condition passes through the combinators\<close>

lemma preservesD: "preserves P m \<Longrightarrow> P w \<Longrightarrow> P (snd (m w))"
  by (simp add: preserves_def)

lemma preservesD_run: "preserves P m \<Longrightarrow> m w = (r, w') \<Longrightarrow> P w \<Longrightarrow> P w'"
  by (metis preserves_def snd_conv)

lemma keepsD: "keeps f m \<Longrightarrow> f (snd (m w)) = f w"
  by (simp add: keeps_def)

lemma keepsD_run: "keeps f m \<Longrightarrow> m w = (r, w') \<Longrightarrow> f w' = f w"
  by (metis keeps_def snd_conv)

lemma keeps_preserves: "keeps f m \<Longrightarrow> preserves (\<lambda>w. P (f w)) m"
  by (simp add: preserves_def keeps_def)

lemma keeps_comp: "keeps f m \<Longrightarrow> keeps (\<lambda>w. g (f w)) m"
  by (simp add: keeps_def)

lemma preserves_basic [pres_rules]:
  "preserves P (io_return x)" "preserves P (io_raise e)"
  "preserves P (io_lift r)" "preserves P (io_gets g)"
  by (simp_all add: preserves_def)

lemma preserves_modify: "(\<And>w. P w \<Longrightarrow> P (g w)) \<Longrightarrow> preserves P (io_modify g)"
  by (simp add: preserves_def)

lemma preserves_bind [pres_rules]:
  "preserves P m \<Longrightarrow> (\<And>x. preserves P (f x)) \<Longrightarrow> preserves P (io_bind m f)"
  by (auto simp: preserves_def io_bind_def split_beta split: sum.splits)

lemma preserves_catch [pres_rules]:
  "preserves P m \<Longrightarrow> (\<And>e. preserves P (h e)) \<Longrightarrow> preserves P (io_catch m h)"
  by (auto simp: preserves_def io_catch_def split_beta split: sum.splits)

lemma preserves_finally [pres_rules]:
  "preserves P m \<Longrightarrow> preserves P n \<Longrightarrow> preserves P (io_finally m n)"
  by (auto simp: preserves_def io_finally_def split_beta split: sum.splits)

lemma preserves_cases [pres_rules]:
  "(b \<Longrightarrow> preserves P m) \<Longrightarrow> (\<not> b \<Longrightarrow> preserves P n) \<Longrightarrow> preserves P (if b then m else n)"
  "(\<And>x. preserves P (f x)) \<Longrightarrow> preserves P (let x = a in f x)"
  "preserves P m \<Longrightarrow> (\<And>x. preserves P (f x)) \<Longrightarrow>
     preserves P (case opt of None \<Rightarrow> m | Some x \<Rightarrow> f x)"
  "(\<And>e. preserves P (g e)) \<Longrightarrow> (\<And>x. preserves P (f x)) \<Longrightarrow>
     preserves P (case s of Inl e \<Rightarrow> g e | Inr x \<Rightarrow> f x)"
  "(\<And>x y. preserves P (k x y)) \<Longrightarrow> preserves P (case p of (x, y) \<Rightarrow> k x y)"
  by (auto split: option.splits sum.splits prod.splits)

lemma keeps_basic [keeps_rules]:
  "keeps f (io_return x)" "keeps f (io_raise e)"
  "keeps f (io_lift r)" "keeps f (io_gets g)"
  by (simp_all add: keeps_def)

lemma keeps_modify: "(\<And>w. f (g w) = f w) \<Longrightarrow> keeps f (io_modify g)"
  by (simp add: keeps_def)

lemma keeps_bind [keeps_rules]:
  "keeps f m \<Longrightarrow> (\<And>x. keeps f (n x)) \<Longrightarrow> keeps f (io_bind m n)"
  by (auto simp: keeps_def io_bind_def split_beta split: sum.splits)

lemma keeps_catch [keeps_rules]:
  "keeps f m \<Longrightarrow> (\<And>e. keeps f (h e)) \<Longrightarrow> keeps f (io_catch m h)"
  by (auto simp: keeps_def io_catch_def split_beta split: sum.splits)

lemma keeps_finally [keeps_rules]:
  "keeps f m \<Longrightarrow> keeps f n \<Longrightarrow> keeps f (io_finally m n)"
  by (auto simp: keeps_def io_finally_def split_beta split: sum.splits)

lemma keeps_cases [keeps_rules]:
  "(b \<Longrightarrow> keeps f m) \<Longrightarrow> (\<not> b \<Longrightarrow> keeps f n) \<Longrightarrow> keeps f (if b then m else n)"
  "(\<And>x. keeps f (h x)) \<Longrightarrow> keeps f (let x = a in h x)"
  "keeps f m \<Longrightarrow> (\<And>x. keeps f (h x)) \<Longrightarrow> keeps f (case opt of None \<Rightarrow> m | Some x \<Rightarrow> h x)"
  "(\<And>e. keeps f (g e)) \<Longrightarrow> (\<And>x. keeps f (h x)) \<Longrightarrow>
     keeps f (case s of Inl e \<Rightarrow> g e | Inr x \<Rightarrow> h x)"
  "(\<And>x y. keeps f (k x y)) \<Longrightarrow> keeps f (case p of (x, y) \<Rightarrow> k x y)"
  by (auto split: option.splits sum.splits prod.splits)

lemma triple_weaken:
  "triple P' m Q' E' \<Longrightarrow> (\<And>w. P w \<Longrightarrow> P' w) \<Longrightarrow> (\<And>x w. Q' x w \<Longrightarrow> Q x w) \<Longrightarrow>
    (\<And>e w. E' e w \<Longrightarrow> E e w) \<Longrightarrow> triple P m Q E"
  by (fastforce simp: triple_def split: prod.splits sum.splits)

lemma triple_bind:
  "triple P m R E \<Longrightarrow> (\<And>x. triple (R x) (f x) Q E) \<Longrightarrow> triple P (io_bind m f) Q E"
  by (fastforce simp: triple_def io_bind_def split: prod.splits sum.splits)

lemma triple_catch:
  "triple P m Q R \<Longrightarrow> (\<And>e. triple (R e) (h e) Q E) \<Longrightarrow> triple P (io_catch m h) Q E"
  by (fastforce simp: triple_def io_catch_def split: prod.splits sum.splits)

lemma triple_preserves: "preserves P m \<longleftrightarrow> triple P m (\<lambda>_. P) (\<lambda>_. P)"
  by (auto simp: preserves_def triple_def split_beta split: sum.splits)

section \<open>Relations between the world before and after\<close>

text \<open>
  \<open>moves R m\<close>: whatever \<open>m\<close> does, the worlds before and after it are related by \<open>R\<close>. For
  a reflexive and transitive \<open>R\<close> (the trace only grows; no row is lost) that passes through
  the combinators: the rules are proved once, in \<open>io_preorder\<close>, and each relation of the
  development is an instance.
\<close>

definition moves :: "('w \<Rightarrow> 'w \<Rightarrow> bool) \<Rightarrow> ('w, 'a) io \<Rightarrow> bool" where
  "moves R m \<longleftrightarrow> (\<forall>w. R w (snd (m w)))"

named_theorems moves_rules \<open>how a relation passes through the combinators\<close>

lemma movesD: "moves R m \<Longrightarrow> R w (snd (m w))"
  by (simp add: moves_def)

lemma movesD_run: "moves R m \<Longrightarrow> m w = (r, w') \<Longrightarrow> R w w'"
  by (metis moves_def snd_conv)

lemma moves_modify: "(\<And>w. R w (g w)) \<Longrightarrow> moves R (io_modify g)"
  by (simp add: moves_def)

lemma moves_mono: "moves R m \<Longrightarrow> (\<And>u v. R u v \<Longrightarrow> R' u v) \<Longrightarrow> moves R' m"
  by (simp add: moves_def)

lemma moves_cases [moves_rules]:
  "(b \<Longrightarrow> moves R m) \<Longrightarrow> (\<not> b \<Longrightarrow> moves R n) \<Longrightarrow> moves R (if b then m else n)"
  "(\<And>x. moves R (h x)) \<Longrightarrow> moves R (let x = a in h x)"
  "moves R m \<Longrightarrow> (\<And>x. moves R (h x)) \<Longrightarrow> moves R (case opt of None \<Rightarrow> m | Some x \<Rightarrow> h x)"
  "(\<And>e. moves R (g e)) \<Longrightarrow> (\<And>x. moves R (h x)) \<Longrightarrow>
     moves R (case s of Inl e \<Rightarrow> g e | Inr x \<Rightarrow> h x)"
  "(\<And>x y. moves R (k x y)) \<Longrightarrow> moves R (case p of (x, y) \<Rightarrow> k x y)"
  by (auto split: option.splits sum.splits prod.splits)

locale io_preorder =
  fixes R :: "'w \<Rightarrow> 'w \<Rightarrow> bool"
  assumes R_refl: "R w w"
    and R_trans: "R u v \<Longrightarrow> R v w \<Longrightarrow> R u w"
begin

lemma moves_basic [moves_rules]:
  "moves R (io_return x)" "moves R (io_raise e)" "moves R (io_lift r)" "moves R (io_gets g)"
  by (simp_all add: moves_def R_refl)

lemma moves_bind [moves_rules]:
  "moves R m \<Longrightarrow> (\<And>x. moves R (f x)) \<Longrightarrow> moves R (io_bind m f)"
  by (auto simp: moves_def io_bind_def split_beta intro: R_trans split: sum.splits)

lemma moves_catch [moves_rules]:
  "moves R m \<Longrightarrow> (\<And>e. moves R (h e)) \<Longrightarrow> moves R (io_catch m h)"
  by (auto simp: moves_def io_catch_def split_beta intro: R_trans split: sum.splits)

lemma moves_finally [moves_rules]:
  "moves R m \<Longrightarrow> moves R n \<Longrightarrow> moves R (io_finally m n)"
  by (auto simp: moves_def io_finally_def split_beta intro: R_trans split: sum.splits)

end

section \<open>Codecs\<close>

text \<open>
  The contract between the code that writes a value as text or bytes and the code that reads it
  back. A \<open>partial_codec\<close> may refuse to write; a \<open>codec\<close> never does. Two partial codecs in a
  row are one (\<open>codec_chain\<close>), which is how a message body is its JSON text in UTF-8.
\<close>

locale partial_codec =
  fixes enc :: "'a \<Rightarrow> exn + 'b"
    and dec :: "'b \<Rightarrow> exn + 'a"
  assumes dec_enc: "enc x = Inr b \<Longrightarrow> dec b = Inr x"
begin

lemma enc_inj: "enc x = Inr b \<Longrightarrow> enc y = Inr b \<Longrightarrow> x = y"
  using dec_enc [of x b] dec_enc [of y b] by simp

lemma enc_distinct: "enc x = Inr b \<Longrightarrow> enc y = Inr c \<Longrightarrow> x \<noteq> y \<Longrightarrow> b \<noteq> c"
  using enc_inj by blast

lemma bind_dec: "enc x = Inr b \<Longrightarrow> sum_bind (dec b) f = f x"
  by (simp add: dec_enc)

end

locale codec =
  fixes wr :: "'a \<Rightarrow> 'b"
    and rd :: "'b \<Rightarrow> exn + 'a"
  assumes rd_wr: "rd (wr x) = Inr x"
begin

lemma wr_eq_iff: "wr x = wr y \<longleftrightarrow> x = y"
  by (metis rd_wr sum.inject(2))

lemma inj_wr: "inj wr"
  by (simp add: inj_def wr_eq_iff)

sublocale partial_codec "\<lambda>x. Inr (wr x)" rd
  by unfold_locales (auto simp: rd_wr)

end

locale codec_chain = outer: partial_codec enc1 dec1 + inner: partial_codec enc2 dec2
  for enc1 :: "'a \<Rightarrow> exn + 'b" and dec1 and enc2 :: "'b \<Rightarrow> exn + 'c" and dec2
begin

sublocale partial_codec "\<lambda>x. sum_bind (enc1 x) enc2" "\<lambda>b. sum_bind (dec2 b) dec1"
proof unfold_locales
  fix x c
  assume "sum_bind (enc1 x) enc2 = Inr c"
  then obtain b where "enc1 x = Inr b" and "enc2 b = Inr c"
    by (auto simp only: sum_bind_Inr_iff)
  then show "sum_bind (dec2 c) dec1 = Inr x"
    using outer.dec_enc inner.dec_enc by simp
qed

end

end
