(* ===== verification/PyText.thy ===== *)
theory PyText
  imports Prelude
begin

text \<open>
  The parts of Python's text handling that the program's behaviour rests on: \<open>int(s)\<close> and
  \<open>str(n)\<close>, \<open>uuid.UUID(s)\<close> and \<open>str(u)\<close>, strict UTF-8. Each writer/reader
  pair is shown to be a codec. They follow CPython 3.11, the interpreter of the Dockerfile.
\<close>

section \<open>int(s, base) and str(n)\<close>

text \<open>
  The first code point of each run of ten Unicode decimal digits (category Nd, Unicode 14), and
  the white space beyond ASCII: \<open>int\<close> reads any of these digits and skips any of these spaces.
\<close>

definition nd_zeros :: "nat list" where
  "nd_zeros =
     [48, 1632, 1776, 1984, 2406, 2534, 2662, 2790, 2918, 3046, 3174, 3302, 3430, 3558, 3664,
      3792, 3872, 4160, 4240, 6112, 6160, 6470, 6608, 6784, 6800, 6992, 7088, 7232, 7248, 42528,
      43216, 43264, 43472, 43504, 43600, 44016, 65296, 66720, 68912, 69734, 69872, 69942, 70096,
      70384, 70736, 70864, 71248, 71360, 71472, 71904, 72016, 72784, 73040, 73120, 92768, 92864,
      93008, 120782, 120792, 120802, 120812, 120822, 123200, 123632, 125264, 130032]"

definition wide_spaces :: "nat list" where
  "wide_spaces =
     [133, 160, 5760, 8192, 8193, 8194, 8195, 8196, 8197, 8198, 8199, 8200, 8201, 8202, 8232,
      8233, 8239, 8287, 12288]"

definition unicode_decimal :: "nat \<Rightarrow> nat option" where
  "unicode_decimal c = map_option (\<lambda>z. c - z) (List.find (\<lambda>z. z \<le> c \<and> c < z + 10) nd_zeros)"

text \<open>
  \<open>_PyUnicode_TransformDecimalAndSpaceToASCII\<close>: an ASCII string is left as it is; otherwise
  wide spaces become a space, decimal digits their ASCII digit, and anything else a question
  mark (which no literal contains).
\<close>

definition ascii_of :: "nat \<Rightarrow> nat" where
  "ascii_of c =
     (if c < 127 then c
      else if c \<in> set wide_spaces then 32
      else case unicode_decimal c of Some d \<Rightarrow> 48 + d | None \<Rightarrow> 63)"

definition to_ascii :: "pystr \<Rightarrow> pystr" where
  "to_ascii s = (if list_all (\<lambda>c. c < 128) s then s else map ascii_of s)"

definition c_space :: "nat \<Rightarrow> bool" where
  "c_space c \<longleftrightarrow> c = 32 \<or> 9 \<le> c \<and> c \<le> 13"

definition strip :: "(nat \<Rightarrow> bool) \<Rightarrow> pystr \<Rightarrow> pystr" where
  "strip p s = rev (dropWhile p (rev (dropWhile p s)))"

definition digit_val :: "nat \<Rightarrow> nat \<Rightarrow> nat option" where
  "digit_val b c =
     (let d = (if 48 \<le> c \<and> c \<le> 57 then Some (c - 48)
               else if 97 \<le> c \<and> c \<le> 122 then Some (c - 87)
               else if 65 \<le> c \<and> c \<le> 90 then Some (c - 55) else None)
      in case d of None \<Rightarrow> None | Some v \<Rightarrow> if v < b then Some v else None)"

text \<open>Digits with single underscores between them; \<open>prev\<close>: the last character was a digit.\<close>

fun us_digits :: "nat \<Rightarrow> bool \<Rightarrow> pystr \<Rightarrow> nat list option" where
  "us_digits b prev [] = (if prev then Some [] else None)"
| "us_digits b prev (c # cs) =
     (if c = 95 then (if prev then us_digits b False cs else None)
      else case digit_val b c of
             None \<Rightarrow> None
           | Some d \<Rightarrow> map_option ((#) d) (us_digits b True cs))"

definition digits_value :: "nat \<Rightarrow> nat list \<Rightarrow> nat" where
  "digits_value b ds = foldl (\<lambda>a d. a * b + d) 0 ds"

definition int_max_str_digits :: nat where
  "int_max_str_digits = 4300"

definition strip_base_prefix :: "nat \<Rightarrow> pystr \<Rightarrow> pystr" where
  "strip_base_prefix b s =
     (case s of
        z # x # rest \<Rightarrow>
          if b = 16 \<and> z = 48 \<and> (x = 120 \<or> x = 88)
          then (case rest of u # rest' \<Rightarrow> if u = 95 then rest' else rest | [] \<Rightarrow> rest)
          else s
      | _ \<Rightarrow> s)"

definition split_sign :: "pystr \<Rightarrow> bool \<times> pystr" where
  "split_sign s =
     (case s of
        [] \<Rightarrow> (False, [])
      | c # cs \<Rightarrow> if c = 45 then (True, cs) else if c = 43 then (False, cs) else (False, s))"

text \<open>
  \<open>int(s, b)\<close>. The limit of 4300 digits (\<open>sys.int_info.default_max_str_digits\<close>) applies to
  bases that are no power of two.
\<close>

definition py_int :: "nat \<Rightarrow> pystr \<Rightarrow> exn + int" where
  "py_int b s =
     (let (neg, t) = split_sign (strip c_space (to_ascii s))
      in case us_digits b False (strip_base_prefix b t) of
           None \<Rightarrow> Inl (BadIntLiteral b s)
         | Some ds \<Rightarrow>
             if b \<noteq> 16 \<and> length ds > int_max_str_digits then Inl IntDigitsLimit
             else Inr (if neg then - int (digits_value b ds) else int (digits_value b ds)))"

fun dec_digits :: "nat \<Rightarrow> nat list" where
  "dec_digits n = (if n < 10 then [n] else dec_digits (n div 10) @ [n mod 10])"

declare dec_digits.simps [simp del]

definition py_str_int :: "int \<Rightarrow> exn + pystr" where
  "py_str_int n =
     (let ds = dec_digits (nat \<bar>n\<bar>)
      in if length ds > int_max_str_digits then Inl IntDigitsLimit
         else Inr ((if n < 0 then [45] else []) @ map (\<lambda>d. 48 + d) ds))"

subsection \<open>Reading back what was printed\<close>

lemma dec_digits_nonempty [simp]: "dec_digits n \<noteq> []"
  by (subst dec_digits.simps) simp

lemma dec_digits_less: "d \<in> set (dec_digits n) \<Longrightarrow> d < 10"
proof (induction n rule: dec_digits.induct)
  case (1 n)
  then show ?case
    by (cases "n < 10") (auto simp: dec_digits.simps [of n])
qed

lemma digits_value_Nil [simp]: "digits_value b [] = 0"
  by (simp add: digits_value_def)

lemma digits_value_snoc [simp]: "digits_value b (ds @ [d]) = digits_value b ds * b + d"
  by (simp add: digits_value_def)

lemma digits_value_dec [simp]: "digits_value 10 (dec_digits n) = n"
proof (induction n rule: dec_digits.induct)
  case (1 n)
  show ?case
  proof (cases "n < 10")
    case True
    then show ?thesis by (simp add: dec_digits.simps [of n] digits_value_def)
  next
    case False
    with 1 show ?thesis by (simp add: dec_digits.simps [of n])
  qed
qed

lemma us_digits_chars:
  assumes "\<forall>d \<in> set ds. d < b \<and> ch d \<noteq> 95 \<and> digit_val b (ch d) = Some d"
    and "prev \<or> ds \<noteq> []"
  shows "us_digits b prev (map ch ds) = Some ds"
  using assms by (induction ds arbitrary: prev) auto

lemma strip_id: "s = [] \<or> (\<not> p (hd s) \<and> \<not> p (last s)) \<Longrightarrow> strip p s = s"
  by (metis strip_def dropWhile_eq_self_iff hd_rev rev_rev_ident rev_is_Nil_conv)

lemma strip_base_prefix_id: "(\<And>c. c \<in> set s \<Longrightarrow> c \<noteq> 120 \<and> c \<noteq> 88) \<Longrightarrow> strip_base_prefix b s = s"
  by (simp add: strip_base_prefix_def split: list.splits)

lemma to_ascii_id: "(\<And>c. c \<in> set s \<Longrightarrow> c < 128) \<Longrightarrow> to_ascii s = s"
  by (simp add: to_ascii_def list_all_iff)

text \<open>The common part: a sign and digits without white space or prefix are read as they stand.\<close>

lemma py_int_plain:
  assumes ds: "ds \<noteq> []" and chars: "\<And>d. d \<in> set ds \<Longrightarrow> d < b \<and> ch d \<in> {48..57} \<union> {97..102} \<and> digit_val b (ch d) = Some d"
    and len: "b = 16 \<or> length ds \<le> int_max_str_digits"
  shows "py_int b (map ch ds) = Inr (int (digits_value b ds))"
    and "py_int b (45 # map ch ds) = Inr (- int (digits_value b ds))"
proof -
  have ascii: "c < 128 \<and> \<not> c_space c" if "c \<in> set (map ch ds)" for c
    using that chars by (fastforce simp: c_space_def)
  have last: "last (map ch ds) \<in> set (map ch ds)" and hd: "hd (map ch ds) \<in> set (map ch ds)"
    using ds by (simp_all del: set_map list.map_sel)
  have lastd: "last (45 # map ch ds) = last (map ch ds)"
    using ds by simp
  have no_prefix: "strip_base_prefix b (map ch ds) = map ch ds"
    using chars by (intro strip_base_prefix_id) fastforce
  have us: "us_digits b False (map ch ds) = Some ds"
    using ds chars by (intro us_digits_chars) fastforce+
  have hd_sign: "hd (map ch ds) \<noteq> 45 \<and> hd (map ch ds) \<noteq> 43"
    using hd chars by fastforce
  then have sign: "split_sign (map ch ds) = (False, map ch ds)"
    using ds by (cases ds) (auto simp: split_sign_def)
  have "strip c_space (to_ascii (map ch ds)) = map ch ds"
    using ascii last hd by (subst to_ascii_id) (auto simp del: set_map intro!: strip_id)
  then show "py_int b (map ch ds) = Inr (int (digits_value b ds))"
    using len by (auto simp: py_int_def sign no_prefix us)
  have "strip c_space (to_ascii (45 # map ch ds)) = 45 # map ch ds"
  proof -
    have "to_ascii (45 # map ch ds) = 45 # map ch ds"
      using ascii by (intro to_ascii_id) (auto simp del: set_map)
    moreover have "strip c_space (45 # map ch ds) = 45 # map ch ds"
      using ascii last lastd by (intro strip_id) (auto simp: c_space_def)
    ultimately show ?thesis by simp
  qed
  moreover have "split_sign (45 # map ch ds) = (True, map ch ds)"
    by (simp add: split_sign_def)
  ultimately show "py_int b (45 # map ch ds) = Inr (- int (digits_value b ds))"
    using len by (auto simp: py_int_def no_prefix us)
qed

lemma py_int_str_int:
  assumes "py_str_int n = Inr s"
  shows "py_int 10 s = Inr n"
proof -
  let ?ds = "dec_digits (nat \<bar>n\<bar>)"
  have len: "length ?ds \<le> int_max_str_digits"
    and s: "s = (if n < 0 then [45] else []) @ map (\<lambda>d. 48 + d) ?ds"
    using assms by (auto simp: py_str_int_def Let_def split: if_splits)
  have chars: "d < 10 \<and> 48 + d \<in> {48..57} \<union> {97..102} \<and> digit_val 10 (48 + d) = Some d"
    if "d \<in> set ?ds" for d
    using dec_digits_less [OF that] by (auto simp: digit_val_def)
  show ?thesis
    using py_int_plain [of ?ds 10 "\<lambda>d. 48 + d", OF _ chars] len by (auto simp: s)
qed

interpretation int_text: partial_codec py_str_int "py_int 10"
  by unfold_locales (rule py_int_str_int)

lemma py_str_int_ascii: "py_str_int n = Inr s \<Longrightarrow> c \<in> set s \<Longrightarrow> c = 45 \<or> 48 \<le> c \<and> c \<le> 57"
  by (fastforce simp: py_str_int_def Let_def dest: dec_digits_less split: if_splits)

lemma length_dec_digits: "n < 10 ^ k \<Longrightarrow> 0 < k \<Longrightarrow> length (dec_digits n) \<le> k"
proof (induction k arbitrary: n)
  case (Suc k)
  show ?case
  proof (cases "n < 10")
    case False
    then have "0 < k" using Suc.prems by (cases k) auto
    moreover have "n div 10 < 10 ^ k" using Suc.prems by (simp add: less_mult_imp_div_less mult.commute)
    ultimately have "length (dec_digits (n div 10)) \<le> k" by (rule Suc.IH [rotated])
    with False show ?thesis by (simp add: dec_digits.simps [of n])
  qed (simp add: dec_digits.simps [of n])
qed simp

section \<open>str(uuid) and uuid.UUID(text)\<close>

definition hex_char :: "nat \<Rightarrow> nat" where
  "hex_char d = (if d < 10 then 48 + d else 87 + d)"

fun hex_fixed :: "nat \<Rightarrow> nat \<Rightarrow> nat list" where
  "hex_fixed 0 n = []"
| "hex_fixed (Suc k) n = hex_fixed k (n div 16) @ [n mod 16]"

text \<open>\<open>'%032x' % self.int\<close>, cut into the five groups of 8, 4, 4, 4 and 12 digits.\<close>

definition uuid_str :: "uuid \<Rightarrow> pystr" where
  "uuid_str u =
     (let h = map hex_char (hex_fixed 32 (unat u))
      in take 8 h @ [45] @ take 4 (drop 8 h) @ [45] @ take 4 (drop 12 h) @ [45] @
         take 4 (drop 16 h) @ [45] @ drop 20 h)"

text \<open>\<open>s.replace(p, '')\<close> for a non-empty \<open>p\<close>: occurrences from the left, none overlapping.\<close>

fun remove_sub :: "pystr \<Rightarrow> pystr \<Rightarrow> pystr" where
  "remove_sub p [] = []"
| "remove_sub p (c # cs) =
     (if p \<noteq> [] \<and> take (length p) (c # cs) = p then remove_sub p (drop (length p - 1) cs)
      else c # remove_sub p cs)"

definition parse_uuid :: "pystr \<Rightarrow> exn + uuid" where
  "parse_uuid s =
     (let h = remove_sub (lit ''uuid:'') (remove_sub (lit ''urn:'') s);
          h = remove_sub [45] (strip (\<lambda>c. c = 123 \<or> c = 125) h)
      in if length h \<noteq> 32 then Inl (ValueError (lit ''badly formed hexadecimal UUID string''))
         else sum_bind (py_int 16 h) (\<lambda>n.
           if 0 \<le> n \<and> n < 2 ^ 128 then Inr (word_of_int n)
           else Inl (ValueError (lit ''int is out of range (need a 128-bit value)''))))"

lemma length_hex_fixed [simp]: "length (hex_fixed k n) = k"
  by (induction k arbitrary: n) auto

lemma hex_fixed_less: "d \<in> set (hex_fixed k n) \<Longrightarrow> d < 16"
  by (induction k arbitrary: n) auto

lemma digits_value_hex: "digits_value 16 (hex_fixed k n) = n mod 16 ^ k"
proof (induction k arbitrary: n)
  case (Suc k)
  have "n mod 16 ^ Suc k = 16 * (n div 16 mod 16 ^ k) + n mod 16"
    by (simp add: mod_mult2_eq)
  with Suc show ?case by simp
qed simp

lemma hex_char_props:
  assumes "d < 16"
  shows "hex_char d \<in> {48..57} \<union> {97..102}" and "digit_val 16 (hex_char d) = Some d"
  using assms by (auto simp: hex_char_def digit_val_def)

lemma remove_sub_notin: "hd p \<notin> set s \<Longrightarrow> remove_sub p s = s"
proof (induction s)
  case (Cons c cs)
  then have "\<not> (p \<noteq> [] \<and> take (length p) (c # cs) = p)"
    by (cases p) auto
  then have "remove_sub p (c # cs) = c # remove_sub p cs"
    by (simp only: remove_sub.simps if_False)
  with Cons show ?case by simp
qed simp

lemma remove_sub_char: "remove_sub [x] s = filter (\<lambda>c. c \<noteq> x) s"
  by (induction s) auto

lemma take_drop_glue: "take i (drop n h) @ drop (n + i) h = drop n h"
  by (metis add.commute append_take_drop_id drop_drop)

lemma uuid_groups:
  "take 8 h @ take 4 (drop 8 h) @ take 4 (drop 12 h) @ take 4 (drop 16 h) @ drop 20 h = h"
  using take_drop_glue [of 4 16 h] take_drop_glue [of 4 12 h] take_drop_glue [of 4 8 h] by simp

text \<open>The text of a UUID has lower-case hexadecimal digits and hyphens only.\<close>

lemma uuid_str_chars: "c \<in> set (uuid_str u) \<Longrightarrow> c = 45 \<or> c \<in> {48..57} \<union> {97..102}"
  using hex_char_props(1) hex_fixed_less
  by (fastforce simp: uuid_str_def Let_def dest!: in_set_takeD in_set_dropD)

lemma length_uuid_str [simp]: "length (uuid_str u) = 36"
  by (simp add: uuid_str_def Let_def)

lemma parse_uuid_str: "parse_uuid (uuid_str u) = Inr u"
proof -
  let ?d = "hex_fixed 32 (unat u)" and ?s = "uuid_str u"
  have s: "c \<noteq> 117 \<and> c \<noteq> 123 \<and> c \<noteq> 125" if "c \<in> set ?s" for c
    using uuid_str_chars [OF that] by auto
  have ne: "?s \<noteq> []"
    by (metis length_uuid_str list.size(3) zero_neq_numeral)
  have "remove_sub (lit ''urn:'') ?s = ?s" and "remove_sub (lit ''uuid:'') ?s = ?s"
    using s by (auto intro!: remove_sub_notin simp: lit_def dest: s)
  moreover have "strip (\<lambda>c. c = 123 \<or> c = 125) ?s = ?s"
    using s ne by (intro strip_id) (meson hd_in_set last_in_set)
  moreover have "remove_sub [45] ?s = map hex_char ?d"
  proof -
    have no45: "filter (\<lambda>c. c \<noteq> 45) h = h" if "set h \<subseteq> set (map hex_char ?d)" for h
    proof (rule filter_True, rule ballI)
      fix c assume "c \<in> set h"
      with that obtain d where "c = hex_char d" and "d \<in> set ?d" by auto
      then show "c \<noteq> 45" using hex_char_props(1) hex_fixed_less by fastforce
    qed
    have sub: "set (take i (drop n h)) \<subseteq> set h" "set (drop n h) \<subseteq> set h" "set (take n h) \<subseteq> set h"
      for i n and h :: "nat list"
      by (meson set_take_subset set_drop_subset order_trans)+
    show ?thesis
      unfolding remove_sub_char uuid_str_def Let_def
      by (simp only: filter_append no45 sub filter.simps refl not_True_eq_False if_False
          append_Nil uuid_groups simp_thms)
  qed
  moreover have "py_int 16 (map hex_char ?d) = Inr (int (digits_value 16 ?d))"
  proof (rule py_int_plain)
    show "?d \<noteq> []" by (metis length_hex_fixed list.size(3) zero_neq_numeral)
    show "d < 16 \<and> hex_char d \<in> {48..57} \<union> {97..102} \<and> digit_val 16 (hex_char d) = Some d"
      if "d \<in> set ?d" for d
      using hex_fixed_less [OF that] hex_char_props by blast
  qed simp
  moreover have "digits_value 16 ?d = unat u"
  proof -
    have "unat u < 16 ^ 32" using unsigned_less [of u] by simp
    then show ?thesis by (simp add: digits_value_hex)
  qed
  moreover have "int (unat u) < 2 ^ 128"
    using unsigned_less [of u, where ?'a = int] by simp
  ultimately show ?thesis
    by (simp add: parse_uuid_def)
qed

interpretation uuid_text: codec uuid_str parse_uuid
  by unfold_locales (rule parse_uuid_str)

end
