(* ===== verification/Utf8.thy ===== *)
theory Utf8
  imports Prelude
begin

text \<open>
  Python's strict UTF-8 codec: \<open>s.encode("utf-8")\<close> and \<open>b.decode("utf-8")\<close>. The decoder
  refuses overlong forms, surrogates and values above U+10FFFF, so that each is the inverse of
  the other wherever it is defined.
\<close>

definition scalar :: "nat \<Rightarrow> bool" where
  "scalar c \<longleftrightarrow> c < 0xD800 \<or> 0xDFFF < c \<and> c < 0x110000"

text \<open>One byte of a value below 256.\<close>

definition byte :: "nat \<Rightarrow> 8 word" where
  "byte n = of_nat n"

definition utf8_char :: "nat \<Rightarrow> bytes" where
  "utf8_char c =
     (if c < 0x80 then [byte c]
      else if c < 0x800 then [byte (0xC0 + c div 64), byte (0x80 + c mod 64)]
      else if c < 0x10000 then
        [byte (0xE0 + c div 4096), byte (0x80 + c div 64 mod 64), byte (0x80 + c mod 64)]
      else
        [byte (0xF0 + c div 262144), byte (0x80 + c div 4096 mod 64),
         byte (0x80 + c div 64 mod 64), byte (0x80 + c mod 64)])"

definition utf8_encode :: "pystr \<Rightarrow> exn + bytes" where
  "utf8_encode s =
     (if list_all scalar s then Inr (concat (map utf8_char s)) else Inl UnicodeEncodeError)"

definition cont :: "8 word \<Rightarrow> bool" where
  "cont b \<longleftrightarrow> 0x80 \<le> unat b \<and> unat b < 0xC0"

text \<open>The first character of a byte string and the bytes after it.\<close>

definition utf8_head :: "bytes \<Rightarrow> (nat \<times> bytes) option" where
  "utf8_head bs =
     (case bs of
        [] \<Rightarrow> None
      | a # r1 \<Rightarrow>
          if unat a < 0x80 then Some (unat a, r1)
          else (case r1 of
             [] \<Rightarrow> None
           | b # r2 \<Rightarrow>
               if 0xC2 \<le> unat a \<and> unat a < 0xE0 then
                 if cont b then Some ((unat a - 0xC0) * 64 + (unat b - 0x80), r2) else None
               else (case r2 of
                  [] \<Rightarrow> None
                | c # r3 \<Rightarrow>
                    if 0xE0 \<le> unat a \<and> unat a < 0xF0 then
                      let n = (unat a - 0xE0) * 4096 + (unat b - 0x80) * 64 + (unat c - 0x80)
                      in if cont b \<and> cont c \<and> 0x800 \<le> n \<and> scalar n then Some (n, r3) else None
                    else (case r3 of
                       [] \<Rightarrow> None
                     | d # r4 \<Rightarrow>
                         if 0xF0 \<le> unat a \<and> unat a < 0xF5 then
                           let n = (unat a - 0xF0) * 262144 + (unat b - 0x80) * 4096 +
                                   (unat c - 0x80) * 64 + (unat d - 0x80)
                           in if cont b \<and> cont c \<and> cont d \<and> 0x10000 \<le> n \<and> n < 0x110000
                              then Some (n, r4) else None
                         else None))))"

lemma utf8_head_shorter: "utf8_head bs = Some (c, rest) \<Longrightarrow> length rest < length bs"
  by (auto simp: utf8_head_def Let_def split: list.splits if_splits)

function utf8_decode :: "bytes \<Rightarrow> exn + pystr" where
  "utf8_decode bs =
     (if bs = [] then Inr []
      else case utf8_head bs of
             None \<Rightarrow> Inl UnicodeDecodeError
           | Some (c, rest) \<Rightarrow> sum_bind (utf8_decode rest) (\<lambda>s. Inr (c # s)))"
  by pat_completeness auto
termination
  by (relation "measure length") (auto dest: utf8_head_shorter)

declare utf8_decode.simps [simp del]

section \<open>One character\<close>

lemma unat_byte [simp]: "n < 256 \<Longrightarrow> unat (byte n) = n"
  by (simp add: byte_def unat_of_nat)

lemma byte_unat [simp]: "byte (unat b) = b"
  by (simp add: byte_def)

lemma byte_eqI: "n = unat b \<Longrightarrow> byte n = b"
  by simp

lemma byte_less_256: "unat (b :: 8 word) < 256"
  using unsigned_less [of b] by simp

text \<open>Base-64 digits, put together and taken apart.\<close>

lemma div_64_64: "(c :: nat) div 4096 = c div 64 div 64"
  by (simp add: div_mult2_eq [symmetric])

lemma div_4096_64: "(c :: nat) div 262144 = c div 4096 div 64"
  by (simp add: div_mult2_eq [symmetric])

lemma base64_join2: "(c :: nat) div 4096 * 4096 + c div 64 mod 64 * 64 + c mod 64 = c"
  using div_64_64 [of c] mult_div_mod_eq [of 64 c] mult_div_mod_eq [of 64 "c div 64"] by linarith

lemma base64_join3:
  "(c :: nat) div 262144 * 262144 + c div 4096 mod 64 * 4096 + c div 64 mod 64 * 64 + c mod 64 = c"
  using div_4096_64 [of c] base64_join2 [of c] mult_div_mod_eq [of 64 "c div 4096"] by linarith

lemma base64_digits:
  fixes a b :: nat
  assumes "b < 64"
  shows "(a * 64 + b) div 64 = a" and "(a * 64 + b) mod 64 = b"
  using assms by simp_all

lemma utf8_head_char: "scalar c \<Longrightarrow> utf8_head (utf8_char c @ rest) = Some (c, rest)"
proof -
  assume sc: "scalar c"
  have bound: "c < 1114112" using sc by (auto simp: scalar_def)
  consider "c < 0x80" | "0x80 \<le> c" "c < 0x800" | "0x800 \<le> c" "c < 0x10000" | "0x10000 \<le> c"
    by linarith
  then show ?thesis
  proof cases
    case 1
    then show ?thesis by (simp add: utf8_char_def utf8_head_def)
  next
    case 2
    then have "c div 64 < 32" and "2 \<le> c div 64" by auto
    with 2 show ?thesis
      by (simp add: utf8_char_def utf8_head_def cont_def)
  next
    case 3
    have "c div 4096 < 16" and lt: "c div 64 mod 64 < 64" using 3 by auto
    moreover have "c div 4096 * 4096 + c div 64 mod 64 * 64 + c mod 64 = c"
      by (rule base64_join2)
    ultimately show ?thesis using 3 sc
      by (simp add: utf8_char_def utf8_head_def cont_def Let_def)
  next
    case 4
    have "c div 262144 < 5" using bound by auto
    moreover have "c div 262144 * 262144 + c div 4096 mod 64 * 4096 + c div 64 mod 64 * 64 + c mod 64 = c"
      by (rule base64_join3)
    ultimately show ?thesis using 4 bound
      by (simp add: utf8_char_def utf8_head_def cont_def Let_def)
  qed
qed

lemma utf8_head_sound:
  assumes "utf8_head bs = Some (n, rest)"
  shows "scalar n \<and> utf8_char n @ rest = bs"
proof -
  consider (one) a where "bs = a # rest" "unat a < 0x80" "n = unat a"
    | (two) a b where "bs = a # b # rest" "0xC2 \<le> unat a" "unat a < 0xE0" "cont b"
        "n = (unat a - 0xC0) * 64 + (unat b - 0x80)"
    | (three) a b c where "bs = a # b # c # rest" "0xE0 \<le> unat a" "unat a < 0xF0" "cont b" "cont c"
        "n = (unat a - 0xE0) * 4096 + (unat b - 0x80) * 64 + (unat c - 0x80)" "0x800 \<le> n" "scalar n"
    | (four) a b c d where "bs = a # b # c # d # rest" "0xF0 \<le> unat a" "unat a < 0xF5" "cont b"
        "cont c" "cont d" "n = (unat a - 0xF0) * 262144 + (unat b - 0x80) * 4096 +
           (unat c - 0x80) * 64 + (unat d - 0x80)" "0x10000 \<le> n" "n < 0x110000"
    using assms by (auto simp: utf8_head_def Let_def split: list.splits if_splits)
  then show ?thesis
  proof cases
    case one
    then show ?thesis by (simp add: utf8_char_def scalar_def)
  next
    case two
    have "unat b - 0x80 < 64" using two(4) by (auto simp: cont_def)
    then have "n div 64 = unat a - 0xC0" "n mod 64 = unat b - 0x80"
      unfolding two(5) by (rule base64_digits)+
    moreover have "0x80 \<le> n" "n < 0x800" using two by (auto simp: cont_def)
    ultimately show ?thesis using two(1-4)
      by (auto simp: utf8_char_def scalar_def cont_def intro!: byte_eqI)
  next
    case three
    have n: "n = ((unat a - 0xE0) * 64 + (unat b - 0x80)) * 64 + (unat c - 0x80)"
      using three(6) by simp
    have b: "unat b - 0x80 < 64" and c: "unat c - 0x80 < 64"
      using three(4,5) by (auto simp: cont_def)
    have d1: "n div 64 = (unat a - 0xE0) * 64 + (unat b - 0x80)" "n mod 64 = unat c - 0x80"
      unfolding n by (rule base64_digits [OF c])+
    note d1(2)
    moreover have "n div 64 mod 64 = unat b - 0x80" "n div 4096 = unat a - 0xE0"
      unfolding div_64_64 d1 by (rule base64_digits [OF b])+
    moreover have "n < 0x10000" using three by (auto simp: cont_def)
    ultimately show ?thesis using three(1-5,7,8)
      by (auto simp: utf8_char_def cont_def intro!: byte_eqI)
  next
    case four
    have n: "n = (((unat a - 0xF0) * 64 + (unat b - 0x80)) * 64 + (unat c - 0x80)) * 64 + (unat d - 0x80)"
      using four(7) by simp
    have b: "unat b - 0x80 < 64" and c: "unat c - 0x80 < 64" and d: "unat d - 0x80 < 64"
      using four(4,5,6) by (auto simp: cont_def)
    have d1: "n div 64 = ((unat a - 0xF0) * 64 + (unat b - 0x80)) * 64 + (unat c - 0x80)"
      "n mod 64 = unat d - 0x80"
      unfolding n by (rule base64_digits [OF d])+
    have d2: "n div 4096 = (unat a - 0xF0) * 64 + (unat b - 0x80)"
      "n div 64 mod 64 = unat c - 0x80"
      unfolding div_64_64 d1 by (rule base64_digits [OF c])+
    note d1(2) d2(2)
    moreover have "n div 262144 = unat a - 0xF0" "n div 4096 mod 64 = unat b - 0x80"
      unfolding div_4096_64 d2 by (rule base64_digits [OF b])+
    ultimately show ?thesis using four(1-6,8,9)
      by (auto simp: utf8_char_def cont_def scalar_def intro!: byte_eqI)
  qed
qed

lemma utf8_char_nonempty [simp]: "utf8_char c \<noteq> []"
  by (simp add: utf8_char_def)

section \<open>Whole strings\<close>

lemma utf8_decode_error: "utf8_decode b = Inl e \<Longrightarrow> e = UnicodeDecodeError"
  by (induction b rule: utf8_decode.induct)
    (auto simp: utf8_decode.simps sum_bind_Inl_iff split: if_splits option.splits prod.splits)

lemma utf8_decode_Nil [simp]: "utf8_decode [] = Inr []"
  by (subst utf8_decode.simps) simp

lemma utf8_decode_char:
  "scalar c \<Longrightarrow> utf8_decode (utf8_char c @ rest) = sum_bind (utf8_decode rest) (\<lambda>s. Inr (c # s))"
  by (subst utf8_decode.simps) (simp add: utf8_head_char)

lemma utf8_decode_concat: "list_all scalar s \<Longrightarrow> utf8_decode (concat (map utf8_char s)) = Inr s"
  by (induction s) (auto simp: utf8_decode_char)

lemma utf8_decode_encode: "utf8_encode s = Inr b \<Longrightarrow> utf8_decode b = Inr s"
  by (auto simp: utf8_encode_def utf8_decode_concat split: if_splits)

lemma utf8_encode_decode: "utf8_decode b = Inr s \<Longrightarrow> utf8_encode s = Inr b"
proof (induction b arbitrary: s rule: utf8_decode.induct)
  case (1 bs)
  show ?case
  proof (cases "bs = []")
    case True
    with "1.prems" show ?thesis by (simp add: utf8_encode_def)
  next
    case False
    with "1.prems" obtain c rest t where head: "utf8_head bs = Some (c, rest)"
      and rest: "utf8_decode rest = Inr t" and s: "s = c # t"
      by (auto simp: utf8_decode.simps [of bs] sum_bind_Inr_iff split: option.splits)
    from "1.IH" [OF False head refl rest] have "utf8_encode t = Inr rest" .
    with utf8_head_sound [OF head] show ?thesis
      by (auto simp: utf8_encode_def s split: if_splits)
  qed
qed

interpretation utf8: partial_codec utf8_encode utf8_decode
  by unfold_locales (rule utf8_decode_encode)

lemma utf8_encode_ascii:
  "(\<And>c. c \<in> set s \<Longrightarrow> c < 128) \<Longrightarrow> utf8_encode s = Inr (map byte s)"
  by (induction s) (fastforce simp: utf8_encode_def utf8_char_def scalar_def split: if_splits)+

text \<open>Encoding is a homomorphism: text put together is the bytes put together.\<close>

lemma utf8_encode_append:
  "utf8_encode (s @ t) = sum_bind (utf8_encode s) (\<lambda>a. sum_bind (utf8_encode t) (\<lambda>b. Inr (a @ b)))"
  by (simp add: utf8_encode_def)

end
