(* ===== verification/PyJson.thy ===== *)
theory PyJson
  imports PyText Utf8 "HOL-Library.AList"
begin

text \<open>
  Python's \<open>json\<close> module as the program uses it: the values, \<open>json.loads\<close> on text and
  \<open>json.dumps\<close> with \<open>ensure_ascii=True\<close>, and what Python's \<open>int()\<close> and truth test do with
  such values. The reader is given fuel; \<open>json_value_fuel\<close> shows that the amount
  \<open>json_loads\<close> gives is enough. CPython's limit on the nesting depth is not modelled.
\<close>

section \<open>Values\<close>

text \<open>
  A finite float is \<open>m * 2 ^ e\<close>, the value of an IEEE double. A dict keeps its insertion order,
  so an object is an association list with distinct keys.
\<close>

datatype pyfloat = PFin int int | PInf | PNegInf | PNaN

datatype json =
    JNull
  | JBool bool
  | JInt int
  | JFloat pyfloat
  | JStr pystr
  | JArr "json list"
  | JObj "(pystr \<times> json) list"

type_synonym dict = "(pystr \<times> json) list"

definition dict_get :: "dict \<Rightarrow> pystr \<Rightarrow> json option" where
  "dict_get d k = map_of d k"

definition dict_set :: "dict \<Rightarrow> pystr \<Rightarrow> json \<Rightarrow> dict" where
  "dict_set d k v = AList.update k v d"

text \<open>\<open>bool(x)\<close>.\<close>

fun truthy :: "json \<Rightarrow> bool" where
  "truthy JNull = False"
| "truthy (JBool b) = b"
| "truthy (JInt n) = (n \<noteq> 0)"
| "truthy (JFloat (PFin m e)) = (m \<noteq> 0)"
| "truthy (JFloat _) = True"
| "truthy (JStr s) = (s \<noteq> [])"
| "truthy (JArr xs) = (xs \<noteq> [])"
| "truthy (JObj d) = (d \<noteq> [])"

text \<open>\<open>int(x)\<close>: a float is truncated towards zero, a string is read in base 10.\<close>

definition float_trunc :: "int \<Rightarrow> int \<Rightarrow> int" where
  "float_trunc m e =
     (if 0 \<le> e then m * 2 ^ nat e else sgn m * (\<bar>m\<bar> div 2 ^ nat (- e)))"

definition int_type_error :: "string \<Rightarrow> exn" where
  "int_type_error t =
     TypeError (lit (''int() argument must be a string, a bytes-like object or a real number, not '' @
       [CHR 0x27] @ t @ [CHR 0x27]))"

fun json_int :: "json \<Rightarrow> exn + int" where
  "json_int JNull = Inl (int_type_error ''NoneType'')"
| "json_int (JBool b) = Inr (if b then 1 else 0)"
| "json_int (JInt n) = Inr n"
| "json_int (JFloat (PFin m e)) = Inr (float_trunc m e)"
| "json_int (JFloat PNaN) = Inl (ValueError (lit ''cannot convert float NaN to integer''))"
| "json_int (JFloat _) = Inl (OverflowError (lit ''cannot convert float infinity to integer''))"
| "json_int (JStr s) = py_int 10 s"
| "json_int (JArr _) = Inl (int_type_error ''list'')"
| "json_int (JObj _) = Inl (int_type_error ''dict'')"

lemma dict_get_set: "dict_get (dict_set d k v) k' = (if k' = k then Some v else dict_get d k')"
  by (simp add: dict_get_def dict_set_def update_conv)

lemma distinct_dict_set: "distinct (map fst d) \<Longrightarrow> distinct (map fst (dict_set d k v))"
  by (simp add: dict_set_def distinct_update)

text \<open>\<open>v[key]\<close>, \<open>v.get(key, default)\<close> and \<open>for x in v\<close> on any value that JSON may give.\<close>

definition json_subscript :: "json \<Rightarrow> pystr \<Rightarrow> exn + json" where
  "json_subscript v key =
     (case v of
        JObj d \<Rightarrow> (case dict_get d key of None \<Rightarrow> Inl (KeyError key) | Some x \<Rightarrow> Inr x)
      | JStr _ \<Rightarrow> Inl (TypeError (lit ''string indices must be integers''))
      | JArr _ \<Rightarrow> Inl (TypeError (lit ''list indices must be integers or slices, not str''))
      | _ \<Rightarrow> Inl (TypeError (lit ''object is not subscriptable'')))"

definition json_get :: "json \<Rightarrow> pystr \<Rightarrow> json \<Rightarrow> exn + json" where
  "json_get v key dflt =
     (case v of
        JObj d \<Rightarrow> Inr (case dict_get d key of None \<Rightarrow> dflt | Some x \<Rightarrow> x)
      | _ \<Rightarrow> Inl (AttributeError (lit ''object has no attribute get'')))"

definition json_iter :: "json \<Rightarrow> exn + json list" where
  "json_iter v =
     (case v of
        JArr xs \<Rightarrow> Inr xs
      | JObj d \<Rightarrow> Inr (map (\<lambda>(k, _). JStr k) d)
      | JStr s \<Rightarrow> Inr (map (\<lambda>ch. JStr [ch]) s)
      | _ \<Rightarrow> Inl (TypeError (lit ''object is not iterable'')))"

section \<open>json.loads\<close>

definition json_ws :: "nat \<Rightarrow> bool" where
  "json_ws c \<longleftrightarrow> c = 32 \<or> c = 9 \<or> c = 10 \<or> c = 13"

definition skip_ws :: "pystr \<Rightarrow> pystr" where
  "skip_ws s = dropWhile json_ws s"

definition hex4 :: "pystr \<Rightarrow> nat option" where
  "hex4 s =
     (if length s < 4 then None
      else map_option (digits_value 16) (those (map (digit_val 16) (take 4 s))))"

definition unescape :: "nat \<Rightarrow> nat option" where
  "unescape c =
     map_of [(34, 34), (92, 92), (47, 47), (98, 8), (102, 12), (110, 10), (114, 13), (116, 9)] c"

definition cons_char :: "nat \<Rightarrow> exn + pystr \<times> pystr \<Rightarrow> exn + pystr \<times> pystr" where
  "cons_char c r = sum_bind r (\<lambda>(s, rest). Inr (c # s, rest))"

text \<open>The rest of a string after its opening quote: its value and what follows its closing quote.\<close>

fun json_string :: "pystr \<Rightarrow> exn + pystr \<times> pystr" where
  "json_string [] = Inl JSONDecodeError"
| "json_string (c # cs) =
     (if c = 34 then Inr ([], cs)
      else if c \<noteq> 92 then (if c < 32 then Inl JSONDecodeError else cons_char c (json_string cs))
      else case cs of
             [] \<Rightarrow> Inl JSONDecodeError
           | x # r \<Rightarrow>
               if x \<noteq> 117 then
                 (case unescape x of
                    None \<Rightarrow> Inl JSONDecodeError
                  | Some y \<Rightarrow> cons_char y (json_string r))
               else case hex4 r of
                      None \<Rightarrow> Inl JSONDecodeError
                    | Some v \<Rightarrow>
                        if 0xD800 \<le> v \<and> v \<le> 0xDBFF \<and> take 2 (drop 4 r) = [92, 117] then
                          (case hex4 (drop 6 r) of
                             None \<Rightarrow> Inl JSONDecodeError
                           | Some v2 \<Rightarrow>
                               if 0xDC00 \<le> v2 \<and> v2 \<le> 0xDFFF
                               then cons_char (0x10000 + (v - 0xD800) * 1024 + (v2 - 0xDC00))
                                      (json_string (drop 10 r))
                               else cons_char v (json_string (drop 4 r)))
                        else cons_char v (json_string (drop 4 r)))"

text \<open>Decimal to double: round to nearest, ties to even, with gradual underflow and overflow.\<close>

fun bit_len :: "nat \<Rightarrow> nat" where
  "bit_len n = (if n = 0 then 0 else Suc (bit_len (n div 2)))"

declare bit_len.simps [simp del]

definition div_half_even :: "nat \<Rightarrow> nat \<Rightarrow> nat" where
  "div_half_even n d =
     (let q = n div d; r = n mod d
      in if 2 * r < d \<or> 2 * r = d \<and> even q then q else q + 1)"

definition scaled :: "nat \<Rightarrow> nat \<Rightarrow> int \<Rightarrow> nat \<times> nat" where
  "scaled n d e = (if 0 \<le> e then (n, d * 2 ^ nat e) else (n * 2 ^ nat (- e), d))"

definition double_of_ratio :: "bool \<Rightarrow> nat \<Rightarrow> nat \<Rightarrow> pyfloat" where
  "double_of_ratio neg n d =
     (if n = 0 then PFin 0 0
      else let e0 = int (bit_len n) - int (bit_len d) - 53;
               (n0, d0) = scaled n d e0;
               e = max (if 2 ^ 53 * d0 \<le> n0 then e0 + 1 else e0) (- 1074);
               (n1, d1) = scaled n d e;
               m = div_half_even n1 d1
           in if 0 \<le> e \<and> 2 ^ 1024 \<le> m * 2 ^ nat e then (if neg then PNegInf else PInf)
              else PFin (if neg then - int m else int m) e)"

text \<open>A number: an integer unless it has a fraction or an exponent.\<close>

definition is_digit :: "nat \<Rightarrow> bool" where
  "is_digit c \<longleftrightarrow> 48 \<le> c \<and> c \<le> 57"

definition dec_val :: "pystr \<Rightarrow> nat" where
  "dec_val ds = digits_value 10 (map (\<lambda>c. c - 48) ds)"

definition json_frac :: "pystr \<Rightarrow> pystr \<times> pystr" where
  "json_frac s =
     (case s of
        c # r \<Rightarrow> if c = 46 \<and> takeWhile is_digit r \<noteq> []
                 then (takeWhile is_digit r, dropWhile is_digit r) else ([], s)
      | [] \<Rightarrow> ([], s))"

definition json_exp :: "pystr \<Rightarrow> int option \<times> pystr" where
  "json_exp s =
     (case s of
        c # r \<Rightarrow>
          if c = 101 \<or> c = 69 then
            let (neg, r') = split_sign r; ds = takeWhile is_digit r'
            in if ds = [] then (None, s)
               else (Some (if neg then - int (dec_val ds) else int (dec_val ds)), dropWhile is_digit r')
          else (None, s)
      | [] \<Rightarrow> (None, s))"

definition json_number :: "pystr \<Rightarrow> exn + json \<times> pystr" where
  "json_number s =
     (let neg = (take 1 s = [45]);
          t = (if neg then tl s else s);
          ip = (if take 1 t = [48] then [48] else takeWhile is_digit t);
          (frac, r2) = json_frac (drop (length ip) t);
          (ex, r3) = json_exp r2
      in if ip = [] then Inl JSONDecodeError
         else if frac = [] \<and> ex = None then
           (if length ip > int_max_str_digits then Inl IntDigitsLimit
            else Inr (JInt (if neg then - int (dec_val ip) else int (dec_val ip)), r3))
         else
           let m = dec_val (ip @ frac);
               e = (case ex of None \<Rightarrow> 0 | Some x \<Rightarrow> x) - int (length frac)
           in Inr (JFloat (if 0 \<le> e then double_of_ratio neg (m * 10 ^ nat e) 1
                           else double_of_ratio neg m (10 ^ nat (- e))), r3))"

definition json_word :: "pystr \<Rightarrow> (json \<times> pystr) option" where
  "json_word s =
     (if take 4 s = lit ''null'' then Some (JNull, drop 4 s)
      else if take 4 s = lit ''true'' then Some (JBool True, drop 4 s)
      else if take 5 s = lit ''false'' then Some (JBool False, drop 5 s)
      else if take 3 s = lit ''NaN'' then Some (JFloat PNaN, drop 3 s)
      else if take 8 s = lit ''Infinity'' then Some (JFloat PInf, drop 8 s)
      else if take 9 s = lit ''-Infinity'' then Some (JFloat PNegInf, drop 9 s)
      else None)"

text \<open>
  A value, the rest of an array after its opening bracket or a comma, the rest of an object
  likewise. A repeated key overwrites.
\<close>

fun json_value :: "nat \<Rightarrow> pystr \<Rightarrow> exn + json \<times> pystr"
  and json_elems :: "nat \<Rightarrow> json list \<Rightarrow> pystr \<Rightarrow> exn + json \<times> pystr"
  and json_members :: "nat \<Rightarrow> dict \<Rightarrow> pystr \<Rightarrow> exn + json \<times> pystr" where
  "json_value 0 s = Inl JSONDecodeError"
| "json_value (Suc n) s =
     (case s of
        [] \<Rightarrow> Inl JSONDecodeError
      | c # cs \<Rightarrow>
          if c = 34 then sum_bind (json_string cs) (\<lambda>(x, r). Inr (JStr x, r))
          else if c = 91 then
            (if take 1 (skip_ws cs) = [93] then Inr (JArr [], tl (skip_ws cs))
             else json_elems n [] (skip_ws cs))
          else if c = 123 then
            (if take 1 (skip_ws cs) = [125] then Inr (JObj [], tl (skip_ws cs))
             else json_members n [] (skip_ws cs))
          else case json_word s of
                 Some (v, r) \<Rightarrow> Inr (v, r)
               | None \<Rightarrow> json_number s)"
| "json_elems 0 acc s = Inl JSONDecodeError"
| "json_elems (Suc n) acc s =
     sum_bind (json_value n s) (\<lambda>(v, r).
       (case skip_ws r of
          [] \<Rightarrow> Inl JSONDecodeError
        | c # cs \<Rightarrow>
            if c = 93 then Inr (JArr (acc @ [v]), cs)
            else if c = 44 then json_elems n (acc @ [v]) (skip_ws cs)
            else Inl JSONDecodeError))"
| "json_members 0 acc s = Inl JSONDecodeError"
| "json_members (Suc n) acc s =
     (if take 1 s \<noteq> [34] then Inl JSONDecodeError
      else sum_bind (json_string (tl s)) (\<lambda>(k, r1).
        if take 1 (skip_ws r1) \<noteq> [58] then Inl JSONDecodeError
        else sum_bind (json_value n (skip_ws (tl (skip_ws r1)))) (\<lambda>(v, r2).
          (case skip_ws r2 of
             [] \<Rightarrow> Inl JSONDecodeError
           | c # cs \<Rightarrow>
               if c = 125 then Inr (JObj (dict_set acc k v), cs)
               else if c = 44 then json_members n (dict_set acc k v) (skip_ws cs)
               else Inl JSONDecodeError))))"

definition json_loads :: "pystr \<Rightarrow> exn + json" where
  "json_loads s =
     (if take 1 s = [0xFEFF] then Inl JSONDecodeError
      else sum_bind (json_value (2 * length s + 2) (skip_ws s)) (\<lambda>(v, r).
        if skip_ws r = [] then Inr v else Inl JSONDecodeError))"

section \<open>json.dumps\<close>

text \<open>
  With \<open>ensure_ascii=True\<close>, everything outside printable ASCII is escaped. \<open>isep\<close> and
  \<open>ksep\<close> are the separators; \<open>float_repr\<close> stands for \<open>float.__repr__\<close>.
\<close>

definition u_escape :: "nat \<Rightarrow> pystr" where
  "u_escape n = [92, 117] @ map hex_char (hex_fixed 4 n)"

definition json_escape :: "nat \<Rightarrow> pystr" where
  "json_escape c =
     (if c = 34 then [92, 34]
      else if c = 92 then [92, 92]
      else if c = 10 then [92, 110]
      else if c = 13 then [92, 114]
      else if c = 9 then [92, 116]
      else if c = 12 then [92, 102]
      else if c = 8 then [92, 98]
      else if 32 \<le> c \<and> c \<le> 126 then [c]
      else if c < 0x10000 then u_escape c
      else u_escape (0xD800 + (c - 0x10000) div 1024) @ u_escape (0xDC00 + (c - 0x10000) mod 1024))"

definition json_quote :: "pystr \<Rightarrow> pystr" where
  "json_quote s = [34] @ concat (map json_escape s) @ [34]"

fun json_dumps :: "(pyfloat \<Rightarrow> pystr) \<Rightarrow> pystr \<Rightarrow> pystr \<Rightarrow> json \<Rightarrow> exn + pystr"
  and dumps_elems :: "(pyfloat \<Rightarrow> pystr) \<Rightarrow> pystr \<Rightarrow> pystr \<Rightarrow> json list \<Rightarrow> exn + pystr"
  and dumps_members :: "(pyfloat \<Rightarrow> pystr) \<Rightarrow> pystr \<Rightarrow> pystr \<Rightarrow> dict \<Rightarrow> exn + pystr" where
  "json_dumps fr isep ksep JNull = Inr (lit ''null'')"
| "json_dumps fr isep ksep (JBool b) = Inr (if b then lit ''true'' else lit ''false'')"
| "json_dumps fr isep ksep (JInt n) = py_str_int n"
| "json_dumps fr isep ksep (JFloat f) = Inr (fr f)"
| "json_dumps fr isep ksep (JStr s) = Inr (json_quote s)"
| "json_dumps fr isep ksep (JArr xs) =
     sum_bind (dumps_elems fr isep ksep xs) (\<lambda>t. Inr ([91] @ t @ [93]))"
| "json_dumps fr isep ksep (JObj ms) =
     sum_bind (dumps_members fr isep ksep ms) (\<lambda>t. Inr ([123] @ t @ [125]))"
| "dumps_elems fr isep ksep [] = Inr []"
| "dumps_elems fr isep ksep (x # xs) =
     sum_bind (json_dumps fr isep ksep x) (\<lambda>a.
       if xs = [] then Inr a
       else sum_bind (dumps_elems fr isep ksep xs) (\<lambda>t. Inr (a @ isep @ t)))"
| "dumps_members fr isep ksep [] = Inr []"
| "dumps_members fr isep ksep ((k, x) # ms) =
     sum_bind (json_dumps fr isep ksep x) (\<lambda>a.
       if ms = [] then Inr (json_quote k @ ksep @ a)
       else sum_bind (dumps_members fr isep ksep ms) (\<lambda>t. Inr (json_quote k @ ksep @ a @ isep @ t)))"

text \<open>The separators of a plain \<open>json.dumps(x)\<close>.\<close>

abbreviation dumps_default :: "(pyfloat \<Rightarrow> pystr) \<Rightarrow> json \<Rightarrow> exn + pystr" where
  "dumps_default fr \<equiv> json_dumps fr [44, 32] [58, 32]"

subsection \<open>What is printed is printable ASCII\<close>

lemma u_escape_printable: "c \<in> set (u_escape n) \<Longrightarrow> 32 \<le> c \<and> c \<le> 126"
  using hex_char_props(1) hex_fixed_less by (fastforce simp: u_escape_def)

lemma json_escape_printable: "c \<in> set (json_escape x) \<Longrightarrow> 32 \<le> c \<and> c \<le> 126"
  by (auto simp: json_escape_def split: if_splits dest: u_escape_printable)

lemma json_quote_printable: "c \<in> set (json_quote s) \<Longrightarrow> 32 \<le> c \<and> c \<le> 126"
  by (auto simp: json_quote_def dest: json_escape_printable)

definition printable :: "pystr \<Rightarrow> bool" where
  "printable s \<longleftrightarrow> list_all (\<lambda>c. 32 \<le> c \<and> c \<le> 126) s"

lemma printable_simps [simp]:
  "printable []" "printable (c # s) \<longleftrightarrow> 32 \<le> c \<and> c \<le> 126 \<and> printable s"
  "printable (s @ t) \<longleftrightarrow> printable s \<and> printable t"
  by (auto simp: printable_def)

lemma printable_scalar: "printable s \<Longrightarrow> list_all scalar s"
  by (induction s) (auto simp: scalar_def)

lemma printable_quote [simp]: "printable (json_quote s)"
  by (auto simp: printable_def list_all_iff dest: json_quote_printable)

lemma printable_str_int: "py_str_int n = Inr s \<Longrightarrow> printable s"
  by (fastforce simp: printable_def list_all_iff dest: py_str_int_ascii)

lemma dumps_printable:
  "(\<And>f. printable (fr f)) \<Longrightarrow> printable isep \<Longrightarrow> printable ksep \<Longrightarrow>
     json_dumps fr isep ksep v = Inr t \<Longrightarrow> printable t"
  "(\<And>f. printable (fr f)) \<Longrightarrow> printable isep \<Longrightarrow> printable ksep \<Longrightarrow>
     dumps_elems fr isep ksep xs = Inr t \<Longrightarrow> printable t"
  "(\<And>f. printable (fr f)) \<Longrightarrow> printable isep \<Longrightarrow> printable ksep \<Longrightarrow>
     dumps_members fr isep ksep ms = Inr t \<Longrightarrow> printable t"
  by (induction fr isep ksep v and fr isep ksep xs and fr isep ksep ms arbitrary: t and t and t
      rule: json_dumps_dumps_elems_dumps_members.induct)
    (auto simp: lit_def sum_bind_Inr_iff printable_str_int split: if_splits)

subsection \<open>What is printed is read back\<close>

text \<open>
  Values without floats, whose strings hold no surrogates (a lone surrogate pair would be joined
  on reading) and whose objects have distinct keys, as a dict has.
\<close>

fun plain :: "json \<Rightarrow> bool" where
  "plain (JFloat _) = False"
| "plain (JStr s) = list_all scalar s"
| "plain (JArr xs) = list_all plain xs"
| "plain (JObj ms) =
     (distinct (map fst ms) \<and> list_all (\<lambda>(k, v). list_all scalar k \<and> plain v) ms)"
| "plain _ = True"

definition item_seps :: "pystr set" where
  "item_seps = {[44], [44, 32]}"

definition key_seps :: "pystr set" where
  "key_seps = {[58], [58, 32]}"

text \<open>What may follow a value inside an array or object, or at the end of the text.\<close>

definition follows :: "pystr \<Rightarrow> bool" where
  "follows r \<longleftrightarrow> (case r of [] \<Rightarrow> True | c # _ \<Rightarrow> c = 44 \<or> c = 93 \<or> c = 125)"

lemma those_digit_val: "(\<forall>d \<in> set ds. d < 16) \<Longrightarrow> those (map (digit_val 16) (map hex_char ds)) = Some ds"
  by (induction ds) (auto simp: hex_char_props)

lemma hex4_hex_fixed: "n < 65536 \<Longrightarrow> hex4 (map hex_char (hex_fixed 4 n) @ r) = Some n"
  using those_digit_val [of "hex_fixed 4 n"] hex_fixed_less [of _ 4 n]
  by (simp add: hex4_def digits_value_hex del: map_map)

lemma json_string_u:
  assumes "n < 65536" and "\<not> (0xD800 \<le> n \<and> n \<le> 0xDBFF)"
  shows "json_string (u_escape n @ r) = cons_char n (json_string r)"
  using assms by (auto simp: u_escape_def hex4_hex_fixed)

lemma json_string_pair:
  assumes "0xD800 \<le> a" "a \<le> 0xDBFF" "0xDC00 \<le> b" "b \<le> 0xDFFF"
  shows "json_string (u_escape a @ u_escape b @ r) =
    cons_char (0x10000 + (a - 0xD800) * 1024 + (b - 0xDC00)) (json_string r)"
  using assms by (simp add: u_escape_def hex4_hex_fixed)

lemma json_string_escape:
  assumes "scalar c"
  shows "json_string (json_escape c @ r) = cons_char c (json_string r)"
proof (cases "c < 0x10000")
  case True
  then show ?thesis
    using assms json_string_u [of c r]
    by (auto simp: json_escape_def unescape_def scalar_def)
next
  case False
  define d where "d = c - 0x10000"
  have c: "c = 0x10000 + d" and d: "d < 1048576"
    using False assms by (auto simp: d_def scalar_def)
  have "json_escape c = u_escape (0xD800 + d div 1024) @ u_escape (0xDC00 + d mod 1024)"
    using False by (simp add: json_escape_def d_def)
  moreover have "d div 1024 < 1024" "d mod 1024 < 1024" using d by auto
  ultimately show ?thesis
    by (simp add: json_string_pair c add.commute)
qed

lemma json_string_quoted:
  "list_all scalar s \<Longrightarrow> json_string (concat (map json_escape s) @ 34 # r) = Inr (s, r)"
  by (induction s) (auto simp: json_string_escape cons_char_def)

lemma tl_json_quote:
  "json_quote s @ r = 34 # concat (map json_escape s) @ 34 # r"
  by (simp add: json_quote_def)

lemma hd_dec_digits: "0 < n \<Longrightarrow> hd (dec_digits n) \<noteq> 0"
proof (induction n rule: dec_digits.induct)
  case (1 n)
  then show ?case by (cases "n < 10") (auto simp: dec_digits.simps [of n])
qed

lemma span_digits:
  assumes "\<forall>c \<in> set ds. is_digit c" and "follows r"
  shows "takeWhile is_digit (ds @ r) = ds" and "dropWhile is_digit (ds @ r) = r"
  using assms by (cases r; auto simp: follows_def is_digit_def takeWhile_append dropWhile_append)+

lemma json_frac_none: "follows r \<Longrightarrow> json_frac r = ([], r)"
  by (auto simp: follows_def json_frac_def split: list.splits)

lemma json_exp_none: "follows r \<Longrightarrow> json_exp r = (None, r)"
  by (auto simp: follows_def json_exp_def split: list.splits)

lemma json_number_int:
  assumes "py_str_int n = Inr t" and "follows r"
  shows "json_number (t @ r) = Inr (JInt n, r)"
proof -
  define m where "m = nat \<bar>n\<bar>"
  define cs where "cs = map (\<lambda>d. 48 + d) (dec_digits m)"
  obtain d ds where ds: "dec_digits m = d # ds"
    using dec_digits_nonempty by (metis neq_Nil_conv)
  have len: "length cs \<le> int_max_str_digits" and t: "t = (if n < 0 then [45] else []) @ cs"
    using assms(1) unfolding py_str_int_def m_def [symmetric]
    by (auto simp: cs_def Let_def split: if_splits)
  have digits: "\<forall>c \<in> set cs. is_digit c"
    by (auto simp: cs_def is_digit_def dest: dec_digits_less)
  have cs: "cs = (48 + d) # map (\<lambda>d. 48 + d) ds" and d: "d < 10"
    using dec_digits_less [of d m] by (auto simp: cs_def ds)
  have zero: "ds = []" if "d = 0"
  proof -
    have "m = 0" using hd_dec_digits [of m] that ds by auto
    then show ?thesis using ds by (simp add: dec_digits.simps)
  qed
  have ip: "(if take 1 (cs @ r) = [48] then [48] else takeWhile is_digit (cs @ r)) = cs"
    using span_digits(1) [OF digits assms(2)] zero by (auto simp: cs)
  have neg: "take 1 (t @ r) = [45] \<longleftrightarrow> n < 0"
    and body: "(if n < 0 then tl (t @ r) else t @ r) = cs @ r"
    using d by (auto simp: t cs)
  have val: "dec_val cs = m" and ne: "cs \<noteq> []"
    by (simp_all add: dec_val_def cs_def o_def)
  show ?thesis
    using ne len
    unfolding json_number_def Let_def neg body ip
    by (simp add: json_frac_none [OF assms(2)] json_exp_none [OF assms(2)] val) (simp add: m_def)
qed

lemma json_value_int:
  assumes "py_str_int n = Inr t" and "follows r" and "0 < k"
  shows "json_value k (t @ r) = Inr (JInt n, r)"
proof -
  obtain k' where k: "k = Suc k'" using assms(3) by (cases k) auto
  define m where "m = nat \<bar>n\<bar>"
  obtain d ds where ds: "dec_digits m = d # ds"
    using dec_digits_nonempty by (metis neq_Nil_conv)
  have d: "d < 10" using dec_digits_less [of d m] ds by simp
  have t: "t = (if n < 0 then [45] else []) @ (48 + d) # map (\<lambda>d. 48 + d) ds"
    using assms(1) unfolding py_str_int_def m_def [symmetric] ds by (auto simp: Let_def split: if_splits)
  have "json_word (t @ r) = None"
    using d by (auto simp: json_word_def lit_def t)
  then show ?thesis
    using json_number_int [OF assms(1,2)] d by (auto simp: k t split: if_splits)
qed

lemma json_word_other:
  "c \<noteq> 110 \<Longrightarrow> c \<noteq> 116 \<Longrightarrow> c \<noteq> 102 \<Longrightarrow> c \<noteq> 78 \<Longrightarrow> c \<noteq> 73 \<Longrightarrow> c \<noteq> 45 \<Longrightarrow> json_word (c # s) = None"
  by (simp add: json_word_def lit_def)

text \<open>A printed value starts with no white space and is not empty.\<close>

lemma dumps_head:
  assumes "plain v" and "json_dumps fr isep ksep v = Inr t"
  shows "\<exists>c cs. t = c # cs \<and> \<not> json_ws c \<and> c \<noteq> 93 \<and> c \<noteq> 125"
proof (cases v)
  case (JInt n)
  then have "py_str_int n = Inr t" using assms by simp
  moreover from this have "t \<noteq> []" by (auto simp: py_str_int_def Let_def split: if_splits)
  ultimately show ?thesis
    by (cases t) (fastforce simp: json_ws_def dest: py_str_int_ascii)+
qed (use assms in \<open>auto simp: lit_def json_ws_def json_quote_def sum_bind_Inr_iff\<close>)

lemma skip_ws_nonws: "\<not> json_ws c \<Longrightarrow> skip_ws (c # cs) = c # cs"
  by (simp add: skip_ws_def)

lemma skip_ws_follows: "follows r \<Longrightarrow> skip_ws r = r"
  by (auto simp: follows_def skip_ws_def json_ws_def split: list.splits)

lemma skip_item_sep: "isep \<in> item_seps \<Longrightarrow> \<not> json_ws c \<Longrightarrow>
    isep = 44 # tl isep \<and> skip_ws (tl isep @ c # cs) = c # cs \<and> 1 \<le> length isep"
  by (auto simp: item_seps_def skip_ws_def json_ws_def)

lemma skip_key_sep: "ksep \<in> key_seps \<Longrightarrow> \<not> json_ws c \<Longrightarrow>
    ksep = 58 # tl ksep \<and> skip_ws (tl ksep @ c # cs) = c # cs \<and> 1 \<le> length ksep"
  by (auto simp: key_seps_def skip_ws_def json_ws_def)

lemma dict_set_new: "k \<notin> fst ` set d \<Longrightarrow> dict_set d k v = d @ [(k, v)]"
  by (induction d) (auto simp: dict_set_def)

lemma dumps_elems_head:
  assumes "xs \<noteq> []" and "list_all plain xs" and "dumps_elems fr isep ksep xs = Inr t"
  shows "\<exists>c cs. t = c # cs \<and> \<not> json_ws c \<and> c \<noteq> 93 \<and> c \<noteq> 125"
proof -
  obtain x ys where "xs = x # ys" using assms(1) by (cases xs) auto
  with assms show ?thesis
    by (auto simp: sum_bind_Inr_iff split: if_splits dest!: dumps_head)
qed

lemma dumps_members_head:
  assumes "ms \<noteq> []" and "dumps_members fr isep ksep ms = Inr t"
  shows "\<exists>cs. t = 34 # cs"
proof -
  obtain k x ys where "ms = (k, x) # ys" using assms(1) by (cases ms) auto
  with assms show ?thesis
    by (auto simp: sum_bind_Inr_iff json_quote_def split: if_splits)
qed

lemma json_roundtrip:
  assumes sep: "isep \<in> item_seps" "ksep \<in> key_seps"
  shows "plain v \<Longrightarrow> json_dumps fr isep ksep v = Inr t \<Longrightarrow> follows r \<Longrightarrow> 2 * length t < n \<Longrightarrow>
      json_value n (t @ r) = Inr (v, r)"
    and "xs \<noteq> [] \<Longrightarrow> list_all plain xs \<Longrightarrow> dumps_elems fr isep ksep xs = Inr t \<Longrightarrow>
      2 * length t + 1 < n \<Longrightarrow> json_elems n acc (t @ 93 # r) = Inr (JArr (acc @ xs), r)"
    and "ms \<noteq> [] \<Longrightarrow> list_all (\<lambda>(k, v). list_all scalar k \<and> plain v) ms \<Longrightarrow>
      distinct (map fst (d @ ms)) \<Longrightarrow> dumps_members fr isep ksep ms = Inr t \<Longrightarrow>
      2 * length t + 1 < n \<Longrightarrow> json_members n d (t @ 125 # r) = Inr (JObj (d @ ms), r)"
  using sep
proof (induction fr isep ksep v and fr isep ksep xs and fr isep ksep ms
    arbitrary: n t r and n t r acc and n t r d
    rule: json_dumps_dumps_elems_dumps_members.induct)
  case (1 fr isep ksep)
  then show ?case by (cases n) (auto simp: json_word_def lit_def)
next
  case (2 fr isep ksep b)
  then show ?case by (cases n) (auto simp: json_word_def lit_def split: if_splits)
next
  case (3 fr isep ksep m)
  then show ?case by (auto intro: json_value_int)
next
  case (5 fr isep ksep s)
  then show ?case
    by (cases n) (auto simp: tl_json_quote json_string_quoted)
next
  case (6 fr isep ksep xs)
  then obtain u where u: "dumps_elems fr isep ksep xs = Inr u" and t: "t = [91] @ u @ [93]"
    by (auto simp: sum_bind_Inr_iff)
  obtain m where n: "n = Suc m" and m: "2 * length u + 1 < m"
    using 6(5) t by (cases n) auto
  show ?case
  proof (cases "xs = []")
    case True
    then show ?thesis using u by (simp add: n t skip_ws_def json_ws_def)
  next
    case False
    have all: "list_all plain xs" using 6(2) by simp
    obtain c cs where "u = c # cs" "\<not> json_ws c" "c \<noteq> 93"
      using dumps_elems_head [OF False all u] by blast
    with "6.IH" [OF False all u m] 6(6,7) show ?thesis
      by (simp add: n t skip_ws_nonws)
  qed
next
  case (7 fr isep ksep ms)
  then obtain u where u: "dumps_members fr isep ksep ms = Inr u" and t: "t = [123] @ u @ [125]"
    by (auto simp: sum_bind_Inr_iff)
  obtain m where n: "n = Suc m" and m: "2 * length u + 1 < m"
    using 7(5) t by (cases n) auto
  show ?case
  proof (cases "ms = []")
    case True
    then show ?thesis using u by (simp add: n t skip_ws_def json_ws_def)
  next
    case False
    obtain cs where "u = 34 # cs" using dumps_members_head [OF False u] by blast
    with "7.IH" [OF False _ _ u m, of "[]"] 7(2,6,7) show ?thesis
      by (simp add: n t skip_ws_def json_ws_def)
  qed
next
  case (9 fr isep ksep x xs)
  obtain m where n: "n = Suc m" using 9(6) by (cases n) auto
  obtain a where a: "json_dumps fr isep ksep x = Inr a"
    using 9(5) by (auto simp: sum_bind_Inr_iff)
  have plain: "plain x" "list_all plain xs" using 9(4) by auto
  show ?case
  proof (cases "xs = []")
    case True
    with 9(5) a have t: "t = a" by simp
    have "json_value m (a @ 93 # r) = Inr (x, 93 # r)"
      using 9(6,7,8) t n by (intro "9.IH"(1) plain a) (auto simp: follows_def)
    with True show ?thesis by (simp add: n t skip_ws_def json_ws_def)
  next
    case False
    with 9(5) a obtain u where u: "dumps_elems fr isep ksep xs = Inr u" and t: "t = a @ isep @ u"
      by (auto simp: sum_bind_Inr_iff)
    obtain c cs where c: "u = c # cs" "\<not> json_ws c"
      using dumps_elems_head [OF False plain(2) u] by blast
    note isep = skip_item_sep [OF 9(7) c(2)]
    have "json_value m (a @ isep @ u @ 93 # r) = Inr (x, isep @ u @ 93 # r)"
      using 9(6,7,8) t n isep by (intro "9.IH"(1) plain a) (auto simp: follows_def item_seps_def)
    moreover have "json_elems m (acc @ [x]) (u @ 93 # r) = Inr (JArr ((acc @ [x]) @ xs), r)"
      using 9(6) t n isep [of "[]"] by (intro "9.IH"(2) [OF False False plain(2) u] 9(7,8)) auto
    ultimately show ?thesis
      using isep [of "cs @ 93 # r"] 9(7) c by (auto simp: n t item_seps_def skip_ws_def json_ws_def)
  qed
next
  case (11 fr isep ksep k x ms)
  obtain m where n: "n = Suc m" using 11(7) by (cases n) auto
  obtain a where a: "json_dumps fr isep ksep x = Inr a"
    using 11(6) by (auto simp: sum_bind_Inr_iff)
  have plain: "plain x" "list_all scalar k" "list_all (\<lambda>(k, v). list_all scalar k \<and> plain v) ms"
    using 11(4) by auto
  have new: "k \<notin> fst ` set d" "distinct (map fst ((d @ [(k, x)]) @ ms))"
    using 11(5) by auto
  obtain c cs where c: "a = c # cs" "\<not> json_ws c" using dumps_head [OF plain(1) a] by blast
  note ksep = skip_key_sep [OF 11(9) c(2)]
  show ?case
  proof (cases "ms = []")
    case True
    with 11(6) a have t: "t = json_quote k @ ksep @ a" by simp
    have "json_value m (a @ 125 # r) = Inr (x, 125 # r)"
      using 11(7,8,9) t n by (intro "11.IH"(1) plain a) (auto simp: follows_def)
    with True show ?thesis
      using ksep [of "cs @ 125 # r"] 11(9) c
      by (auto simp: n t tl_json_quote json_string_quoted plain dict_set_new new key_seps_def
          skip_ws_def json_ws_def)
  next
    case False
    with 11(6) a obtain u where u: "dumps_members fr isep ksep ms = Inr u"
      and t: "t = json_quote k @ ksep @ a @ isep @ u"
      by (auto simp: sum_bind_Inr_iff)
    obtain cu where cu: "u = 34 # cu" using dumps_members_head [OF False u] by blast
    have "json_value m (a @ isep @ u @ 125 # r) = Inr (x, isep @ u @ 125 # r)"
      using 11(7,8,9) t n by (intro "11.IH"(1) plain a) (auto simp: follows_def item_seps_def)
    moreover have "json_members m (d @ [(k, x)]) (u @ 125 # r) = Inr (JObj ((d @ [(k, x)]) @ ms), r)"
      using 11(7) t n ksep [of "[]"] by (intro "11.IH"(2) [OF False False plain(3) new(2) u] 11(8,9)) auto
    ultimately show ?thesis
      using 11(8,9) c cu
      by (auto simp: n t tl_json_quote json_string_quoted plain dict_set_new new key_seps_def
          item_seps_def skip_ws_def json_ws_def)
  qed
qed auto

lemma json_loads_dumps:
  assumes "isep \<in> item_seps" "ksep \<in> key_seps" "plain v" "json_dumps fr isep ksep v = Inr t"
  shows "json_loads t = Inr v"
proof -
  obtain c cs where t: "t = c # cs" "\<not> json_ws c" using dumps_head [OF assms(3,4)] by blast
  have "c \<noteq> 0xFEFF"
  proof (cases v)
    case (JInt n)
    then have "py_str_int n = Inr t" using assms(4) by simp
    then have "c = 45 \<or> 48 \<le> c \<and> c \<le> 57" using py_str_int_ascii [of n t c] t by simp
    then show ?thesis by auto
  qed (use assms(3,4) t in \<open>auto simp: lit_def json_quote_def sum_bind_Inr_iff split: if_splits\<close>)
  moreover have "json_value (2 * length t + 2) (t @ []) = Inr (v, [])"
    by (rule json_roundtrip(1) [OF assms]) (simp_all add: follows_def)
  ultimately show ?thesis
    using t(2) by (simp add: json_loads_def t(1) skip_ws_nonws) (simp add: skip_ws_def)
qed

section \<open>The fuel of the reader\<close>

lemma length_skip_ws: "length (skip_ws s) \<le> length s"
  by (simp add: skip_ws_def length_dropWhile_le)

lemma cons_char_InrD: "cons_char c r = Inr (s, rest) \<Longrightarrow> \<exists>s'. r = Inr (s', rest)"
  by (auto simp: cons_char_def sum_bind_Inr_iff)

lemma json_string_shorter: "json_string s = Inr (x, r) \<Longrightarrow> length r < length s"
proof (induction s arbitrary: x r rule: json_string.induct)
  case (2 c cs)
  then show ?case
    by (fastforce split: if_splits list.splits option.splits dest!: cons_char_InrD)
qed simp

lemma json_word_shorter: "json_word s = Some (v, r) \<Longrightarrow> length r < length s"
  by (cases s) (auto simp: json_word_def lit_def split: if_splits)

lemma json_frac_le: "json_frac s = (f, r) \<Longrightarrow> length r \<le> length s"
  by (auto simp: json_frac_def length_dropWhile_le le_SucI split: list.splits if_splits)

lemma split_sign_le: "split_sign s = (neg, r) \<Longrightarrow> length r \<le> length s"
  by (auto simp: split_sign_def split: list.splits if_splits)

lemma json_exp_le: "json_exp s = (f, r) \<Longrightarrow> length r \<le> length s"
proof (cases s)
  case (Cons c cs)
  assume s: "json_exp s = (f, r)"
  obtain neg r' where sign: "split_sign cs = (neg, r')" by fastforce
  have "length (dropWhile is_digit r') \<le> length s"
    using split_sign_le [OF sign] length_dropWhile_le [of is_digit r'] by (simp add: Cons)
  with s show ?thesis
    by (auto simp: json_exp_def Cons sign Let_def split: if_splits)
qed (simp add: json_exp_def)

lemma json_number_shorter: "json_number s = Inr (v, r) \<Longrightarrow> length r < length s"
proof -
  assume s: "json_number s = Inr (v, r)"
  define t where "t = (if take 1 s = [45] then tl s else s)"
  define ip where "ip = (if take 1 t = [48] then [48] else takeWhile is_digit t)"
  obtain f r2 where f: "json_frac (drop (length ip) t) = (f, r2)" by fastforce
  obtain e r3 where e: "json_exp r2 = (e, r3)" by fastforce
  have "ip \<noteq> []" and r: "r = r3"
    using s unfolding json_number_def Let_def t_def [symmetric] ip_def [symmetric] f split_conv e
    by (auto split: if_splits)
  then have "t \<noteq> []" and "0 < length ip" by (auto simp: ip_def)
  then have "length (drop (length ip) t) < length t" by simp
  moreover have "length t \<le> length s" by (simp add: t_def)
  ultimately show ?thesis using json_frac_le [OF f] json_exp_le [OF e] r by simp
qed

lemma skip_ws_Cons_le: "skip_ws s = c # cs \<Longrightarrow> length cs < length s"
  using length_skip_ws [of s] by simp

lemma length_tl_less: "s \<noteq> [] \<Longrightarrow> length (tl s) < length s"
  by simp

lemma json_elems_SucE:
  assumes "json_elems (Suc n) acc s = Inr (v, r)"
  obtains w q c cs where "json_value n s = Inr (w, q)" "skip_ws q = c # cs"
    "c = 93 \<and> r = cs \<or> c = 44 \<and> c \<noteq> 93 \<and> json_elems n (acc @ [w]) (skip_ws cs) = Inr (v, r)"
proof -
  obtain w q where v: "json_value n s = Inr (w, q)"
    using assms by (auto simp: sum_bind_Inr_iff)
  obtain c cs where "skip_ws q = c # cs"
    using assms v by (cases "skip_ws q") auto
  with assms v that show ?thesis by (auto split: if_splits)
qed

lemma json_members_SucE:
  assumes "json_members (Suc n) d s = Inr (v, r)"
  obtains k r1 w r2 c cs where "take 1 s = [34]" "json_string (tl s) = Inr (k, r1)"
    "take 1 (skip_ws r1) = [58]" "json_value n (skip_ws (tl (skip_ws r1))) = Inr (w, r2)"
    "skip_ws r2 = c # cs"
    "c = 125 \<and> r = cs \<or>
     c = 44 \<and> c \<noteq> 125 \<and> json_members n (dict_set d k w) (skip_ws cs) = Inr (v, r)"
proof -
  have s: "take 1 s = [34]" using assms by (auto split: if_splits)
  obtain k r1 where k: "json_string (tl s) = Inr (k, r1)"
    using assms s by (auto simp: sum_bind_Inr_iff)
  have r1: "take 1 (skip_ws r1) = [58]" using assms s k by (auto split: if_splits)
  obtain w r2 where v: "json_value n (skip_ws (tl (skip_ws r1))) = Inr (w, r2)"
    using assms s k r1 by (auto simp: sum_bind_Inr_iff)
  obtain c cs where "skip_ws r2 = c # cs"
    using assms s k r1 v by (cases "skip_ws r2") auto
  with assms s k r1 v that show ?thesis by (auto split: if_splits)
qed

lemma json_shorter:
  "json_value n s = Inr (v, r) \<Longrightarrow> length r < length s"
  "json_elems n acc s = Inr (v, r) \<Longrightarrow> length r < length s"
  "json_members n d s = Inr (v, r) \<Longrightarrow> length r < length s"
proof (induction n s and n acc s and n d s arbitrary: v r and v r and v r
    rule: json_value_json_elems_json_members.induct)
  case (2 n s)
  show ?case
  proof (cases s)
    case (Cons c cs)
    have tl: "length (tl (skip_ws cs)) < length s" and ws: "length (skip_ws cs) < length s"
      using length_skip_ws [of cs] by (simp_all add: Cons)
    note IH = "2.IH"(1) [OF Cons, of v r] "2.IH"(2) [OF Cons, of v r]
    show ?thesis
      using "2.prems" IH tl ws
      by (fastforce simp: Cons sum_bind_Inr_iff split: if_splits option.splits
          dest: json_string_shorter json_word_shorter json_number_shorter)
  qed (use 2 in simp)
next
  case (4 n acc s)
  from "4.prems" obtain w q c cs where v: "json_value n s = Inr (w, q)" and q: "skip_ws q = c # cs"
    and rest: "c = 93 \<and> r = cs \<or>
      c = 44 \<and> c \<noteq> 93 \<and> json_elems n (acc @ [w]) (skip_ws cs) = Inr (v, r)"
    by (rule json_elems_SucE)
  have "length q < length s" using "4.IH"(1) [OF v] .
  moreover have "length r < length (skip_ws cs)" if "c \<noteq> 93" "c = 44" "json_elems n (acc @ [w]) (skip_ws cs) = Inr (v, r)"
    using "4.IH"(2) [OF q that] .
  ultimately show ?case
    using rest skip_ws_Cons_le [OF q] length_skip_ws [of cs] by auto
next
  case (6 n d s)
  from "6.prems" obtain k r1 w r2 c cs where guards: "take 1 s = [34]" "take 1 (skip_ws r1) = [58]"
    and k: "json_string (tl s) = Inr (k, r1)"
    and v: "json_value n (skip_ws (tl (skip_ws r1))) = Inr (w, r2)" and r2: "skip_ws r2 = c # cs"
    and rest: "c = 125 \<and> r = cs \<or>
      c = 44 \<and> c \<noteq> 125 \<and> json_members n (dict_set d k w) (skip_ws cs) = Inr (v, r)"
    by (rule json_members_SucE)
  have "length r2 < length (skip_ws (tl (skip_ws r1)))"
    using "6.IH"(1) [OF _ _ v] guards by simp
  moreover have "length (skip_ws (tl (skip_ws r1))) \<le> length r1"
    using length_skip_ws [of "tl (skip_ws r1)"] length_skip_ws [of r1] by simp
  moreover have "length r1 < length s"
    using json_string_shorter [OF k] by simp
  moreover have "length r < length (skip_ws cs)" if "c \<noteq> 125" "c = 44" "json_members n (dict_set d k w) (skip_ws cs) = Inr (v, r)"
    using "6.IH"(2) [OF _ _ r2 that] guards by simp
  ultimately show ?case
    using rest skip_ws_Cons_le [OF r2] length_skip_ws [of cs] by auto
qed simp_all

text \<open>Any two amounts of fuel above twice the length of the text give the same result.\<close>

lemma json_fuel:
  "2 * length s < n \<Longrightarrow> 2 * length s < m \<Longrightarrow> json_value m s = json_value n s"
  "2 * length s + 1 < n \<Longrightarrow> 2 * length s + 1 < m \<Longrightarrow> json_elems m acc s = json_elems n acc s"
  "2 * length s + 1 < n \<Longrightarrow> 2 * length s + 1 < m \<Longrightarrow> json_members m d s = json_members n d s"
proof (induction n s and n acc s and n d s arbitrary: m and m and m
    rule: json_value_json_elems_json_members.induct)
  case (2 n s)
  obtain m' where m: "m = Suc m'" using "2.prems"(2) by (cases m) auto
  show ?case
  proof (cases s)
    case (Cons c cs)
    have "2 * length (skip_ws cs) + 1 < n" "2 * length (skip_ws cs) + 1 < m'"
      using "2.prems" length_skip_ws [of cs] by (auto simp: m Cons)
    note lt = this
    have "json_elems m' [] (skip_ws cs) = json_elems n [] (skip_ws cs)"
      if "c \<noteq> 34" "c = 91" "take 1 (skip_ws cs) \<noteq> [93]"
      by (rule "2.IH"(1) [OF Cons that lt])
    moreover have "json_members m' [] (skip_ws cs) = json_members n [] (skip_ws cs)"
      if "c \<noteq> 34" "c \<noteq> 91" "c = 123" "take 1 (skip_ws cs) \<noteq> [125]"
      by (rule "2.IH"(2) [OF Cons that lt])
    ultimately show ?thesis by (simp add: m Cons)
  qed (simp add: m)
next
  case (4 n acc s)
  obtain m' where m: "m = Suc m'" using "4.prems"(2) by (cases m) auto
  have v: "json_value m' s = json_value n s"
    using "4.prems" by (intro "4.IH"(1)) (auto simp: m)
  show ?case
  proof (cases "json_value n s")
    case (Inr p)
    obtain w q where p: "p = (w, q)" by fastforce
    have q: "length q < length s" using json_shorter(1) Inr p by blast
    show ?thesis
    proof (cases "skip_ws q")
      case (Cons c cs)
      have "length (skip_ws cs) < length s"
        using q skip_ws_Cons_le [OF Cons] length_skip_ws [of cs] by simp
      then have "json_elems m' (acc @ [w]) (skip_ws cs) = json_elems n (acc @ [w]) (skip_ws cs)"
        if "c \<noteq> 93" "c = 44"
        using "4.prems" by (intro "4.IH"(2) [OF Cons that]) (auto simp: m)
      then show ?thesis by (auto simp: m v Inr p Cons)
    qed (simp add: m v Inr p)
  qed (simp add: m v)
next
  case (6 n d s)
  obtain m' where m: "m = Suc m'" using "6.prems"(2) by (cases m) auto
  show ?case
  proof (cases "take 1 s = [34]")
    case s: True
    show ?thesis
    proof (cases "json_string (tl s)")
      case k: (Inr p)
      obtain key r1 where p: "p = (key, r1)" by fastforce
      have r1: "length r1 + 1 < length s"
        using json_string_shorter [of "tl s" key r1] k p s by (cases s) auto
      let ?u = "skip_ws (tl (skip_ws r1))"
      have u: "length ?u \<le> length r1"
        using length_skip_ws [of "tl (skip_ws r1)"] length_skip_ws [of r1] by simp
      show ?thesis
      proof (cases "take 1 (skip_ws r1) = [58]")
        case colon: True
        have v: "json_value m' ?u = json_value n ?u"
          using "6.prems" r1 u s k p colon by (intro "6.IH"(1)) (auto simp: m)
        show ?thesis
        proof (cases "json_value n ?u")
          case val: (Inr pv)
          obtain w r2 where pv: "pv = (w, r2)" by fastforce
          have r2: "length r2 < length ?u" using json_shorter(1) val pv by blast
          show ?thesis
          proof (cases "skip_ws r2")
            case (Cons c cs)
            have "length (skip_ws cs) < length s"
              using r1 r2 u skip_ws_Cons_le [OF Cons] length_skip_ws [of cs] by simp
            then have "json_members m' (dict_set d key w) (skip_ws cs) =
                json_members n (dict_set d key w) (skip_ws cs)" if "c \<noteq> 125" "c = 44"
              using "6.prems" s colon by (intro "6.IH"(2) [OF _ _ Cons that]) (auto simp: m)
            then show ?thesis using s colon by (auto simp: m v k p val pv Cons)
          qed (use s colon in \<open>simp add: m v k p val pv\<close>)
        qed (use s colon in \<open>simp add: m v k p\<close>)
      qed (use s in \<open>simp add: m k p\<close>)
    qed (use s in \<open>simp add: m\<close>)
  qed (simp add: m)
qed simp_all

lemma json_value_fuel:
  "2 * length s < n \<Longrightarrow> json_value n (skip_ws s) = json_value (2 * length s + 2) (skip_ws s)"
  using length_skip_ws [of s] by (intro json_fuel(1)) auto

end
