(* ===== verification/Models.thy ===== *)
theory Models
  imports PyJson
begin

text \<open>
  app/models.py: one row of the table \<open>events\<close>, its lifecycle states and the constraints the
  table is declared with. A table is the list of its rows in the order they were inserted.
\<close>

datatype processing_status = PENDING | PROCESSED | FAILED

definition status_text :: "processing_status \<Rightarrow> pystr" where
  "status_text s =
     (case s of PENDING \<Rightarrow> lit ''pending'' | PROCESSED \<Rightarrow> lit ''processed'' | FAILED \<Rightarrow> lit ''failed'')"

lemma status_text_inj [simp]: "status_text s = status_text t \<longleftrightarrow> s = t"
  by (cases s; cases t) (simp_all add: status_text_def)

text \<open>The states in the order of their texts, which is how a query sorts them.\<close>

fun status_rank :: "processing_status \<Rightarrow> nat" where
  "status_rank FAILED = 0"
| "status_rank PENDING = 1"
| "status_rank PROCESSED = 2"

lemma status_rank_inj [simp]: "status_rank s = status_rank t \<longleftrightarrow> s = t"
  by (cases s; cases t) simp_all

instantiation processing_status :: linorder
begin

definition less_eq_processing_status :: "processing_status \<Rightarrow> processing_status \<Rightarrow> bool" where
  "less_eq_processing_status s t \<longleftrightarrow> status_rank s \<le> status_rank t"

definition less_processing_status :: "processing_status \<Rightarrow> processing_status \<Rightarrow> bool" where
  "less_processing_status s t \<longleftrightarrow> status_rank s < status_rank t"

instance
  by standard (auto simp: less_eq_processing_status_def less_processing_status_def)

end

text \<open>Times are microseconds since the epoch. The column \<open>id\<close> is \<open>ev_id\<close> here.\<close>

record event =
  ev_id :: uuid
  delivery_id :: "pystr option"
  request_id :: "pystr option"
  source :: pystr
  event_type :: pystr
  payload :: dict
  received_at :: int
  processing_status :: processing_status
  processing_attempts :: int
  processed_at :: "int option"
  error_message :: "pystr option"

section \<open>Declared constraints\<close>

text \<open>
  The primary key and \<open>unique=True\<close> on \<open>delivery_id\<close>, where SQL's null is distinct from
  every value. (\<open>nullable=False\<close> is the absence of \<open>option\<close> in the record.)
\<close>

definition delivery_ids :: "event list \<Rightarrow> pystr list" where
  "delivery_ids t = List.map_filter delivery_id t"

definition constraints :: "event list \<Rightarrow> bool" where
  "constraints t \<longleftrightarrow> distinct (map ev_id t) \<and> distinct (delivery_ids t)"

lemma delivery_ids_simps [simp]:
  "delivery_ids [] = []"
  "delivery_ids (r # t) = (case delivery_id r of None \<Rightarrow> delivery_ids t | Some d \<Rightarrow> d # delivery_ids t)"
  "delivery_ids (t @ u) = delivery_ids t @ delivery_ids u"
  by (auto simp: delivery_ids_def map_filter_def split: option.splits)

lemma delivery_ids_mem: "d \<in> set (delivery_ids t) \<longleftrightarrow> (\<exists>r \<in> set t. delivery_id r = Some d)"
  by (induction t) (auto split: option.splits)

lemma delivery_ids_alt: "delivery_ids t = List.map_filter (\<lambda>x. x) (map delivery_id t)"
  by (induction t) (simp_all add: delivery_ids_def map_filter_def)

lemma delivery_ids_cong: "map delivery_id t = map delivery_id u \<Longrightarrow> delivery_ids t = delivery_ids u"
  by (simp add: delivery_ids_alt)

section \<open>Well-formed rows\<close>

text \<open>
  What every writer of the program keeps of a row: a processed row has its time and no error, a
  failed row has an error and no time, a pending row has no time; attempts are counted from 0.
\<close>

definition row_wf :: "event \<Rightarrow> bool" where
  "row_wf r \<longleftrightarrow>
     0 \<le> processing_attempts r \<and>
     (case processing_status r of
        PENDING \<Rightarrow> processed_at r = None
      | PROCESSED \<Rightarrow> processed_at r \<noteq> None \<and> error_message r = None
      | FAILED \<Rightarrow> processed_at r = None \<and> error_message r \<noteq> None)"

end
