(* ===== verification/Metrics.thy ===== *)
theory Metrics
  imports PyText
begin

text \<open>
  app/metrics.py: the collectors, each the values it holds for its label tuples, and the
  functions that record into them. A histogram is the list of what it observed; its buckets and
  the text exposition are prometheus_client's. Durations are differences of the performance
  counter, in its ticks.
\<close>

record metrics =
  http_requests_total :: "pystr \<times> pystr \<times> pystr \<Rightarrow> nat"
  http_request_duration_seconds :: "pystr \<times> pystr \<Rightarrow> int list"
  webhook_intake_total :: "pystr \<times> pystr \<Rightarrow> nat"
  webhook_signature_failures_total :: nat
  webhook_duplicate_total :: nat
  webhook_processing_total :: "pystr \<times> pystr \<Rightarrow> nat"
  webhook_processing_duration_seconds :: "pystr \<times> pystr \<Rightarrow> int list"
  webhook_retry_total :: nat
  webhook_redrive_total :: nat
  webhook_queue_depth :: "pystr \<rightharpoonup> int"
  dependency_up :: "pystr \<rightharpoonup> int"

definition init_metrics :: metrics where
  "init_metrics =
     \<lparr>http_requests_total = (\<lambda>_. 0), http_request_duration_seconds = (\<lambda>_. []),
      webhook_intake_total = (\<lambda>_. 0), webhook_signature_failures_total = 0,
      webhook_duplicate_total = 0, webhook_processing_total = (\<lambda>_. 0),
      webhook_processing_duration_seconds = (\<lambda>_. []), webhook_retry_total = 0,
      webhook_redrive_total = 0, webhook_queue_depth = Map.empty, dependency_up = Map.empty\<rparr>"

text \<open>\<open>c.labels(...).inc()\<close> and \<open>h.labels(...).observe(v)\<close>.\<close>

definition inc :: "'k \<Rightarrow> ('k \<Rightarrow> nat) \<Rightarrow> 'k \<Rightarrow> nat" where
  "inc k c = c(k := Suc (c k))"

definition observe :: "'k \<Rightarrow> int \<Rightarrow> ('k \<Rightarrow> int list) \<Rightarrow> 'k \<Rightarrow> int list" where
  "observe k v h = h(k := h k @ [v])"

text \<open>\<open>str(status_code)\<close>, which cannot reach the digit limit.\<close>

definition status_code_text :: "nat \<Rightarrow> pystr" where
  "status_code_text n = (case py_str_int (int n) of Inr s \<Rightarrow> s | Inl _ \<Rightarrow> [])"

definition or_else :: "pystr \<Rightarrow> pystr \<Rightarrow> pystr" where
  "or_else s d = (if s = [] then d else s)"

definition record_http_request :: "pystr \<Rightarrow> pystr \<Rightarrow> nat \<Rightarrow> int \<Rightarrow> metrics \<Rightarrow> metrics" where
  "record_http_request meth path status_code duration m =
     (let normalized_path = or_else path (lit ''/'')
      in m\<lparr>http_requests_total :=
             inc (meth, normalized_path, status_code_text status_code) (http_requests_total m),
           http_request_duration_seconds :=
             observe (meth, normalized_path) duration (http_request_duration_seconds m)\<rparr>)"

definition record_webhook_intake :: "pystr \<Rightarrow> pystr \<Rightarrow> metrics \<Rightarrow> metrics" where
  "record_webhook_intake src status m =
     m\<lparr>webhook_intake_total := inc (or_else src (lit ''unknown''), status) (webhook_intake_total m)\<rparr>"

definition record_signature_failure :: "metrics \<Rightarrow> metrics" where
  "record_signature_failure m =
     m\<lparr>webhook_signature_failures_total := webhook_signature_failures_total m + 1\<rparr>"

definition record_duplicate :: "metrics \<Rightarrow> metrics" where
  "record_duplicate m = m\<lparr>webhook_duplicate_total := webhook_duplicate_total m + 1\<rparr>"

definition record_processing :: "pystr \<Rightarrow> pystr \<Rightarrow> int \<Rightarrow> metrics \<Rightarrow> metrics" where
  "record_processing src status duration m =
     (let normalized_source = or_else src (lit ''unknown'')
      in m\<lparr>webhook_processing_total :=
             inc (normalized_source, status) (webhook_processing_total m),
           webhook_processing_duration_seconds :=
             observe (normalized_source, status) duration (webhook_processing_duration_seconds m)\<rparr>)"

definition record_retry :: "metrics \<Rightarrow> metrics" where
  "record_retry m = m\<lparr>webhook_retry_total := webhook_retry_total m + 1\<rparr>"

definition record_redrive :: "nat \<Rightarrow> metrics \<Rightarrow> metrics" where
  "record_redrive count m =
     (if 0 < count then m\<lparr>webhook_redrive_total := webhook_redrive_total m + count\<rparr> else m)"

definition set_queue_depths :: "nat option \<Rightarrow> nat option \<Rightarrow> nat option \<Rightarrow> metrics \<Rightarrow> metrics" where
  "set_queue_depths main_depth retry_depth dead_letter_depth m =
     (let value = (\<lambda>d. case d of None \<Rightarrow> 0 | Some n \<Rightarrow> int n)
      in m\<lparr>webhook_queue_depth := (webhook_queue_depth m)
             (lit ''main'' \<mapsto> value main_depth,
              lit ''retry'' \<mapsto> value retry_depth,
              lit ''dead_letter'' \<mapsto> value dead_letter_depth)\<rparr>)"

definition set_dependency_state :: "pystr \<Rightarrow> bool \<Rightarrow> metrics \<Rightarrow> metrics" where
  "set_dependency_state name up m =
     m\<lparr>dependency_up := (dependency_up m)(name \<mapsto> (if up then 1 else 0))\<rparr>"

end
