(* ===== verification/World.thy ===== *)
theory World
  imports Config Models Metrics
begin

text \<open>
  What the program acts on, and the libraries and services it acts through.

  The code outside the repository (the database engine behind SQLAlchemy, RabbitMQ behind
  aio_pika, Redis, the clocks, uuid4) is the argument \<open>services\<close> of every definition that uses
  it: one function per call the program makes, over a state \<open>'x\<close> of the outside of which
  nothing is assumed. Any call may raise, at any time, with any exception. The few theorems that
  need more of a service name what they need as a hypothesis.

  The program's own state is the record \<open>world\<close>. Its \<open>trace\<close> lists, oldest first, what the
  program did to the services: each command with its success, each message taken.
\<close>

section \<open>Calls to RabbitMQ and Redis\<close>

record queue_args =
  x_message_ttl :: int
  x_dead_letter_exchange :: pystr
  x_dead_letter_routing_key :: pystr

text \<open>
  The commands that return nothing the program looks at. Queues and the (direct) exchange are
  declared durable, bodies are published persistent, so neither is a field.
\<close>

datatype cmd =
    Connect pystr
  | OpenChannel
  | SetQos nat
  | DeclareExchange pystr
  | DeclareQueue pystr "queue_args option"
  | BindQueue pystr pystr pystr
  | GetExchange pystr
  | Publish pystr pystr bytes
  | Ack nat
  | CloseChannel
  | CloseConnection
  | RedisFromUrl pystr
  | RedisPush pystr pystr
  | RedisClose

datatype effect =
    Done cmd
  | Failed cmd
  | Took pystr nat bytes
  | Popped pystr pystr

section \<open>Services\<close>

record 'x services =
  time_now :: "'x \<Rightarrow> int \<times> 'x"
  perf_counter :: "'x \<Rightarrow> int \<times> 'x"
  utc_now :: "'x \<Rightarrow> int \<times> 'x"
  uuid4 :: "'x \<Rightarrow> uuid \<times> 'x"
  str_upper :: "pystr \<Rightarrow> pystr"
  str_exn :: "exn \<Rightarrow> pystr"
  db_open :: "'x \<Rightarrow> 'x"
  db_now :: "'x \<Rightarrow> int \<times> 'x"
  db_query :: "'x \<Rightarrow> (exn + unit) \<times> 'x"
  db_scan :: "'x \<Rightarrow> nat \<Rightarrow> nat \<Rightarrow> event list \<Rightarrow> event list"
  db_commit :: "event list \<Rightarrow> 'x \<Rightarrow> (exn + unit) \<times> 'x"
  db_rollback :: "'x \<Rightarrow> (exn + unit) \<times> 'x"
  db_create_all :: "'x \<Rightarrow> (exn + unit) \<times> 'x"
  db_dispose :: "'x \<Rightarrow> (exn + unit) \<times> 'x"
  redis_installed :: bool
  aio_pika_installed :: bool
  broker_do :: "cmd \<Rightarrow> 'x \<Rightarrow> (exn + unit) \<times> 'x"
  broker_count :: "pystr \<Rightarrow> 'x \<Rightarrow> (exn + nat) \<times> 'x"
  broker_get :: "pystr \<Rightarrow> int \<Rightarrow> 'x \<Rightarrow> (exn + (nat \<times> bytes) option) \<times> 'x"
  channel_closed :: "'x \<Rightarrow> bool"
  redis_ping :: "'x \<Rightarrow> (exn + bool) \<times> 'x"
  redis_llen :: "pystr \<Rightarrow> 'x \<Rightarrow> (exn + nat) \<times> 'x"
  redis_blpop :: "pystr \<Rightarrow> int \<Rightarrow> 'x \<Rightarrow> (exn + pystr option) \<times> 'x"

text \<open>
  \<open>str(exc)\<close>: the message the exception was raised with, or \<open>str_exn\<close> for the exceptions
  whose message the interpreter composes.
\<close>

definition exn_text :: "'x services \<Rightarrow> exn \<Rightarrow> pystr" where
  "exn_text S e =
     (case e of
        QueueUnavailableError m \<Rightarrow> m
      | ValueError m \<Rightarrow> m
      | TypeError m \<Rightarrow> m
      | AttributeError m \<Rightarrow> m
      | OverflowError m \<Rightarrow> m
      | RuntimeError m \<Rightarrow> m
      | External m \<Rightarrow> m
      | _ \<Rightarrow> str_exn S e)"

section \<open>The world\<close>

text \<open>The module globals of app/queue.py; a client or connection is there or it is not.\<close>

record queue_module =
  redis_client :: bool
  rabbitmq_connection :: bool
  rabbitmq_channel :: bool
  topology_ready :: bool

text \<open>
  The state of the standard library's root logger: its level and the formatter of each handler,
  a format and a date format or the program's own \<open>JsonFormatter\<close>. Python starts it at WARNING (30).
\<close>

datatype formatter = JsonFormatter | Formatter pystr pystr

record logger =
  logger_level :: nat
  logger_handlers :: "formatter list"

definition init_logger :: logger where
  "init_logger = \<lparr>logger_level = 30, logger_handlers = []\<rparr>"

text \<open>\<open>tasks\<close> is the \<open>BackgroundTasks\<close> object of the request being served.\<close>

record 'x world =
  table :: "event list"
  metrics :: metrics
  qmod :: queue_module
  tasks :: "(uuid \<times> bool) list"
  root_logger :: logger
  trace :: "effect list"
  ext :: 'x

definition init_qmod :: queue_module where
  "init_qmod = \<lparr>redis_client = False, rabbitmq_connection = False, rabbitmq_channel = False,
     topology_ready = False\<rparr>"

definition init_world :: "'x \<Rightarrow> 'x world" where
  "init_world x = \<lparr>table = [], metrics = init_metrics, qmod = init_qmod, tasks = [],
     root_logger = init_logger, trace = [], ext = x\<rparr>"

section \<open>Calling a service\<close>

text \<open>A call whose outcome only the program sees, and one that is recorded in the trace.\<close>

definition call :: "('x \<Rightarrow> (exn + 'a) \<times> 'x) \<Rightarrow> ('x world, 'a) io" where
  "call f = (\<lambda>w. case f (ext w) of (r, x) \<Rightarrow> (r, w\<lparr>ext := x\<rparr>))"

definition ask :: "('x \<Rightarrow> 'a \<times> 'x) \<Rightarrow> ('x world, 'a) io" where
  "ask f = (\<lambda>w. case f (ext w) of (v, x) \<Rightarrow> (Inr v, w\<lparr>ext := x\<rparr>))"

definition log_effect :: "effect \<Rightarrow> ('x world, unit) io" where
  "log_effect e = io_modify (\<lambda>w. w\<lparr>trace := trace w @ [e]\<rparr>)"

definition broker :: "'x services \<Rightarrow> cmd \<Rightarrow> ('x world, unit) io" where
  "broker S c =
     io_catch (io_then (call (broker_do S c)) (log_effect (Done c)))
       (\<lambda>e. io_then (log_effect (Failed c)) (io_raise e))"

definition take_message ::
  "'x services \<Rightarrow> pystr \<Rightarrow> int \<Rightarrow> ('x world, (nat \<times> bytes) option) io" where
  "take_message S q timeout =
     io_bind (call (broker_get S q timeout)) (\<lambda>r.
       case r of
         None \<Rightarrow> io_return None
       | Some (tag, body) \<Rightarrow> io_then (log_effect (Took q tag body)) (io_return (Some (tag, body))))"

definition pop_redis :: "'x services \<Rightarrow> pystr \<Rightarrow> int \<Rightarrow> ('x world, pystr option) io" where
  "pop_redis S q timeout =
     io_bind (call (redis_blpop S q timeout)) (\<lambda>r.
       case r of
         None \<Rightarrow> io_return None
       | Some v \<Rightarrow> io_then (log_effect (Popped q v)) (io_return (Some v)))"

definition set_metrics :: "(metrics \<Rightarrow> metrics) \<Rightarrow> ('x world, unit) io" where
  "set_metrics f = io_modify (\<lambda>w. w\<lparr>metrics := f (metrics w)\<rparr>)"

definition set_qmod :: "(queue_module \<Rightarrow> queue_module) \<Rightarrow> ('x world, unit) io" where
  "set_qmod f = io_modify (\<lambda>w. w\<lparr>qmod := f (qmod w)\<rparr>)"

text \<open>\<open>session.commit()\<close> of changes that make the table \<open>t\<close>: all of them, or an exception and none.\<close>

definition commit :: "'x services \<Rightarrow> event list \<Rightarrow> ('x world, unit) io" where
  "commit S t = io_then (call (db_commit S t)) (io_modify (\<lambda>w. w\<lparr>table := t\<rparr>))"

section \<open>Frames\<close>

text \<open>
  A reading of the world that a service call, a trace entry and the queue module's globals do
  not change: every operation of app/queue.py keeps it, as Queue proves inside this interface.
  It is instantiated with the table, and with the table next to the metrics of the intake.
\<close>

locale queue_blind =
  fixes view :: "'x world \<Rightarrow> 'v"
  assumes view_ext: "view (w\<lparr>ext := x\<rparr>) = view w"
    and view_trace: "view (w\<lparr>trace := tr\<rparr>) = view w"
    and view_qmod: "view (w\<lparr>qmod := q\<rparr>) = view w"
begin

lemma keeps_call [keeps_rules]: "keeps view (call f)"
  by (auto simp: keeps_def call_def view_ext split: prod.splits)

lemma keeps_ask [keeps_rules]: "keeps view (ask f)"
  by (auto simp: keeps_def ask_def view_ext split: prod.splits)

lemma keeps_log_effect [keeps_rules]: "keeps view (log_effect e)"
  unfolding log_effect_def by (rule keeps_modify) (rule view_trace)

lemma keeps_set_qmod [keeps_rules]: "keeps view (set_qmod f)"
  unfolding set_qmod_def by (rule keeps_modify) (rule view_qmod)

lemma keeps_broker [keeps_rules]: "keeps view (broker S c)"
  unfolding broker_def by (intro keeps_rules)

lemma keeps_take_message [keeps_rules]: "keeps view (take_message S q t)"
  unfolding take_message_def by (intro keeps_rules)

lemma keeps_pop_redis [keeps_rules]: "keeps view (pop_redis S q t)"
  unfolding pop_redis_def by (intro keeps_rules)

end

interpretation table_view: queue_blind table
  by unfold_locales simp_all

interpretation tasks_view: queue_blind tasks
  by unfold_locales simp_all

interpretation metrics_view: queue_blind metrics
  by unfold_locales simp_all

lemma keeps_metrics_only [keeps_rules]:
  "keeps trace (set_metrics f)" "keeps qmod (set_metrics f)" "keeps ext (set_metrics f)"
  by (auto simp: set_metrics_def intro: keeps_modify)

text \<open>The same for a reading that the metrics do not enter either.\<close>

locale metrics_blind = queue_blind view for view :: "'x world \<Rightarrow> 'v" +
  assumes view_metrics: "view (w\<lparr>metrics := m\<rparr>) = view w"
begin

lemma keeps_set_metrics [keeps_rules]: "keeps view (set_metrics f)"
  unfolding set_metrics_def by (rule keeps_modify) (rule view_metrics)

end

interpretation table_frame: metrics_blind table
  by unfold_locales simp_all

interpretation tasks_frame: metrics_blind tasks
  by unfold_locales simp_all

section \<open>What an operation adds to the trace\<close>

definition trace_grows :: "(effect \<Rightarrow> bool) \<Rightarrow> 'x world \<Rightarrow> 'x world \<Rightarrow> bool" where
  "trace_grows P w w' \<longleftrightarrow> (\<exists>es. trace w' = trace w @ es \<and> list_all P es)"

interpretation growth: io_preorder "trace_grows P" for P
  by unfold_locales (auto simp: trace_grows_def)

abbreviation emits :: "(effect \<Rightarrow> bool) \<Rightarrow> ('x world, 'a) io \<Rightarrow> bool" where
  "emits P m \<equiv> moves (trace_grows P) m"

lemma emitsD: "emits P m \<Longrightarrow> m w = (r, w') \<Longrightarrow> \<exists>es. trace w' = trace w @ es \<and> list_all P es"
  by (auto dest: movesD_run simp: trace_grows_def)

lemma emits_mono: "emits P m \<Longrightarrow> (\<And>e. P e \<Longrightarrow> Q e) \<Longrightarrow> emits Q m"
  by (erule moves_mono) (auto simp: trace_grows_def list_all_iff)

lemma emits_keeps: "keeps trace m \<Longrightarrow> emits P m"
  by (simp add: moves_def trace_grows_def keeps_def)

lemma emits_quiet [moves_rules]:
  "emits P (call f)" "emits P (ask g)" "emits P (set_metrics h)" "emits P (set_qmod k)"
  by (auto simp: moves_def trace_grows_def call_def ask_def set_metrics_def set_qmod_def
      split: prod.splits)

lemma emits_log [moves_rules]: "P e \<Longrightarrow> emits P (log_effect e)"
  by (simp add: moves_def trace_grows_def log_effect_def)

lemma emits_broker [moves_rules]: "P (Done c) \<Longrightarrow> P (Failed c) \<Longrightarrow> emits P (broker S c)"
  unfolding broker_def by (intro moves_rules)

lemma broker_run:
  "broker S c w =
     (case broker_do S c (ext w) of
        (Inl e, x) \<Rightarrow> (Inl e, w\<lparr>ext := x, trace := trace w @ [Failed c]\<rparr>)
      | (Inr u, x) \<Rightarrow> (Inr u, w\<lparr>ext := x, trace := trace w @ [Done c]\<rparr>))"
  by (auto simp: broker_def call_def log_effect_def io_catch_def io_bind_def
      split: prod.splits sum.splits)

lemma commit_run:
  "commit S t w =
     (case db_commit S t (ext w) of
        (Inl e, x) \<Rightarrow> (Inl e, w\<lparr>ext := x\<rparr>)
      | (Inr u, x) \<Rightarrow> (Inr u, w\<lparr>ext := x, table := t\<rparr>))"
  by (auto simp: commit_def call_def io_bind_def split: prod.splits sum.splits)

section \<open>Which exceptions a computation may raise\<close>

definition raises_only :: "(exn \<Rightarrow> bool) \<Rightarrow> ('w, 'a) io \<Rightarrow> bool" where
  "raises_only P m \<longleftrightarrow> (\<forall>w e w'. m w = (Inl e, w') \<longrightarrow> P e)"

named_theorems raises_rules \<open>which exceptions pass through the combinators\<close>

lemma raises_onlyD: "raises_only P m \<Longrightarrow> m w = (Inl e, w') \<Longrightarrow> P e"
  by (auto simp: raises_only_def)

lemma raises_only_basic [raises_rules]:
  "raises_only P (io_return x)" "raises_only P (io_gets f)" "raises_only P (io_modify g)"
  "raises_only P (ask h)" "raises_only P (set_metrics k)"
  by (auto simp: raises_only_def set_metrics_def ask_def split: prod.splits)

lemma raises_only_raise: "P e \<Longrightarrow> raises_only P (io_raise e)"
  by (simp add: raises_only_def)

lemma raises_only_lift: "(\<And>e. r = Inl e \<Longrightarrow> P e) \<Longrightarrow> raises_only P (io_lift r)"
  by (simp add: raises_only_def)

lemma raises_only_bind [raises_rules]:
  "raises_only P m \<Longrightarrow> (\<And>x. raises_only P (f x)) \<Longrightarrow> raises_only P (io_bind m f)"
  by (auto simp: raises_only_def io_bind_def split: prod.splits sum.splits)

lemma raises_only_catch:
  assumes "raises_only Q m" and "\<And>e. Q e \<Longrightarrow> raises_only P (h e)"
  shows "raises_only P (io_catch m h)"
  unfolding raises_only_def
proof (intro allI impI)
  fix w e w'
  assume run: "io_catch m h w = (Inl e, w')"
  obtain r w1 where m: "m w = (r, w1)" by fastforce
  show "P e"
  proof (cases r)
    case (Inl e1)
    then have "Q e1" "h e1 w1 = (Inl e, w')" using m run assms(1) by (auto dest: raises_onlyD)
    then show ?thesis using assms(2) by (auto dest: raises_onlyD)
  qed (use m run in simp)
qed

lemma raises_only_call:
  assumes "\<And>x e. fst (f x) = Inl e \<Longrightarrow> P e"
  shows "raises_only P (call f)"
  unfolding raises_only_def
proof (intro allI impI)
  fix w :: "'a world" and e w'
  assume "call f w = (Inl e, w')"
  then have "fst (f (ext w)) = Inl e" by (auto simp: call_def split: prod.splits)
  then show "P e" by (rule assms)
qed

lemma raises_only_cases [raises_rules]:
  "(b \<Longrightarrow> raises_only P m) \<Longrightarrow> (\<not> b \<Longrightarrow> raises_only P n) \<Longrightarrow> raises_only P (if b then m else n)"
  "(\<And>x. raises_only P (f x)) \<Longrightarrow> raises_only P (let x = a in f x)"
  "raises_only P m \<Longrightarrow> (\<And>x. raises_only P (f x)) \<Longrightarrow>
     raises_only P (case opt of None \<Rightarrow> m | Some x \<Rightarrow> f x)"
  by (auto split: option.splits)

lemma never_raises:
  assumes "raises_only (\<lambda>_. False) m"
  obtains x w' where "m w = (Inr x, w')"
  using raises_onlyD [OF assms, of w] by (cases "m w"; cases "fst (m w)") fastforce+

section \<open>Services that work\<close>

text \<open>
  An instance for the examples: a database that enforces its constraints and otherwise accepts
  every commit, a broker that keeps published messages by routing key and hands them out in
  order, and a clock that ticks once per reading.
\<close>

record calm_state =
  ticks :: nat
  mailbox :: "(pystr \<times> nat \<times> bytes) list"
  redis_list :: "pystr list"

definition calm_tick :: "calm_state \<Rightarrow> int \<times> calm_state" where
  "calm_tick x = (int (ticks x), x\<lparr>ticks := ticks x + 1\<rparr>)"

definition calm_do :: "cmd \<Rightarrow> calm_state \<Rightarrow> (exn + unit) \<times> calm_state" where
  "calm_do c x =
     (case c of
        Publish _ rk b \<Rightarrow> (Inr (), x\<lparr>ticks := ticks x + 1, mailbox := mailbox x @ [(rk, ticks x, b)]\<rparr>)
      | RedisPush _ v \<Rightarrow> (Inr (), x\<lparr>redis_list := redis_list x @ [v]\<rparr>)
      | _ \<Rightarrow> (Inr (), x))"

definition calm_get :: "pystr \<Rightarrow> calm_state \<Rightarrow> (exn + (nat \<times> bytes) option) \<times> calm_state" where
  "calm_get q x =
     (case filter (\<lambda>m. fst m = q) (mailbox x) of
        [] \<Rightarrow> (Inr None, x)
      | m # _ \<Rightarrow> (Inr (Some (snd m)), x\<lparr>mailbox := remove1 m (mailbox x)\<rparr>))"

definition calm :: "calm_state services" where
  "calm =
     \<lparr>time_now = calm_tick, perf_counter = calm_tick, utc_now = calm_tick,
      uuid4 = (\<lambda>x. (of_nat (ticks x), x\<lparr>ticks := ticks x + 1\<rparr>)), str_upper = (\<lambda>s. s),
      str_exn = (\<lambda>_. []),
      db_open = (\<lambda>x. x), db_now = calm_tick, db_query = (\<lambda>x. (Inr (), x)), db_scan = (\<lambda>x limit offset t. t),
      db_commit = (\<lambda>t x. (if constraints t then Inr () else Inl (External []), x)),
      db_rollback = (\<lambda>x. (Inr (), x)), db_create_all = (\<lambda>x. (Inr (), x)),
      db_dispose = (\<lambda>x. (Inr (), x)), redis_installed = True, aio_pika_installed = True,
      broker_do = calm_do,
      broker_count = (\<lambda>q x. (Inr (length (filter (\<lambda>m. fst m = q) (mailbox x))), x)),
      broker_get = (\<lambda>q t. calm_get q), channel_closed = (\<lambda>_. False),
      redis_ping = (\<lambda>x. (Inr True, x)), redis_llen = (\<lambda>q x. (Inr (length (redis_list x)), x)),
      redis_blpop = (\<lambda>q t x. case redis_list x of [] \<Rightarrow> (Inr None, x)
         | v # vs \<Rightarrow> (Inr (Some v), x\<lparr>redis_list := vs\<rparr>))\<rparr>"

definition calm_start :: "calm_state world" where
  "calm_start = init_world \<lparr>ticks = 0, mailbox = [], redis_list = []\<rparr>"

end
