(* ===== verification/Queue.thy ===== *)
theory Queue
  imports World
begin

text \<open>
  app/queue.py: the message format, the connection and topology, and the operations on the main,
  retry and dead-letter queue, over Redis or RabbitMQ.
\<close>

section \<open>Messages\<close>

record queue_envelope =
  env_event_id :: uuid
  env_attempt :: int
  env_raw_message :: "nat option"

record queue_snapshot =
  main_depth :: "nat option"
  retry_depth :: "nat option"
  dead_letter_depth :: "nat option"

definition is_queue_enabled :: "settings \<Rightarrow> bool" where
  "is_queue_enabled c \<longleftrightarrow> task_queue_backend c \<in> {lit ''redis'', lit ''rabbitmq''}"

definition payload_json :: "uuid \<Rightarrow> int \<Rightarrow> json" where
  "payload_json event_id attempt =
     JObj [(lit ''event_id'', JStr (uuid_str event_id)), (lit ''attempt'', JInt attempt)]"

text \<open>There is no float to print in a message.\<close>

definition no_float :: "pyfloat \<Rightarrow> pystr" where
  "no_float f = []"

definition queue_payload :: "uuid \<Rightarrow> int \<Rightarrow> exn + bytes" where
  "queue_payload event_id attempt =
     sum_bind (dumps_default no_float (payload_json event_id attempt)) utf8_encode"

text \<open>\<open>uuid.UUID(x)\<close> on any JSON value.\<close>

definition json_uuid :: "json \<Rightarrow> exn + uuid" where
  "json_uuid v =
     (case v of
        JStr s \<Rightarrow> parse_uuid s
      | JNull \<Rightarrow> Inl (TypeError (lit ''one of the hex, bytes, bytes_le, fields, or int arguments must be given''))
      | _ \<Rightarrow> Inl (AttributeError (lit ''object has no attribute replace'')))"

definition decode_payload :: "bytes \<Rightarrow> exn + uuid \<times> int" where
  "decode_payload raw_body =
     sum_bind (sum_bind (utf8_decode raw_body) json_loads) (\<lambda>payload.
     sum_bind (sum_bind (json_subscript payload (lit ''event_id'')) json_uuid) (\<lambda>event_id.
     sum_bind (sum_bind (json_get payload (lit ''attempt'') (JInt 1)) json_int) (\<lambda>attempt.
     Inr (event_id, attempt))))"

section \<open>Clients and topology\<close>

definition get_queue_client :: "'x services \<Rightarrow> settings \<Rightarrow> ('x world, unit) io" where
  "get_queue_client S c =
     (if task_queue_backend c \<noteq> lit ''redis''
      then io_raise (QueueUnavailableError (lit ''Redis queue is disabled''))
      else io_bind (io_gets (\<lambda>w. redis_client (qmod w))) (\<lambda>present.
        if present then io_return ()
        else if \<not> redis_installed S
        then io_raise (QueueUnavailableError
          (lit ''Redis dependency is not installed. Run pip install -r requirements.txt''))
        else io_then (broker S (RedisFromUrl (redis_url c)))
               (set_qmod (\<lambda>q. q\<lparr>redis_client := True\<rparr>))))"

definition retry_queue_args :: "settings \<Rightarrow> queue_args" where
  "retry_queue_args c =
     \<lparr>x_message_ttl = rabbitmq_retry_delay_ms c,
      x_dead_letter_exchange = rabbitmq_exchange_name c,
      x_dead_letter_routing_key = event_queue_name c\<rparr>"

definition declare_and_bind ::
  "'x services \<Rightarrow> settings \<Rightarrow> pystr \<Rightarrow> queue_args option \<Rightarrow> ('x world, unit) io" where
  "declare_and_bind S c name args =
     io_then (broker S (DeclareQueue name args))
             (broker S (BindQueue name (rabbitmq_exchange_name c) name))"

definition ensure_rabbitmq_topology :: "'x services \<Rightarrow> settings \<Rightarrow> ('x world, unit) io" where
  "ensure_rabbitmq_topology S c =
     (if task_queue_backend c \<noteq> lit ''rabbitmq''
      then io_raise (QueueUnavailableError (lit ''RabbitMQ queue is disabled''))
      else io_bind (io_gets qmod) (\<lambda>q.
        if rabbitmq_channel q \<and> topology_ready q then io_return ()
        else if \<not> aio_pika_installed S
        then io_raise (QueueUnavailableError
          (lit ''RabbitMQ dependency is not installed. Run pip install -r requirements.txt''))
        else
          io_then (if rabbitmq_connection q then io_return ()
                   else io_then (broker S (Connect (rabbitmq_url c)))
                          (set_qmod (\<lambda>q. q\<lparr>rabbitmq_connection := True\<rparr>)))
         (io_then (if rabbitmq_channel q then io_return ()
                   else io_then (broker S OpenChannel)
                       (io_then (set_qmod (\<lambda>q. q\<lparr>rabbitmq_channel := True\<rparr>))
                                (broker S (SetQos 10))))
         (io_then (broker S (DeclareExchange (rabbitmq_exchange_name c)))
         (io_then (declare_and_bind S c (event_queue_name c) None)
         (io_then (declare_and_bind S c (retry_queue_name c) (Some (retry_queue_args c)))
         (io_then (declare_and_bind S c (dead_letter_queue_name c) None)
                  (set_qmod (\<lambda>q. q\<lparr>topology_ready := True\<rparr>)))))))))"

definition publish_to_rabbitmq ::
  "'x services \<Rightarrow> settings \<Rightarrow> uuid \<Rightarrow> pystr \<Rightarrow> int \<Rightarrow> ('x world, unit) io" where
  "publish_to_rabbitmq S c event_id routing_key attempt =
     (if \<not> aio_pika_installed S then io_raise (External (lit ''No module named aio_pika''))
      else
        io_then (ensure_rabbitmq_topology S c)
       (io_then (broker S (GetExchange (rabbitmq_exchange_name c)))
       (io_bind (io_lift (queue_payload event_id attempt)) (\<lambda>body.
        broker S (Publish (rabbitmq_exchange_name c) routing_key body)))))"

definition dispose_queue :: "'x services \<Rightarrow> ('x world, unit) io" where
  "dispose_queue S =
     io_bind (io_gets qmod) (\<lambda>q.
       io_then (if redis_client q
                then io_then (broker S RedisClose) (set_qmod (\<lambda>q. q\<lparr>redis_client := False\<rparr>))
                else io_return ())
      (io_then (if rabbitmq_channel q
                then io_then (broker S CloseChannel) (set_qmod (\<lambda>q. q\<lparr>rabbitmq_channel := False\<rparr>))
                else io_return ())
      (io_then (if rabbitmq_connection q
                then io_then (broker S CloseConnection)
                       (set_qmod (\<lambda>q. q\<lparr>rabbitmq_connection := False\<rparr>))
                else io_return ())
               (set_qmod (\<lambda>q. q\<lparr>topology_ready := False\<rparr>)))))"

section \<open>Health and depth\<close>

definition ping_queue :: "'x services \<Rightarrow> settings \<Rightarrow> ('x world, bool option) io" where
  "ping_queue S c =
     (if \<not> is_queue_enabled c then io_return None
      else io_catch
        (if task_queue_backend c = lit ''redis''
         then io_then (get_queue_client S c)
                (io_bind (call (redis_ping S)) (\<lambda>result. io_return (Some result)))
         else io_then (ensure_rabbitmq_topology S c)
                (io_gets (\<lambda>w. Some (\<not> channel_closed S (ext w)))))
        (\<lambda>_. io_return (Some False)))"

definition publish_depths :: "queue_snapshot \<Rightarrow> ('x world, queue_snapshot) io" where
  "publish_depths s =
     io_then (set_metrics (set_queue_depths (main_depth s) (retry_depth s) (dead_letter_depth s)))
             (io_return s)"

definition get_queue_snapshot :: "'x services \<Rightarrow> settings \<Rightarrow> ('x world, queue_snapshot) io" where
  "get_queue_snapshot S c =
     (if \<not> is_queue_enabled c
      then publish_depths \<lparr>main_depth = None, retry_depth = None, dead_letter_depth = None\<rparr>
      else if task_queue_backend c = lit ''redis'' then
        io_catch
          (io_then (get_queue_client S c)
          (io_bind (call (redis_llen S (event_queue_name c))) (\<lambda>n.
           publish_depths \<lparr>main_depth = Some n, retry_depth = Some 0, dead_letter_depth = Some 0\<rparr>)))
          (\<lambda>_. io_raise (QueueUnavailableError (lit ''Failed to read Redis queue depth'')))
      else
        io_catch
          (io_then (ensure_rabbitmq_topology S c)
          (io_bind (call (broker_count S (event_queue_name c))) (\<lambda>n.
           io_bind (call (broker_count S (retry_queue_name c))) (\<lambda>r.
           io_bind (call (broker_count S (dead_letter_queue_name c))) (\<lambda>d.
           publish_depths \<lparr>main_depth = Some n, retry_depth = Some r, dead_letter_depth = Some d\<rparr>)))))
          (\<lambda>_. io_raise (QueueUnavailableError (lit ''Failed to read RabbitMQ queue depth''))))"

definition get_queue_depth :: "'x services \<Rightarrow> settings \<Rightarrow> ('x world, nat option) io" where
  "get_queue_depth S c = io_bind (get_queue_snapshot S c) (\<lambda>s. io_return (main_depth s))"

section \<open>Putting events on the queue and taking them off\<close>

definition enqueue_event :: "'x services \<Rightarrow> settings \<Rightarrow> uuid \<Rightarrow> int \<Rightarrow> ('x world, unit) io" where
  "enqueue_event S c event_id attempt =
     io_catch
       (if task_queue_backend c = lit ''redis''
        then io_then (get_queue_client S c)
               (broker S (RedisPush (event_queue_name c) (uuid_str event_id)))
        else if task_queue_backend c = lit ''rabbitmq''
        then publish_to_rabbitmq S c event_id (event_queue_name c) attempt
        else io_raise (QueueUnavailableError (lit ''Queue backend is disabled'')))
       (\<lambda>_. io_raise (QueueUnavailableError (lit ''Failed to enqueue event'')))"

definition dequeue_event ::
  "'x services \<Rightarrow> settings \<Rightarrow> int \<Rightarrow> ('x world, queue_envelope option) io" where
  "dequeue_event S c timeout =
     (if task_queue_backend c = lit ''redis'' then
        io_then (get_queue_client S c)
       (io_bind (pop_redis S (event_queue_name c) timeout) (\<lambda>r.
        case r of
          None \<Rightarrow> io_return None
        | Some text \<Rightarrow>
            (case parse_uuid text of
               Inr event_id \<Rightarrow> io_return (Some
                 \<lparr>env_event_id = event_id, env_attempt = 1, env_raw_message = None\<rparr>)
             | Inl e \<Rightarrow> if is_value_error e then io_return None else io_raise e)))
      else if task_queue_backend c \<noteq> lit ''rabbitmq'' then io_return None
      else
        io_then (ensure_rabbitmq_topology S c)
       (io_then (call (broker_count S (event_queue_name c)))
       (io_bind (take_message S (event_queue_name c) timeout) (\<lambda>r.
        case r of
          None \<Rightarrow> io_return None
        | Some (tag, body) \<Rightarrow>
            (case decode_payload body of
               Inl _ \<Rightarrow> io_then (broker S (Ack tag)) (io_return None)
             | Inr (event_id, attempt) \<Rightarrow> io_return (Some
                 \<lparr>env_event_id = event_id, env_attempt = attempt, env_raw_message = Some tag\<rparr>))))))"

definition complete_event :: "'x services \<Rightarrow> queue_envelope \<Rightarrow> ('x world, unit) io" where
  "complete_event S envelope =
     (case env_raw_message envelope of None \<Rightarrow> io_return () | Some tag \<Rightarrow> broker S (Ack tag))"

definition retry_or_dead_letter ::
  "'x services \<Rightarrow> settings \<Rightarrow> queue_envelope \<Rightarrow> ('x world, pystr) io" where
  "retry_or_dead_letter S c envelope =
     (if task_queue_backend c = lit ''redis''
      then io_then (enqueue_event S c (env_event_id envelope) 1) (io_return (lit ''retry''))
      else case env_raw_message envelope of
        None \<Rightarrow> io_raise (QueueUnavailableError (lit ''RabbitMQ message context is missing''))
      | Some tag \<Rightarrow>
          let next_attempt = env_attempt envelope + 1
          in if next_attempt \<le> rabbitmq_max_delivery_attempts c
             then
               io_then (publish_to_rabbitmq S c (env_event_id envelope) (retry_queue_name c) next_attempt)
              (io_then (set_metrics record_retry)
              (io_then (broker S (Ack tag))
                       (io_return (lit ''retry''))))
             else
               io_then (publish_to_rabbitmq S c (env_event_id envelope) (dead_letter_queue_name c)
                          (env_attempt envelope))
              (io_then (broker S (Ack tag))
                       (io_return (lit ''dead_letter''))))"

text \<open>The loop of \<open>redrive_dead_letter\<close>, with the list built so far.\<close>

fun redrive_loop ::
  "'x services \<Rightarrow> settings \<Rightarrow> nat \<Rightarrow> uuid list \<Rightarrow> ('x world, uuid list) io" where
  "redrive_loop S c 0 redriven = io_return redriven"
| "redrive_loop S c (Suc n) redriven =
     io_bind (take_message S (dead_letter_queue_name c) 1) (\<lambda>r.
       case r of
         None \<Rightarrow> io_return redriven
       | Some (tag, body) \<Rightarrow>
           (case decode_payload body of
              Inl _ \<Rightarrow> io_then (broker S (Ack tag)) (redrive_loop S c n redriven)
            | Inr (event_id, _) \<Rightarrow>
                io_then (publish_to_rabbitmq S c event_id (event_queue_name c) 1)
               (io_then (broker S (Ack tag))
                        (redrive_loop S c n (redriven @ [event_id])))))"

definition redrive_dead_letter :: "'x services \<Rightarrow> settings \<Rightarrow> nat \<Rightarrow> ('x world, uuid list) io" where
  "redrive_dead_letter S c limit =
     (if task_queue_backend c \<noteq> lit ''rabbitmq''
      then io_raise (QueueUnavailableError (lit ''DLQ redrive requires TASK_QUEUE_BACKEND=rabbitmq''))
      else
        io_then (ensure_rabbitmq_topology S c)
       (io_then (call (broker_count S (dead_letter_queue_name c)))
       (io_bind (redrive_loop S c limit []) (\<lambda>redriven.
        io_then (set_metrics (record_redrive (length redriven)))
                (io_return redriven)))))"

section \<open>The message format is a codec\<close>

definition read_fields :: "json \<Rightarrow> exn + uuid \<times> int" where
  "read_fields v =
     sum_bind (sum_bind (json_subscript v (lit ''event_id'')) json_uuid) (\<lambda>event_id.
     sum_bind (sum_bind (json_get v (lit ''attempt'') (JInt 1)) json_int) (\<lambda>attempt.
     Inr (event_id, attempt)))"

lemma sum_bind_assoc: "sum_bind (sum_bind r f) g = sum_bind r (\<lambda>x. sum_bind (f x) g)"
  by (cases r) simp_all

lemma decode_payload_alt:
  "decode_payload b = sum_bind (utf8_decode b) (\<lambda>t. sum_bind (json_loads t) read_fields)"
  by (simp add: decode_payload_def read_fields_def [abs_def] sum_bind_assoc)

lemma read_fields_payload: "read_fields (payload_json u n) = Inr (u, n)"
  by (simp add: read_fields_def payload_json_def json_subscript_def json_get_def json_uuid_def
      dict_get_def parse_uuid_str)

lemma scalar_ascii: "c < 128 \<Longrightarrow> scalar c"
  by (simp add: scalar_def)

lemma list_all_scalar_lit: "list_all scalar (lit s)"
proof -
  have "scalar (of_char ch)" for ch :: char
  proof -
    have "(of_char ch :: nat) < 256" by simp
    then have "(of_char ch :: nat) < 55296" by linarith
    then show ?thesis by (simp add: scalar_def)
  qed
  then show ?thesis by (simp add: lit_def list_all_iff)
qed

lemma plain_payload: "plain (payload_json u n)"
proof -
  have "list_all scalar (uuid_str u)"
    using uuid_str_chars by (fastforce simp: list_all_iff scalar_def)
  then show ?thesis by (simp add: payload_json_def list_all_scalar_lit)
qed

lemma loads_payload: "dumps_default no_float (payload_json u n) = Inr t \<Longrightarrow> json_loads t = Inr (payload_json u n)"
  by (rule json_loads_dumps [OF _ _ plain_payload]) (auto simp: item_seps_def key_seps_def)

interpretation message: codec_chain
  "\<lambda>(u, n). dumps_default no_float (payload_json u n)" "\<lambda>t. sum_bind (json_loads t) read_fields"
  utf8_encode utf8_decode
  by unfold_locales (auto simp: loads_payload read_fields_payload)

lemma decode_queue_payload: "queue_payload u n = Inr b \<Longrightarrow> decode_payload b = Inr (u, n)"
  using message.dec_enc [of "(u, n)" b] by (simp add: queue_payload_def decode_payload_alt)

lemma queue_payload_total:
  assumes "\<bar>n\<bar> < 10 ^ int_max_str_digits"
  shows "\<exists>b. queue_payload u n = Inr b"
proof -
  have "nat \<bar>n\<bar> < 10 ^ int_max_str_digits"
    using assms by (simp add: nat_less_iff)
  moreover have "0 < int_max_str_digits" by (simp add: int_max_str_digits_def)
  ultimately have len: "length (dec_digits (nat \<bar>n\<bar>)) \<le> int_max_str_digits"
    by (rule length_dec_digits)
  then obtain s where s: "py_str_int n = Inr s"
    by (auto simp: py_str_int_def Let_def)
  then obtain t where t: "dumps_default no_float (payload_json u n) = Inr t"
    by (simp add: payload_json_def)
  have "printable (no_float f)" for f by (simp add: no_float_def)
  then have "printable t" using dumps_printable(1) [OF _ _ _ t] by simp
  then have "utf8_encode t = Inr (map byte t)"
    by (intro utf8_encode_ascii) (auto simp: printable_def list_all_iff)
  then show ?thesis by (simp add: queue_payload_def t)
qed

section \<open>What the queue operations leave alone\<close>

context queue_blind
begin

lemma keeps_clients [keeps_rules]:
  "keeps view (get_queue_client S c)" "keeps view (declare_and_bind S c q a)"
  unfolding get_queue_client_def declare_and_bind_def by (intro keeps_rules)+

lemma keeps_topology [keeps_rules]: "keeps view (ensure_rabbitmq_topology S c)"
  unfolding ensure_rabbitmq_topology_def by (intro keeps_rules)

lemma keeps_publish [keeps_rules]: "keeps view (publish_to_rabbitmq S c u rk n)"
  unfolding publish_to_rabbitmq_def by (intro keeps_rules)

lemma keeps_dispose_queue [keeps_rules]: "keeps view (dispose_queue S)"
  unfolding dispose_queue_def by (intro keeps_rules)

lemma keeps_ping_queue [keeps_rules]: "keeps view (ping_queue S c)"
  unfolding ping_queue_def by (intro keeps_rules)

lemma keeps_enqueue_event [keeps_rules]: "keeps view (enqueue_event S c u n)"
  unfolding enqueue_event_def by (intro keeps_rules)

lemma keeps_dequeue_event [keeps_rules]: "keeps view (dequeue_event S c t)"
  unfolding dequeue_event_def by (intro keeps_rules)

lemma keeps_complete_event [keeps_rules]: "keeps view (complete_event S e)"
  unfolding complete_event_def by (intro keeps_rules)

end

context metrics_blind
begin

lemma keeps_get_queue_snapshot [keeps_rules]: "keeps view (get_queue_snapshot S c)"
  unfolding get_queue_snapshot_def publish_depths_def by (intro keeps_rules)

lemma keeps_get_queue_depth [keeps_rules]: "keeps view (get_queue_depth S c)"
  unfolding get_queue_depth_def by (intro keeps_rules)

lemma keeps_retry_or_dead_letter [keeps_rules]: "keeps view (retry_or_dead_letter S c e)"
  unfolding retry_or_dead_letter_def by (intro keeps_rules)

lemma keeps_redrive_loop [keeps_rules]: "keeps view (redrive_loop S c n ids)"
  by (induction n arbitrary: ids) (auto intro!: keeps_rules)

lemma keeps_redrive_dead_letter [keeps_rules]: "keeps view (redrive_dead_letter S c n)"
  unfolding redrive_dead_letter_def by (intro keeps_rules)

end

lemma keeps_metrics_redrive_loop: "keeps metrics (redrive_loop S c n ids)"
  by (induction n arbitrary: ids) (auto intro!: keeps_rules)

section \<open>Publishing\<close>

text \<open>
  The effects that only prepare the connection: no message is published, taken or acknowledged.
\<close>

fun preparing_cmd :: "cmd \<Rightarrow> bool" where
  "preparing_cmd (Publish _ _ _) = False"
| "preparing_cmd (Ack _) = False"
| "preparing_cmd (RedisPush _ _) = False"
| "preparing_cmd CloseChannel = False"
| "preparing_cmd CloseConnection = False"
| "preparing_cmd RedisClose = False"
| "preparing_cmd _ = True"

fun preparing :: "effect \<Rightarrow> bool" where
  "preparing (Done c) = preparing_cmd c"
| "preparing (Failed c) = preparing_cmd c"
| "preparing _ = False"

lemma emits_topology [moves_rules]: "emits preparing (ensure_rabbitmq_topology S c)"
  unfolding ensure_rabbitmq_topology_def declare_and_bind_def by (intro moves_rules) simp_all

lemma emits_get_queue_client [moves_rules]: "emits preparing (get_queue_client S c)"
  unfolding get_queue_client_def by (intro moves_rules) simp_all

text \<open>A confirmed publication of a message that a consumer decodes to \<open>(u, n)\<close>.\<close>

definition published :: "settings \<Rightarrow> pystr \<Rightarrow> uuid \<Rightarrow> int \<Rightarrow> effect \<Rightarrow> bool" where
  "published c rk u n e \<longleftrightarrow>
     (\<exists>b. e = Done (Publish (rabbitmq_exchange_name c) rk b) \<and> decode_payload b = Inr (u, n))"

definition never_acks :: "effect list \<Rightarrow> bool" where
  "never_acks es \<longleftrightarrow> (\<forall>tag. Done (Ack tag) \<notin> set es)"

lemma never_acks_simps [simp]:
  "never_acks []"
  "never_acks (e # es) \<longleftrightarrow> (\<forall>tag. e \<noteq> Done (Ack tag)) \<and> never_acks es"
  "never_acks (es @ fs) \<longleftrightarrow> never_acks es \<and> never_acks fs"
  by (auto simp: never_acks_def)

lemma preparing_never_acks [simp]: "list_all preparing es \<Longrightarrow> never_acks es"
  by (fastforce simp: never_acks_def list_all_iff)

lemma published_not_ack: "published c rk u n e \<Longrightarrow> e \<noteq> Done (Ack tag)"
  by (auto simp: published_def)

text \<open>Effects among which no message is put on a queue, a list or an exchange.\<close>

fun sends :: "effect \<Rightarrow> bool" where
  "sends (Done (Publish x rk b)) = True"
| "sends (Done (RedisPush key v)) = True"
| "sends _ = False"

abbreviation sends_nothing :: "effect list \<Rightarrow> bool" where
  "sends_nothing es \<equiv> list_all (\<lambda>e. \<not> sends e) es"

lemma preparing_sends_nothing [simp]: "list_all preparing es \<Longrightarrow> sends_nothing es"
  by (erule list.pred_mono_strong) (auto elim: sends.elims)

lemma publish_cases:
  assumes "publish_to_rabbitmq S c u rk n w = (r, w')"
  obtains (sent) pre p where "r = Inr ()" "list_all preparing pre" "published c rk u n p"
      "trace w' = trace w @ pre @ [p]"
  | (failed) e es where "r = Inl e" "never_acks es" "trace w' = trace w @ es" "sends_nothing es"
proof (cases "aio_pika_installed S")
  case False
  with assms show thesis by (intro failed [of _ "[]"]) (auto simp: publish_to_rabbitmq_def)
next
  case True
  obtain r1 w1 where r1: "ensure_rabbitmq_topology S c w = (r1, w1)" by fastforce
  obtain es where es: "trace w1 = trace w @ es" "list_all preparing es"
    using emitsD [OF emits_topology r1] by blast
  show thesis
  proof (cases r1)
    case (Inl e)
    with assms True r1 es show thesis
      by (intro failed [of e es]) (auto simp: publish_to_rabbitmq_def)
  next
    case (Inr v)
    let ?g = "GetExchange (rabbitmq_exchange_name c)"
    obtain r2 w2 where r2: "broker S ?g w1 = (r2, w2)" by fastforce
    have t2: "trace w2 = trace w1 @ [case r2 of Inl _ \<Rightarrow> Failed ?g | Inr _ \<Rightarrow> Done ?g]"
      using r2 by (auto simp: broker_run split: prod.splits sum.splits)
    show thesis
    proof (cases r2)
      case (Inl e)
      with assms True r1 \<open>r1 = Inr v\<close> r2 es t2 show thesis
        by (intro failed [of e "es @ [Failed ?g]"]) (auto simp: publish_to_rabbitmq_def)
    next
      case r2v: (Inr v2)
      show thesis
      proof (cases "queue_payload u n")
        case (Inl e)
        with assms True r1 \<open>r1 = Inr v\<close> r2 r2v es t2 show thesis
          by (intro failed [of e "es @ [Done ?g]"]) (auto simp: publish_to_rabbitmq_def)
      next
        case (Inr b)
        let ?p = "Publish (rabbitmq_exchange_name c) rk b"
        have run: "broker S ?p w2 = (r, w')"
          using assms True r1 \<open>r1 = Inr v\<close> r2 r2v Inr by (simp add: publish_to_rabbitmq_def)
        then have t3: "trace w' = trace w2 @ [case r of Inl _ \<Rightarrow> Failed ?p | Inr _ \<Rightarrow> Done ?p]"
          by (auto simp: broker_run split: prod.splits sum.splits)
        have dec: "decode_payload b = Inr (u, n)" by (rule decode_queue_payload [OF Inr])
        show thesis
        proof (cases r)
          case (Inl e)
          with es t2 t3 r2v show thesis
            by (intro failed [of e "es @ [Done ?g, Failed ?p]"]) auto
        next
          case (Inr x)
          with es t2 t3 r2v dec show thesis
            by (intro sent [of "es @ [Done ?g]" "Done ?p"]) (auto simp: published_def)
        qed
      qed
    qed
  qed
qed

section \<open>Routing a failed event\<close>

lemma ack_run:
  assumes "broker S (Ack tag) w = (r, w')"
  obtains (acked) "r = Inr ()" "trace w' = trace w @ [Done (Ack tag)]"
  | (unacked) e where "r = Inl e" "trace w' = trace w @ [Failed (Ack tag)]"
  using assms by (auto simp: broker_run split: prod.splits sum.splits)

text \<open>Publishing and then acknowledging, the pattern of both branches and of the redrive loop.\<close>

lemma publish_then_ack_cases:
  assumes "io_then (publish_to_rabbitmq S c u rk n) (io_then (set_metrics f) (io_then (broker S (Ack tag)) k)) w = (r, w')"
  obtains (moved) pre p w1 where "list_all preparing pre" "published c rk u n p"
      "trace w1 = trace w @ pre @ [p, Done (Ack tag)]" "k w1 = (r, w')"
  | (kept) e es where "r = Inl e" "never_acks es" "trace w' = trace w @ es"
proof -
  obtain r1 w1 where r1: "publish_to_rabbitmq S c u rk n w = (r1, w1)" by fastforce
  then show thesis
  proof (cases rule: publish_cases)
    case (failed e es)
    with assms r1 show thesis by (intro kept [of e es]) auto
  next
    case (sent pre p)
    define w2 where "w2 = w1\<lparr>metrics := f (metrics w1)\<rparr>"
    have w2: "set_metrics f w1 = (Inr (), w2)" "trace w2 = trace w1"
      by (simp_all add: set_metrics_def w2_def)
    obtain r3 w3 where r3: "broker S (Ack tag) w2 = (r3, w3)" by fastforce
    then show thesis
    proof (cases rule: ack_run)
      case acked
      with assms r1 sent w2 r3 show thesis by (intro moved [of pre p w3]) auto
    next
      case (unacked e)
      with assms r1 sent w2 r3 show thesis
        by (intro kept [of e "pre @ [p, Failed (Ack tag)]"]) (auto dest: published_not_ack)
    qed
  qed
qed

lemma set_metrics_id: "set_metrics (\<lambda>m. m) = io_return ()"
  by (simp add: set_metrics_def fun_eq_iff)

text \<open>What \<open>retry_or_dead_letter\<close> promises about a message: where it goes and with which attempt.\<close>

definition route :: "settings \<Rightarrow> int \<Rightarrow> pystr \<times> pystr \<times> int" where
  "route c attempt =
     (if attempt + 1 \<le> rabbitmq_max_delivery_attempts c
      then (lit ''retry'', retry_queue_name c, attempt + 1)
      else (lit ''dead_letter'', dead_letter_queue_name c, attempt))"

lemma retry_or_dead_letter_cases:
  assumes "task_queue_backend c \<noteq> lit ''redis''" and "env_raw_message env = Some tag"
    and "retry_or_dead_letter S c env w = (r, w')"
  obtains (moved) action rk n pre p where "route c (env_attempt env) = (action, rk, n)" "r = Inr action"
      "list_all preparing pre" "published c rk (env_event_id env) n p"
      "trace w' = trace w @ pre @ [p, Done (Ack tag)]"
  | (kept) e es where "r = Inl e" "never_acks es" "trace w' = trace w @ es"
proof -
  obtain action rk n where rt: "route c (env_attempt env) = (action, rk, n)"
    by (metis prod_cases3)
  define f where "f = (if action = lit ''retry'' then record_retry else (\<lambda>m. m))"
  have "retry_or_dead_letter S c env =
      io_then (publish_to_rabbitmq S c (env_event_id env) rk n)
        (io_then (set_metrics f) (io_then (broker S (Ack tag)) (io_return action)))"
    using assms(1,2) rt
    by (auto simp: retry_or_dead_letter_def route_def f_def set_metrics_id Let_def split: if_splits)
  with assms(3) have run: "io_then (publish_to_rabbitmq S c (env_event_id env) rk n)
        (io_then (set_metrics f) (io_then (broker S (Ack tag)) (io_return action))) w = (r, w')"
    by simp
  then show thesis
  proof (cases rule: publish_then_ack_cases)
    case (moved pre p w1)
    with rt show thesis by (intro that(1) [of action rk n pre p]) auto
  next
    case (kept e es)
    then show thesis by (intro that(2))
  qed
qed

section \<open>Redriving the dead-letter queue\<close>

text \<open>
  The effects of a redrive that went through: each message taken from the dead-letter queue is
  either malformed and dropped, or published to the main queue with attempt 1 and then
  acknowledged; \<open>ids\<close> are the events published, in order.
\<close>

inductive redrive_blocks :: "settings \<Rightarrow> effect list \<Rightarrow> uuid list \<Rightarrow> bool" for c where
  none: "redrive_blocks c [] []"
| dropped: "redrive_blocks c es ids \<Longrightarrow> decode_payload body = Inl e \<Longrightarrow>
    redrive_blocks c (es @ [Took (dead_letter_queue_name c) tag body, Done (Ack tag)]) ids"
| republished: "redrive_blocks c es ids \<Longrightarrow> decode_payload body = Inr (u, n) \<Longrightarrow>
    list_all preparing pre \<Longrightarrow> published c (event_queue_name c) u 1 p \<Longrightarrow>
    redrive_blocks c
      (es @ [Took (dead_letter_queue_name c) tag body] @ pre @ [p, Done (Ack tag)]) (ids @ [u])"

lemma take_message_run:
  assumes "take_message S q t w = (r, w')"
  obtains (nothing) "r = Inr None" "trace w' = trace w"
  | (taken) tag body where "r = Inr (Some (tag, body))" "trace w' = trace w @ [Took q tag body]"
  | (error) e where "r = Inl e" "trace w' = trace w"
  using assms
  by (auto simp: take_message_def call_def log_effect_def io_bind_def
      split: prod.splits sum.splits option.splits)

lemma redrive_loop_cases:
  assumes "redrive_loop S c n ids w = (r, w')" and "redrive_blocks c es ids"
    and "trace w = tr @ es"
  shows "(\<exists>es' ids'. r = Inr ids' \<and> redrive_blocks c es' ids' \<and> trace w' = tr @ es' \<and>
      length ids' \<le> length ids + n) \<or>
    (\<exists>e es' ids' rest. r = Inl e \<and> redrive_blocks c es' ids' \<and> never_acks rest \<and>
      trace w' = tr @ es' @ rest)"
  using assms
proof (induction n arbitrary: ids es w)
  case 0
  then show ?case by auto
next
  case (Suc n)
  let ?q = "dead_letter_queue_name c"
  obtain r1 w1 where r1: "take_message S ?q 1 w = (r1, w1)" by fastforce
  then show ?case
  proof (cases rule: take_message_run)
    case nothing
    with Suc.prems r1 show ?thesis by auto
  next
    case (error e)
    with Suc.prems r1 have "r = Inl e" "trace w' = tr @ es" by auto
    with Suc.prems(2) show ?thesis by (metis append_Nil2 never_acks_simps(1))
  next
    case (taken tag body)
    show ?thesis
    proof (cases "decode_payload body")
      case (Inl err)
      obtain r2 w2 where r2: "broker S (Ack tag) w1 = (r2, w2)" by fastforce
      then show ?thesis
      proof (cases rule: ack_run)
        case acked
        have "redrive_loop S c n ids w2 = (r, w')"
          using Suc.prems(1) r1 taken Inl r2 acked by simp
        moreover have "redrive_blocks c (es @ [Took ?q tag body, Done (Ack tag)]) ids"
          using Suc.prems(2) Inl by (rule dropped)
        moreover have "trace w2 = tr @ (es @ [Took ?q tag body, Done (Ack tag)])"
          using Suc.prems(3) taken acked by simp
        ultimately show ?thesis using Suc.IH [of ids w2] by (metis add_Suc_right le_SucI)
      next
        case (unacked e)
        then have "r = Inl e" "trace w' = tr @ es @ [Took ?q tag body, Failed (Ack tag)]"
          using Suc.prems r1 taken Inl r2 by auto
        moreover have "never_acks [Took ?q tag body, Failed (Ack tag)]" by simp
        ultimately show ?thesis using Suc.prems(2) by blast
      qed
    next
      case (Inr d)
      obtain u m where d: "d = (u, m)" by fastforce
      have "io_then (publish_to_rabbitmq S c u (event_queue_name c) 1)
          (io_then (set_metrics (\<lambda>m. m)) (io_then (broker S (Ack tag)) (redrive_loop S c n (ids @ [u])))) w1
          = (r, w')"
        using Suc.prems(1) r1 taken Inr d by (simp add: set_metrics_id)
      then show ?thesis
      proof (cases rule: publish_then_ack_cases)
        case (moved pre p w2)
        have "redrive_blocks c (es @ [Took ?q tag body] @ pre @ [p, Done (Ack tag)]) (ids @ [u])"
          using Suc.prems(2) Inr [unfolded d] moved(1,2) by (rule republished)
        moreover have "trace w2 = tr @ (es @ [Took ?q tag body] @ pre @ [p, Done (Ack tag)])"
          using Suc.prems(3) taken moved by simp
        ultimately show ?thesis using Suc.IH [OF moved(4)] by simp
      next
        case (kept e fs)
        then have "trace w' = tr @ es @ (Took ?q tag body # fs)" "never_acks (Took ?q tag body # fs)"
          using Suc.prems(3) taken by auto
        with kept(1) Suc.prems(2) show ?thesis by blast
      qed
    qed
  qed
qed

section \<open>Taking from the queue and putting on it\<close>

lemma enqueue_event_cases:
  assumes "enqueue_event S c u n w = (r, w')"
  obtains (sent_rabbitmq) pre p where "r = Inr ()" "task_queue_backend c = lit ''rabbitmq''"
      "list_all preparing pre" "published c (event_queue_name c) u n p" "trace w' = trace w @ pre @ [p]"
  | (sent_redis) pre where "r = Inr ()" "task_queue_backend c = lit ''redis''" "list_all preparing pre"
      "trace w' = trace w @ pre @ [Done (RedisPush (event_queue_name c) (uuid_str u))]"
  | (unavailable) es where "r = Inl (QueueUnavailableError (lit ''Failed to enqueue event''))"
      "never_acks es" "trace w' = trace w @ es" "sends_nothing es"
proof -
  let ?err = "\<lambda>_. io_raise (QueueUnavailableError (lit ''Failed to enqueue event''))"
  let ?push = "RedisPush (event_queue_name c) (uuid_str u)"
  consider (redis) "task_queue_backend c = lit ''redis''"
    | (rabbitmq) "task_queue_backend c = lit ''rabbitmq''"
    | (off) "task_queue_backend c \<noteq> lit ''redis''" "task_queue_backend c \<noteq> lit ''rabbitmq''"
    by blast
  then show thesis
  proof cases
    case off
    with assms show thesis by (intro unavailable [of "[]"]) (auto simp: enqueue_event_def io_catch_def)
  next
    case rabbitmq
    obtain r1 w1 where r1: "publish_to_rabbitmq S c u (event_queue_name c) n w = (r1, w1)" by fastforce
    then show thesis
    proof (cases rule: publish_cases)
      case (sent pre p)
      with assms rabbitmq r1 show thesis by (intro sent_rabbitmq [of pre p]) (auto simp: enqueue_event_def)
    next
      case (failed e es)
      with assms rabbitmq r1 show thesis by (intro unavailable [of es]) (auto simp: enqueue_event_def)
    qed
  next
    case redis
    obtain r1 w1 where r1: "get_queue_client S c w = (r1, w1)" by fastforce
    obtain es where es: "trace w1 = trace w @ es" "list_all preparing es"
      using emitsD [OF emits_get_queue_client r1] by blast
    show thesis
    proof (cases r1)
      case (Inl e)
      with assms redis r1 es show thesis by (intro unavailable [of es]) (auto simp: enqueue_event_def)
    next
      case (Inr v)
      obtain r2 w2 where r2: "broker S ?push w1 = (r2, w2)" by fastforce
      then have "trace w2 = trace w1 @ [case r2 of Inl _ \<Rightarrow> Failed ?push | Inr _ \<Rightarrow> Done ?push]"
        by (auto simp: broker_run split: prod.splits sum.splits)
      with assms redis r1 Inr r2 es show thesis
        by (cases r2) (auto simp: enqueue_event_def intro: sent_redis [of es]
            unavailable [of "es @ [Failed ?push]"])
    qed
  qed
qed

lemma emits_broker_count [moves_rules]: "emits P (call (broker_count S q))"
  by (rule emits_quiet)

text \<open>What \<open>dequeue_event\<close> does with RabbitMQ: the message it returns is not yet acknowledged.\<close>

lemma dequeue_rabbitmq_cases:
  assumes "task_queue_backend c = lit ''rabbitmq''" and "dequeue_event S c t w = (r, w')"
  obtains (got) env tag body pre where "r = Inr (Some env)" "list_all preparing pre"
      "trace w' = trace w @ pre @ [Took (event_queue_name c) tag body]"
      "decode_payload body = Inr (env_event_id env, env_attempt env)" "env_raw_message env = Some tag"
  | (malformed) tag body pre e where "r = Inr None" "list_all preparing pre"
      "decode_payload body = Inl e"
      "trace w' = trace w @ pre @ [Took (event_queue_name c) tag body, Done (Ack tag)]"
  | (idle) pre where "r = Inr None" "list_all preparing pre" "trace w' = trace w @ pre"
  | (failed) e es where "r = Inl e" "never_acks es" "trace w' = trace w @ es"
proof -
  let ?q = "event_queue_name c"
  define prep where "prep = io_then (ensure_rabbitmq_topology S c) (call (broker_count S ?q))"
  define rest where "rest = (\<lambda>r. case r of
          None \<Rightarrow> io_return None
        | Some (tag, body) \<Rightarrow>
            (case decode_payload body of
               Inl _ \<Rightarrow> io_then (broker S (Ack tag)) (io_return None)
             | Inr (event_id, attempt) \<Rightarrow> io_return (Some
                 \<lparr>env_event_id = event_id, env_attempt = attempt, env_raw_message = Some tag\<rparr>)))"
  have def: "dequeue_event S c t = io_then prep (io_bind (take_message S ?q t) rest)"
    using assms(1) by (simp add: dequeue_event_def prep_def rest_def io_bind_assoc)
  obtain r1 w1 where r1: "prep w = (r1, w1)" by fastforce
  have "emits preparing prep" unfolding prep_def by (intro moves_rules)
  then obtain pre where pre: "trace w1 = trace w @ pre" "list_all preparing pre"
    using emitsD r1 by blast
  show thesis
  proof (cases r1)
    case (Inl e)
    with assms(2) def r1 pre show thesis by (intro failed [of e pre]) auto
  next
    case (Inr v)
    obtain r2 w2 where r2: "take_message S ?q t w1 = (r2, w2)" by fastforce
    then show thesis
    proof (cases rule: take_message_run)
      case nothing
      with assms(2) def r1 Inr r2 pre show thesis by (intro idle [of pre]) (auto simp: rest_def)
    next
      case (error e)
      with assms(2) def r1 Inr r2 pre show thesis by (intro failed [of e pre]) auto
    next
      case (taken tag body)
      have run: "rest (Some (tag, body)) w2 = (r, w')"
        using assms(2) def r1 Inr r2 taken by simp
      show thesis
      proof (cases "decode_payload body")
        case (Inr d)
        with run taken pre show thesis
          by (cases d) (auto simp: rest_def intro!: got [of _ pre tag body])
      next
        case err: (Inl e)
        obtain r3 w3 where r3: "broker S (Ack tag) w2 = (r3, w3)" by fastforce
        then show thesis
        proof (cases rule: ack_run)
          case acked
          with run r3 err taken pre show thesis
            by (intro malformed [of pre body e tag]) (auto simp: rest_def)
        next
          case (unacked e')
          with run r3 err taken pre show thesis
            by (intro failed [of e' "pre @ [Took ?q tag body, Failed (Ack tag)]"]) (auto simp: rest_def)
        qed
      qed
    qed
  qed
qed

section \<open>The topology\<close>

text \<open>The broker calls of a first \<open>_ensure_rabbitmq_topology\<close>, in order.\<close>

definition topology_cmds :: "settings \<Rightarrow> cmd list" where
  "topology_cmds c =
     [DeclareExchange (rabbitmq_exchange_name c),
      DeclareQueue (event_queue_name c) None,
      BindQueue (event_queue_name c) (rabbitmq_exchange_name c) (event_queue_name c),
      DeclareQueue (retry_queue_name c) (Some (retry_queue_args c)),
      BindQueue (retry_queue_name c) (rabbitmq_exchange_name c) (retry_queue_name c),
      DeclareQueue (dead_letter_queue_name c) None,
      BindQueue (dead_letter_queue_name c) (rabbitmq_exchange_name c) (dead_letter_queue_name c)]"

text \<open>Running a list of commands up to the first that fails.\<close>

fun run_cmds :: "'x services \<Rightarrow> cmd list \<Rightarrow> ('x world, unit) io" where
  "run_cmds S [] = io_return ()"
| "run_cmds S (c # cs) = io_then (broker S c) (run_cmds S cs)"

lemma run_cmds_append: "run_cmds S (cs @ ds) = io_then (run_cmds S cs) (run_cmds S ds)"
  by (induction cs) (simp_all add: io_bind_assoc)

lemma run_cmds_done:
  "run_cmds S cs w = (Inr v, w') \<Longrightarrow> trace w' = trace w @ map Done cs \<and> qmod w' = qmod w"
proof (induction cs arbitrary: w)
  case (Cons c cs)
  obtain r1 w1 where r1: "broker S c w = (r1, w1)" by fastforce
  with Cons.prems obtain u where "r1 = Inr u" "run_cmds S cs w1 = (Inr v, w')"
    by (cases r1) auto
  with r1 Cons.IH [of w1] show ?case by (auto simp: broker_run split: prod.splits sum.splits)
qed simp

lemma broker_done: "broker S c w = (Inr v, w') \<Longrightarrow> trace w' = trace w @ [Done c] \<and> qmod w' = qmod w"
  by (auto simp: broker_run split: prod.splits sum.splits)

definition connect_if_needed :: "'x services \<Rightarrow> settings \<Rightarrow> bool \<Rightarrow> ('x world, unit) io" where
  "connect_if_needed S c present =
     (if present then io_return ()
      else io_then (broker S (Connect (rabbitmq_url c)))
             (set_qmod (\<lambda>q. q\<lparr>rabbitmq_connection := True\<rparr>)))"

definition channel_if_needed :: "'x services \<Rightarrow> bool \<Rightarrow> ('x world, unit) io" where
  "channel_if_needed S present =
     (if present then io_return ()
      else io_then (broker S OpenChannel)
             (io_then (set_qmod (\<lambda>q. q\<lparr>rabbitmq_channel := True\<rparr>)) (broker S (SetQos 10))))"

lemma ensure_topology_alt:
  assumes "task_queue_backend c = lit ''rabbitmq''" and "aio_pika_installed S"
    and "\<not> (rabbitmq_channel (qmod w) \<and> topology_ready (qmod w))"
  shows "ensure_rabbitmq_topology S c w =
    io_then (connect_if_needed S c (rabbitmq_connection (qmod w)))
      (io_then (channel_if_needed S (rabbitmq_channel (qmod w)))
        (io_then (run_cmds S (topology_cmds c)) (set_qmod (\<lambda>q. q\<lparr>topology_ready := True\<rparr>)))) w"
  using assms(1,2) assms(3) [THEN Eq_FalseI]
  by (simp add: ensure_rabbitmq_topology_def connect_if_needed_def channel_if_needed_def
      topology_cmds_def declare_and_bind_def io_bind_assoc)

lemma connect_if_needed_done:
  "connect_if_needed S c p w = (Inr v, w') \<Longrightarrow>
    trace w' = trace w @ (if p then [] else [Done (Connect (rabbitmq_url c))]) \<and>
    qmod w' = (if p then qmod w else (qmod w)\<lparr>rabbitmq_connection := True\<rparr>)"
  by (auto simp: connect_if_needed_def set_qmod_def io_bind_def dest!: broker_done
      split: if_splits prod.splits sum.splits)

lemma channel_if_needed_done:
  assumes "channel_if_needed S p w = (Inr v, w')"
  shows "trace w' = trace w @ (if p then [] else [Done OpenChannel, Done (SetQos 10)]) \<and>
    qmod w' = (if p then qmod w else (qmod w)\<lparr>rabbitmq_channel := True\<rparr>)"
proof (cases p)
  case False
  obtain r1 w1 where r1: "broker S OpenChannel w = (r1, w1)" by fastforce
  then obtain v1 where v1: "r1 = Inr v1" using assms False by (cases r1) (auto simp: channel_if_needed_def)
  let ?w2 = "w1\<lparr>qmod := (qmod w1)\<lparr>rabbitmq_channel := True\<rparr>\<rparr>"
  have "broker S (SetQos 10) ?w2 = (Inr v, w')"
    using assms False r1 v1 by (simp add: channel_if_needed_def set_qmod_def)
  from broker_done [OF this] broker_done [OF r1 [unfolded v1]] False show ?thesis by simp
qed (use assms in \<open>auto simp: channel_if_needed_def\<close>)

lemma topology_declared:
  assumes "ensure_rabbitmq_topology S c w = (Inr v, w')"
  shows "rabbitmq_channel (qmod w') \<and> topology_ready (qmod w') \<and>
    (if rabbitmq_channel (qmod w) \<and> topology_ready (qmod w) then w' = w
     else rabbitmq_connection (qmod w') \<and>
       (\<exists>pre. trace w' = trace w @ pre @ map Done (topology_cmds c) \<and> list_all preparing pre))"
proof (cases "rabbitmq_channel (qmod w) \<and> topology_ready (qmod w)")
  case True
  with assms show ?thesis by (auto simp: ensure_rabbitmq_topology_def split: if_splits)
next
  case False
  have cond: "task_queue_backend c = lit ''rabbitmq''" "aio_pika_installed S"
    using assms False by (auto simp: ensure_rabbitmq_topology_def split: if_splits)
  let ?m1 = "connect_if_needed S c (rabbitmq_connection (qmod w))"
  let ?m2 = "channel_if_needed S (rabbitmq_channel (qmod w))"
  obtain r1 w1 where r1: "?m1 w = (r1, w1)" by fastforce
  obtain v1 where v1: "r1 = Inr v1"
    using assms ensure_topology_alt [OF cond False] r1 by (cases r1) auto
  obtain r2 w2 where r2: "?m2 w1 = (r2, w2)" by fastforce
  obtain v2 where v2: "r2 = Inr v2"
    using assms ensure_topology_alt [OF cond False] r1 v1 r2 by (cases r2) auto
  obtain r3 w3 where r3: "run_cmds S (topology_cmds c) w2 = (r3, w3)" by fastforce
  obtain v3 where v3: "r3 = Inr v3"
    using assms ensure_topology_alt [OF cond False] r1 v1 r2 v2 r3 by (cases r3) auto
  have w': "w' = w3\<lparr>qmod := (qmod w3)\<lparr>topology_ready := True\<rparr>\<rparr>"
    using assms ensure_topology_alt [OF cond False] r1 v1 r2 v2 r3 v3 by (simp add: set_qmod_def)
  note steps = connect_if_needed_done [OF r1 [unfolded v1]] channel_if_needed_done [OF r2 [unfolded v2]]
    run_cmds_done [OF r3 [unfolded v3]]
  define pre where "pre =
    (if rabbitmq_connection (qmod w) then [] else [Done (Connect (rabbitmq_url c))]) @
    (if rabbitmq_channel (qmod w) then [] else [Done OpenChannel, Done (SetQos 10)])"
  have "trace w' = trace w @ pre @ map Done (topology_cmds c)"
    using steps w' by (simp add: pre_def)
  moreover have "list_all preparing pre" by (simp add: pre_def)
  moreover have "rabbitmq_connection (qmod w')" "rabbitmq_channel (qmod w')"
    using steps w' False by (auto split: if_splits)
  ultimately show ?thesis using w' False by auto
qed

section \<open>Properties\<close>

lemma small_attempt: "\<bar>n\<bar> < 10 \<Longrightarrow> \<bar>n :: int\<bar> < 10 ^ int_max_str_digits"
proof -
  assume "\<bar>n\<bar> < 10"
  also have "(10 :: int) = 10 ^ 1" by simp
  also have "(10 :: int) ^ 1 \<le> 10 ^ int_max_str_digits"
    by (rule power_increasing) (simp_all add: int_max_str_digits_def)
  finally show ?thesis .
qed

definition rabbitmq_settings :: settings where
  "rabbitmq_settings = default_settings\<lparr>task_queue_backend := lit ''rabbitmq''\<rparr>"

lemma rabbitmq_settings_backend [simp]: "task_queue_backend rabbitmq_settings = lit ''rabbitmq''"
  by (simp add: rabbitmq_settings_def)

text \<open>
  C19: what \<open>_queue_payload\<close> writes \<open>_decode_payload\<close> reads back: for every event id and every
  attempt within the interpreter's digit limit the message exists, and decoding it gives the id
  and the attempt.
\<close>

theorem message_roundtrip:
  assumes "\<bar>attempt\<bar> < 10 ^ int_max_str_digits"
  shows "\<exists>body. queue_payload event_id attempt = Inr body \<and>
    decode_payload body = Inr (event_id, attempt)"
  using queue_payload_total [OF assms] decode_queue_payload by blast

theorem message_roundtrip_witness:
  "\<exists>body. queue_payload 7 3 = Inr body \<and> decode_payload body = Inr (7, 3)"
  by (rule message_roundtrip [OF small_attempt]) simp

text \<open>
  C14: \<open>retry_or_dead_letter\<close> on RabbitMQ never loses a message. It acknowledges the message it
  holds only after the broker confirmed a copy: on the retry queue with the next attempt while
  attempts are left, on the dead-letter queue with the same attempt otherwise. If anything
  fails, whatever it is, the message is not acknowledged.
\<close>

theorem retry_or_dead_letter_routes:
  assumes "task_queue_backend c = lit ''rabbitmq''" and "env_raw_message envelope = Some tag"
  shows "case retry_or_dead_letter S c envelope w of
      (Inr action, w') \<Rightarrow> \<exists>pre p. list_all preparing pre \<and>
        trace w' = trace w @ pre @ [p, Done (Ack tag)] \<and>
        (if env_attempt envelope < rabbitmq_max_delivery_attempts c
         then action = lit ''retry'' \<and>
           published c (retry_queue_name c) (env_event_id envelope) (env_attempt envelope + 1) p
         else action = lit ''dead_letter'' \<and>
           published c (dead_letter_queue_name c) (env_event_id envelope) (env_attempt envelope) p)
    | (Inl e, w') \<Rightarrow> \<exists>es. never_acks es \<and> trace w' = trace w @ es"
proof -
  obtain r w' where run: "retry_or_dead_letter S c envelope w = (r, w')" by fastforce
  have "task_queue_backend c \<noteq> lit ''redis''" using assms(1) by simp
  then show ?thesis
    using assms(2) run
  proof (cases rule: retry_or_dead_letter_cases)
    case (moved action rk n pre p)
    then show ?thesis by (auto simp: run route_def split: if_splits)
  next
    case (kept e es)
    then show ?thesis by (auto simp: run)
  qed
qed

definition last_delivery :: queue_envelope where
  "last_delivery = \<lparr>env_event_id = 7, env_attempt = 3, env_raw_message = Some 0\<rparr>"

theorem retry_or_dead_letter_routes_witness:
  "case retry_or_dead_letter calm rabbitmq_settings last_delivery calm_start of
      (Inr action, w') \<Rightarrow> \<exists>pre p. list_all preparing pre \<and>
        trace w' = trace calm_start @ pre @ [p, Done (Ack 0)] \<and>
        (if env_attempt last_delivery < rabbitmq_max_delivery_attempts rabbitmq_settings
         then action = lit ''retry'' \<and>
           published rabbitmq_settings (retry_queue_name rabbitmq_settings)
             (env_event_id last_delivery) (env_attempt last_delivery + 1) p
         else action = lit ''dead_letter'' \<and>
           published rabbitmq_settings (dead_letter_queue_name rabbitmq_settings)
             (env_event_id last_delivery) (env_attempt last_delivery) p)
    | (Inl e, w') \<Rightarrow> \<exists>es. never_acks es \<and> trace w' = trace calm_start @ es"
  by (rule retry_or_dead_letter_routes) (simp_all add: last_delivery_def)

text \<open>
  \<open>redrive_dead_letter\<close> on RabbitMQ: when it returns, the effects are a sequence of blocks,
  one per message taken: a malformed message is dropped, any other is published to the main
  queue with attempt 1 and only then acknowledged; the ids returned are the ids published, in
  order, at most \<open>limit\<close> of them, and their number is recorded. When it
  raises, the completed blocks stand, the message in hand is not acknowledged, and nothing is
  recorded.
\<close>

lemma redrive_dead_letter_effects:
  assumes "task_queue_backend c = lit ''rabbitmq''"
  shows "case redrive_dead_letter S c limit w of
      (Inr redriven, w') \<Rightarrow> length redriven \<le> limit \<and>
        (\<exists>pre es. list_all preparing pre \<and> redrive_blocks c es redriven \<and>
          trace w' = trace w @ pre @ es) \<and>
        metrics w' = record_redrive (length redriven) (metrics w)
    | (Inl e, w') \<Rightarrow> metrics w' = metrics w \<and>
        (\<exists>pre es ids rest. list_all preparing pre \<and> redrive_blocks c es ids \<and>
        never_acks rest \<and> trace w' = trace w @ pre @ es @ rest)"
proof -
  let ?prep = "io_then (ensure_rabbitmq_topology S c) (call (broker_count S (dead_letter_queue_name c)))"
  have def: "redrive_dead_letter S c limit =
      io_then ?prep (io_bind (redrive_loop S c limit []) (\<lambda>redriven.
        io_then (set_metrics (record_redrive (length redriven))) (io_return redriven)))"
    using assms by (simp add: redrive_dead_letter_def io_bind_assoc)
  obtain r1 w1 where r1: "?prep w = (r1, w1)" by fastforce
  have "emits preparing ?prep" by (intro moves_rules)
  then obtain pre where pre: "trace w1 = trace w @ pre" "list_all preparing pre"
    using emitsD r1 by blast
  show ?thesis
  proof (cases r1)
    case (Inl e)
    have "redrive_blocks c [] []" "never_acks []" by (simp_all add: none)
    moreover have "keeps metrics ?prep" by (intro keeps_rules)
    then have "metrics w1 = metrics w" using r1 by (rule keepsD_run)
    ultimately show ?thesis using Inl pre r1 by (force simp: def)
  next
    case (Inr v)
    obtain r2 w2 where r2: "redrive_loop S c limit [] w1 = (r2, w2)" by fastforce
    have m: "metrics w2 = metrics w"
    proof -
      have "keeps metrics ?prep" by (intro keeps_rules)
      then have "metrics w1 = metrics w" using r1 by (rule keepsD_run)
      moreover have "keeps metrics (redrive_loop S c limit [])" by (rule keeps_metrics_redrive_loop)
      then have "metrics w2 = metrics w1" using r2 by (rule keepsD_run)
      ultimately show ?thesis by simp
    qed
    from redrive_loop_cases [OF r2 none, of "trace w1"] show ?thesis
      using pre r1 Inr r2 m
      by (auto simp: def set_metrics_def split: sum.splits) blast+
  qed
qed

text \<open>
  C26: \<open>enqueue_event\<close> puts exactly one message on the main queue or raises
  \<open>QueueUnavailableError\<close>, the only exception its callers handle: on RabbitMQ a message that
  decodes to the event and attempt, on Redis the id as text, which the worker parses back.
\<close>

theorem enqueue_event_effects:
  "case enqueue_event S c event_id attempt w of
      (Inr _, w') \<Rightarrow> \<exists>pre p. list_all preparing pre \<and> trace w' = trace w @ pre @ [p] \<and>
        (task_queue_backend c = lit ''rabbitmq'' \<and> published c (event_queue_name c) event_id attempt p
         \<or> task_queue_backend c = lit ''redis'' \<and>
           (\<exists>text. p = Done (RedisPush (event_queue_name c) text) \<and> parse_uuid text = Inr event_id))
    | (Inl e, w') \<Rightarrow> e = QueueUnavailableError (lit ''Failed to enqueue event'') \<and>
        (\<exists>es. never_acks es \<and> trace w' = trace w @ es)"
proof -
  obtain r w' where run: "enqueue_event S c event_id attempt w = (r, w')" by fastforce
  then show ?thesis
  proof (cases rule: enqueue_event_cases)
    case (sent_rabbitmq pre p)
    then show ?thesis unfolding run by (simp only: sum.case prod.case) blast
  next
    case (sent_redis pre)
    then show ?thesis unfolding run
      by (simp only: sum.case prod.case) (blast intro: parse_uuid_str)
  next
    case (unavailable es)
    then show ?thesis unfolding run by (simp only: sum.case prod.case) blast
  qed
qed

text \<open>
  What \<open>dequeue_event\<close> hands to the worker from RabbitMQ is the content of the one message
  it took, which stays unacknowledged; it answers nothing only when the queue was empty or the
  message was malformed, and then has acknowledged that message and no other.
\<close>

lemma dequeue_event_effects:
  assumes "task_queue_backend c = lit ''rabbitmq''"
  shows "case dequeue_event S c timeout w of
      (Inr (Some envelope), w') \<Rightarrow> \<exists>pre tag body. list_all preparing pre \<and>
        trace w' = trace w @ pre @ [Took (event_queue_name c) tag body] \<and>
        decode_payload body = Inr (env_event_id envelope, env_attempt envelope) \<and>
        env_raw_message envelope = Some tag
    | (Inr None, w') \<Rightarrow> \<exists>pre rest. list_all preparing pre \<and> trace w' = trace w @ pre @ rest \<and>
        (rest = [] \<or> (\<exists>tag body e. decode_payload body = Inl e \<and>
           rest = [Took (event_queue_name c) tag body, Done (Ack tag)]))
    | (Inl e, w') \<Rightarrow> \<exists>es. never_acks es \<and> trace w' = trace w @ es"
proof -
  obtain r w' where run: "dequeue_event S c timeout w = (r, w')" by fastforce
  with assms show ?thesis
  proof (cases rule: dequeue_rabbitmq_cases)
    case (got env tag body pre)
    then show ?thesis by (auto simp: run)
  next
    case (malformed tag body pre e)
    then show ?thesis by (simp add: run) blast
  next
    case (idle pre)
    then have "list_all preparing pre \<and> trace w' = trace w @ pre @ []" by simp
    with idle show ?thesis by (simp add: run) blast
  next
    case (failed e es)
    then show ?thesis by (auto simp: run)
  qed
qed

lemma dequeue_event_example:
  "case dequeue_event calm rabbitmq_settings 5 calm_start of
      (Inr (Some envelope), w') \<Rightarrow> \<exists>pre tag body. list_all preparing pre \<and>
        trace w' = trace calm_start @ pre @ [Took (event_queue_name rabbitmq_settings) tag body] \<and>
        decode_payload body = Inr (env_event_id envelope, env_attempt envelope) \<and>
        env_raw_message envelope = Some tag
    | (Inr None, w') \<Rightarrow> \<exists>pre rest. list_all preparing pre \<and>
        trace w' = trace calm_start @ pre @ rest \<and>
        (rest = [] \<or> (\<exists>tag body e. decode_payload body = Inl e \<and>
           rest = [Took (event_queue_name rabbitmq_settings) tag body, Done (Ack tag)]))
    | (Inl e, w') \<Rightarrow> \<exists>es. never_acks es \<and> trace w' = trace calm_start @ es"
  by (rule dequeue_event_effects) simp

text \<open>
  A first successful \<open>_ensure_rabbitmq_topology\<close> has declared the exchange and then the
  main, retry and dead-letter queues, each bound to the exchange by its own name, with the retry
  queue returning expired messages to the main one, and nothing but connecting before it; once
  the topology is ready a call does nothing at all.
\<close>

lemma ensure_topology_effects:
  "case ensure_rabbitmq_topology S c w of
      (Inr _, w') \<Rightarrow>
        if rabbitmq_channel (qmod w) \<and> topology_ready (qmod w) then w' = w
        else rabbitmq_connection (qmod w') \<and> rabbitmq_channel (qmod w') \<and> topology_ready (qmod w') \<and>
          (\<exists>pre. list_all preparing pre \<and> trace w' = trace w @ pre @ map Done (topology_cmds c))
    | (Inl e, w') \<Rightarrow> \<exists>es. list_all preparing es \<and> trace w' = trace w @ es"
proof -
  obtain r w' where run: "ensure_rabbitmq_topology S c w = (r, w')" by fastforce
  show ?thesis
  proof (cases r)
    case (Inl e)
    with emitsD [OF emits_topology run] show ?thesis by (auto simp: run)
  next
    case (Inr v)
    from topology_declared [OF run [unfolded Inr]] show ?thesis
      unfolding run Inr by (simp only: sum.case prod.case) (auto split: if_splits)
  qed
qed

end
