(* ===== verification/Database.thy ===== *)
theory Database
  imports World
begin

text \<open>
  app/db.py: the engine's arguments, sessions, and the calls on the engine. The engine and its
  pool are SQLAlchemy's: what a call on them answers comes from the services.
\<close>

section \<open>The engine\<close>

record engine_args =
  engine_url :: pystr
  echo :: bool
  pool_pre_ping :: bool
  future :: bool
  pool_size :: "nat option"
  max_overflow :: "nat option"

text \<open>\<open>x in s\<close> for two strings.\<close>

fun occurs_in :: "pystr \<Rightarrow> pystr \<Rightarrow> bool" where
  "occurs_in x [] \<longleftrightarrow> x = []"
| "occurs_in x (c # s) \<longleftrightarrow> take (length x) (c # s) = x \<or> occurs_in x s"

lemma occurs_in_iff: "occurs_in x s \<longleftrightarrow> (\<exists>a b. s = a @ x @ b)"
proof (induction s)
  case (Cons c s)
  have "take (length x) (c # s) = x \<longleftrightarrow> (\<exists>b. c # s = x @ b)"
    by (metis append_eq_conv_conj append_take_drop_id)
  then show ?case using Cons by (metis append_Cons append_Nil list.exhaust occurs_in.simps(2) list.sel(3))
qed simp

definition create_engine :: "(pystr \<Rightarrow> pystr) \<Rightarrow> settings \<Rightarrow> engine_args" where
  "create_engine lower c =
     (let u = database_url c;
          u_l = lower u;
          common = \<lparr>engine_url = u, echo = False, pool_pre_ping = True, future = True,
            pool_size = None, max_overflow = None\<rparr>
      in if occurs_in (lit ''sqlite'') u_l then common
         else common\<lparr>pool_size := Some 5, max_overflow := Some 10\<rparr>)"

section \<open>Sessions and the engine's calls\<close>

definition open_session :: "'x services \<Rightarrow> ('x world, unit) io" where
  "open_session S = io_modify (\<lambda>w. w\<lparr>ext := db_open S (ext w)\<rparr>)"

definition init_db :: "'x services \<Rightarrow> ('x world, unit) io" where
  "init_db S = call (db_create_all S)"

definition dispose_db :: "'x services \<Rightarrow> ('x world, unit) io" where
  "dispose_db S = call (db_dispose S)"

definition ping_db :: "'x services \<Rightarrow> ('x world, bool) io" where
  "ping_db S = io_catch (io_then (call (db_query S)) (io_return True)) (\<lambda>_. io_return False)"

end
