(* ===== verification/Crud.thy ===== *)
theory Crud
  imports Database "HOL-Library.List_Lexorder"
begin

text \<open>
  app/crud.py: the queries and updates of the table
  \<open>events\<close>. What a statement does to the table is a function on lists of rows; what may go
  wrong with it (a lost connection, a refused commit) comes from the services.
\<close>

section \<open>The statements, on the table\<close>

definition insert_row :: "event list \<Rightarrow> event \<Rightarrow> event list" where
  "insert_row t r = t @ [r]"

definition rows_by_id :: "event list \<Rightarrow> uuid \<Rightarrow> event list" where
  "rows_by_id t i = filter (\<lambda>r. ev_id r = i) t"

definition rows_by_delivery :: "event list \<Rightarrow> pystr \<Rightarrow> event list" where
  "rows_by_delivery t d = filter (\<lambda>r. delivery_id r = Some d) t"

text \<open>The flush of one changed object: \<open>UPDATE ... WHERE id = ...\<close>.\<close>

definition replace_row :: "event list \<Rightarrow> event \<Rightarrow> event list" where
  "replace_row t r = map (\<lambda>x. if ev_id x = ev_id r then r else x) t"

definition mark_row :: "uuid list \<Rightarrow> event \<Rightarrow> event" where
  "mark_row event_ids r =
     (if ev_id r \<in> set event_ids \<and> processing_status r \<noteq> PROCESSED
      then r\<lparr>processing_status := PENDING, error_message := None, processed_at := None\<rparr>
      else r)"

definition mark_rows :: "uuid list \<Rightarrow> event list \<Rightarrow> event list" where
  "mark_rows event_ids t = map (mark_row event_ids) t"

text \<open>
  \<open>ORDER BY received_at DESC\<close>, then \<open>LIMIT\<close> and \<open>OFFSET\<close>. The order among rows of the same
  time is the database's, which promises none: \<open>scan\<close> gives the order in which it visits the
  matching rows for this one query.
\<close>

definition select_page ::
  "(event list \<Rightarrow> event list) \<Rightarrow> nat \<Rightarrow> nat \<Rightarrow> pystr option \<Rightarrow> event list \<Rightarrow> event list" where
  "select_page scan limit offset src t =
     (let matching =
        (case src of None \<Rightarrow> t
         | Some s \<Rightarrow> if s = [] then t else filter (\<lambda>r. source r = s) t)
      in take limit (drop offset (sort_key (\<lambda>r. - received_at r) (scan matching))))"

text \<open>\<open>GROUP BY k ... ORDER BY k\<close> with \<open>count()\<close>.\<close>

definition group_count :: "(event \<Rightarrow> 'k::linorder) \<Rightarrow> event list \<Rightarrow> ('k \<times> nat) list" where
  "group_count k t = map (\<lambda>v. (v, length (filter (\<lambda>r. k r = v) t))) (sort (remdups (map k t)))"

section \<open>Reading one row or none\<close>

definition multiple_results :: exn where
  "multiple_results = External (lit ''Multiple rows were found when one or none was required'')"

definition scalar_one_or_none :: "'a list \<Rightarrow> exn + 'a option" where
  "scalar_one_or_none rows =
     (case rows of [] \<Rightarrow> Inr None | [r] \<Rightarrow> Inr (Some r) | _ \<Rightarrow> Inl multiple_results)"

definition query :: "'x services \<Rightarrow> (event list \<Rightarrow> 'a) \<Rightarrow> ('x world, 'a) io" where
  "query S f = io_then (call (db_query S)) (io_gets (\<lambda>w. f (table w)))"

section \<open>app/crud.py\<close>

definition new_event ::
  "uuid \<Rightarrow> int \<Rightarrow> pystr option \<Rightarrow> pystr option \<Rightarrow> pystr \<Rightarrow> pystr \<Rightarrow> dict \<Rightarrow> event" where
  "new_event uid now dlv req src etype data =
     \<lparr>ev_id = uid, delivery_id = dlv, request_id = req, source = src, event_type = etype,
      payload = data, received_at = now, processing_status = PENDING, processing_attempts = 0,
      processed_at = None, error_message = None\<rparr>"

definition create_event ::
  "'x services \<Rightarrow> pystr option \<Rightarrow> pystr option \<Rightarrow> pystr \<Rightarrow> pystr \<Rightarrow> dict \<Rightarrow> ('x world, event) io" where
  "create_event S dlv req src etype data =
     io_bind (ask (uuid4 S)) (\<lambda>uid.
     io_bind (ask (db_now S)) (\<lambda>now.
     let event = new_event uid now dlv req src etype data
     in io_catch
          (io_then (io_bind (io_gets table) (\<lambda>t. commit S (insert_row t event)))
          (io_then (call (db_query S))
          (io_return event)))
          (\<lambda>e. io_then (call (db_rollback S)) (io_raise e))))"

definition list_events ::
  "'x services \<Rightarrow> nat \<Rightarrow> nat \<Rightarrow> pystr option \<Rightarrow> ('x world, event list) io" where
  "list_events S limit offset src =
     io_then (call (db_query S))
             (io_gets (\<lambda>w. select_page (db_scan S (ext w) limit offset) limit offset src (table w)))"

definition get_event_by_delivery_id :: "'x services \<Rightarrow> pystr \<Rightarrow> ('x world, event option) io" where
  "get_event_by_delivery_id S d =
     io_bind (query S (\<lambda>t. rows_by_delivery t d)) (\<lambda>rows. io_lift (scalar_one_or_none rows))"

definition get_event_by_id :: "'x services \<Rightarrow> uuid \<Rightarrow> ('x world, event option) io" where
  "get_event_by_id S i =
     io_bind (query S (\<lambda>t. rows_by_id t i)) (\<lambda>rows. io_lift (scalar_one_or_none rows))"

record events_summary =
  total :: nat
  pending :: nat
  processed :: nat
  failed :: nat
  by_source :: "(pystr \<times> nat) list"

definition counts_get :: "('k \<times> nat) list \<Rightarrow> 'k \<Rightarrow> nat" where
  "counts_get rows k = (case map_of rows k of None \<Rightarrow> 0 | Some n \<Rightarrow> n)"

definition get_events_summary :: "'x services \<Rightarrow> ('x world, events_summary) io" where
  "get_events_summary S =
     io_bind (query S length) (\<lambda>n.
     io_bind (query S (group_count processing_status)) (\<lambda>status_rows.
     io_bind (query S (group_count source)) (\<lambda>source_rows.
     io_return
       \<lparr>total = n,
        pending = counts_get status_rows PENDING,
        processed = counts_get status_rows PROCESSED,
        failed = counts_get status_rows FAILED,
        by_source = source_rows\<rparr>)))"

definition mark_events_pending :: "'x services \<Rightarrow> uuid list \<Rightarrow> ('x world, unit) io" where
  "mark_events_pending S event_ids =
     (if event_ids = [] then io_return ()
      else io_then (call (db_query S))
             (io_bind (io_gets table) (\<lambda>t. commit S (mark_rows event_ids t))))"

section \<open>The store as its clients see it\<close>

text \<open>
  The contract the handlers and the processor rely on: what a lookup by id returns after each of
  the three writes. What follows from it about a row's state holds for any such store.
\<close>

definition find_event :: "event list \<Rightarrow> uuid \<Rightarrow> event option" where
  "find_event t i = List.find (\<lambda>r. ev_id r = i) t"

locale event_store =
  fixes find :: "'t \<Rightarrow> uuid \<Rightarrow> event option"
    and insert :: "'t \<Rightarrow> event \<Rightarrow> 't"
    and replace :: "'t \<Rightarrow> event \<Rightarrow> 't"
    and mark :: "uuid list \<Rightarrow> 't \<Rightarrow> 't"
  assumes find_ev_id: "find t i = Some r \<Longrightarrow> ev_id r = i"
    and find_insert: "find t (ev_id r) = None \<Longrightarrow>
      find (insert t r) i = (if i = ev_id r then Some r else find t i)"
    and find_replace: "find t (ev_id r) \<noteq> None \<Longrightarrow>
      find (replace t r) i = (if i = ev_id r then Some r else find t i)"
    and find_mark: "find (mark event_ids t) i = map_option (mark_row event_ids) (find t i)"
begin

lemma mark_keeps_processed:
  "find t i = Some r \<Longrightarrow> processing_status r = PROCESSED \<Longrightarrow> find (mark event_ids t) i = Some r"
  by (simp add: find_mark mark_row_def)

lemma insert_keeps: "find t (ev_id r) = None \<Longrightarrow> find t i = Some r' \<Longrightarrow> find (insert t r) i = Some r'"
  by (auto simp: find_insert)

lemma mark_resets:
  "find t i = Some r \<Longrightarrow> i \<in> set event_ids \<Longrightarrow> processing_status r \<noteq> PROCESSED \<Longrightarrow>
    find (mark event_ids t) i =
      Some (r\<lparr>processing_status := PENDING, error_message := None, processed_at := None\<rparr>)"
  by (auto simp: find_mark mark_row_def dest: find_ev_id)

lemma mark_other: "i \<notin> set event_ids \<Longrightarrow> find (mark event_ids t) i = find t i"
  by (cases "find t i") (auto simp: find_mark mark_row_def dest: find_ev_id)

lemma replace_replace:
  "find t (ev_id r) \<noteq> None \<Longrightarrow> ev_id r' = ev_id r \<Longrightarrow>
    find (replace (replace t r) r') i = find (replace t r') i"
  by (simp add: find_replace)

end

lemma ev_id_mark_row [simp]: "ev_id (mark_row ids r) = ev_id r"
  by (simp add: mark_row_def)

lemma delivery_id_mark_row [simp]: "delivery_id (mark_row ids r) = delivery_id r"
  by (simp add: mark_row_def)

lemma find_event_simps [simp]:
  "find_event [] i = None"
  "find_event (r # t) i = (if ev_id r = i then Some r else find_event t i)"
  by (simp_all add: find_event_def)

lemma find_event_append:
  "find_event (t @ u) i = (case find_event t i of None \<Rightarrow> find_event u i | Some r \<Rightarrow> Some r)"
  by (induction t) auto

lemma find_event_Some_ev_id: "find_event t i = Some r \<Longrightarrow> ev_id r = i \<and> r \<in> set t"
  by (induction t) (auto split: if_splits)

lemma find_event_None: "find_event t i = None \<longleftrightarrow> (\<forall>r \<in> set t. ev_id r \<noteq> i)"
  by (induction t) auto

lemma find_event_notin [simp]: "i \<notin> ev_id ` set t \<Longrightarrow> find_event t i = None"
  by (auto simp: find_event_None)

lemma find_event_mem: "distinct (map ev_id t) \<Longrightarrow> r \<in> set t \<Longrightarrow> find_event t (ev_id r) = Some r"
  by (induction t) auto

lemma find_event_replace:
  "find_event (replace_row t r) i =
     (if i = ev_id r then map_option (\<lambda>_. r) (find_event t i) else find_event t i)"
  by (induction t) (auto simp: replace_row_def)

lemma find_event_mark: "find_event (mark_rows ids t) i = map_option (mark_row ids) (find_event t i)"
  by (induction t) (auto simp: mark_rows_def)

interpretation rows: event_store find_event insert_row replace_row mark_rows
  by unfold_locales
    (auto simp: insert_row_def find_event_append find_event_replace find_event_mark
      dest: find_event_Some_ev_id split: option.splits)

text \<open>With the declared constraints, the one-or-none reads return the row they are after.\<close>

lemma rows_by_id_distinct:
  "distinct (map ev_id t) \<Longrightarrow> rows_by_id t i = (case find_event t i of None \<Rightarrow> [] | Some r \<Rightarrow> [r])"
  by (induction t) (auto simp: rows_by_id_def find_event_None filter_empty_conv
      dest: find_event_Some_ev_id split: option.splits)

lemma scalar_by_id:
  "distinct (map ev_id t) \<Longrightarrow> scalar_one_or_none (rows_by_id t i) = Inr (find_event t i)"
  by (simp add: rows_by_id_distinct scalar_one_or_none_def split: option.splits)

lemma rows_by_delivery_distinct:
  assumes "distinct (delivery_ids t)"
  shows "rows_by_delivery t d = [] \<or> (\<exists>r \<in> set t. rows_by_delivery t d = [r] \<and> delivery_id r = Some d)"
proof (cases "rows_by_delivery t d")
  case (Cons r rs)
  have "length (filter (\<lambda>r. delivery_id r = Some d) t) \<le> 1"
    using assms
  proof (induction t)
    case (Cons x t)
    then show ?case
      by (auto simp: delivery_ids_mem filter_empty_conv split: option.splits)
  qed simp
  with Cons have "rs = []" by (simp add: rows_by_delivery_def)
  moreover have "r \<in> set (rows_by_delivery t d)" using Cons by simp
  ultimately show ?thesis using Cons by (auto simp: rows_by_delivery_def)
qed simp

lemma constraints_replace: "constraints (replace_row t r) \<longleftrightarrow> constraints t"
  if "\<And>x. x \<in> set t \<Longrightarrow> ev_id x = ev_id r \<Longrightarrow> delivery_id x = delivery_id r"
proof -
  have "map ev_id (replace_row t r) = map ev_id t"
    by (auto simp: replace_row_def)
  moreover have "map delivery_id (replace_row t r) = map delivery_id t"
    using that by (auto simp: replace_row_def)
  ultimately show ?thesis
    by (simp add: constraints_def delivery_ids_cong [of "replace_row t r" t])
qed

lemma constraints_mark: "constraints (mark_rows ids t) \<longleftrightarrow> constraints t"
proof -
  have "map ev_id (mark_rows ids t) = map ev_id t" "map delivery_id (mark_rows ids t) = map delivery_id t"
    by (auto simp: mark_rows_def)
  then show ?thesis
    by (simp add: constraints_def delivery_ids_cong [of "mark_rows ids t" t])
qed

section \<open>Counts\<close>

lemma map_of_graph: "map_of (map (\<lambda>v. (v, f v)) xs) v = (if v \<in> set xs then Some (f v) else None)"
  by (induction xs) auto

lemma counts_get_group: "counts_get (group_count k t) v = length (filter (\<lambda>r. k r = v) t)"
proof -
  have "map_of (group_count k t) v =
      (if v \<in> k ` set t then Some (length (filter (\<lambda>r. k r = v) t)) else None)"
    by (simp add: group_count_def map_of_graph)
  moreover have "length (filter (\<lambda>r. k r = v) t) = 0" if "v \<notin> k ` set t"
    using that by (auto simp: filter_empty_conv)
  ultimately show ?thesis by (auto simp: counts_get_def)
qed

lemma sum_count_filter:
  "finite A \<Longrightarrow> k ` set t \<subseteq> A \<Longrightarrow> (\<Sum>v \<in> A. length (filter (\<lambda>r. k r = v) t)) = length t"
proof (induction t)
  case (Cons r t)
  have "(\<Sum>v \<in> A. length (filter (\<lambda>x. k x = v) (r # t))) =
      (\<Sum>v \<in> A. (if k r = v then 1 else 0) + length (filter (\<lambda>x. k x = v) t))"
    by (rule sum.cong) auto
  also have "\<dots> = (\<Sum>v \<in> A. if k r = v then 1 else 0) + length t"
    using Cons by (simp add: sum.distrib)
  finally show ?case using Cons.prems by simp
qed simp

lemma sum_group_count: "sum_list (map snd (group_count k t)) = length t"
proof -
  have "sum_list (map snd (group_count k t)) =
      (\<Sum>v \<leftarrow> sort (remdups (map k t)). length (filter (\<lambda>r. k r = v) t))"
    by (simp add: group_count_def o_def)
  also have "\<dots> = (\<Sum>v \<in> k ` set t. length (filter (\<lambda>r. k r = v) t))"
    by (simp add: sum_list_distinct_conv_sum_set)
  finally show ?thesis by (simp add: sum_count_filter)
qed

lemma sorted_group_count: "sorted (map fst (group_count k t)) \<and> distinct (map fst (group_count k t))"
  by (simp add: group_count_def o_def)

section \<open>Running the statements\<close>

lemma query_run:
  "query S f w =
     (case db_query S (ext w) of
        (Inl e, x) \<Rightarrow> (Inl e, w\<lparr>ext := x\<rparr>)
      | (Inr u, x) \<Rightarrow> (Inr (f (table w)), w\<lparr>ext := x\<rparr>))"
  by (auto simp: query_def call_def io_bind_def split: prod.splits sum.splits)

lemma keeps_query [keeps_rules]:
  "keeps table (query S f)" "keeps tasks (query S f)" "keeps metrics (query S f)"
  unfolding query_def by (intro keeps_rules)+

lemma keeps_statements [keeps_rules]:
  "keeps trace (query S f)" "keeps qmod (query S f)"
  "keeps trace (commit S t)" "keeps tasks (commit S t)" "keeps metrics (commit S t)" "keeps qmod (commit S t)"
  by (auto simp: keeps_def query_run commit_run split: prod.splits sum.splits)

lemma keeps_lookups [keeps_rules]:
  "keeps table (get_event_by_id S i)" "keeps table (get_event_by_delivery_id S d)"
  "keeps table (list_events S limit offset src)" "keeps table (get_events_summary S)"
  "keeps table (ping_db S)"
  unfolding get_event_by_id_def get_event_by_delivery_id_def list_events_def get_events_summary_def
    ping_db_def
  by (intro keeps_rules)+

lemma create_event_cases:
  assumes "create_event S dlv req src etype data w = (r, w')"
  obtains (created) event where "r = Inr event" "table w' = insert_row (table w) event"
      "event = new_event (ev_id event) (received_at event) dlv req src etype data"
      "\<exists>x. fst (db_commit S (table w') x) = Inr ()"
  | (refused) e where "r = Inl e" "table w' = table w"
  | (unread) e event where "r = Inl e" "table w' = insert_row (table w) event"
      "event = new_event (ev_id event) (received_at event) dlv req src etype data"
      "\<exists>x. fst (db_commit S (table w') x) = Inr ()"
proof -
  obtain uid x1 where u: "uuid4 S (ext w) = (uid, x1)" by fastforce
  obtain now x2 where n: "db_now S x1 = (now, x2)" by fastforce
  define event where "event = new_event uid now dlv req src etype data"
  have event: "event = new_event (ev_id event) (received_at event) dlv req src etype data"
    by (simp add: event_def new_event_def)
  obtain c x3 where c: "db_commit S (insert_row (table w) event) x2 = (c, x3)" by fastforce
  have "\<exists>x. fst (db_commit S (insert_row (table w) event) x) = Inr ()" if "c = Inr ()"
    using c that by (intro exI [of _ x2]) simp
  note accepted = this
  note run = create_event_def ask_def io_bind_def io_catch_def commit_run call_def u n c event_def [symmetric] Let_def
  show thesis
  proof (cases c)
    case (Inl e)
    with assms show thesis
      by (auto simp: run split: prod.splits sum.splits intro: refused)
  next
    case (Inr p)
    have acc: "\<exists>x. fst (db_commit S (insert_row (table w) event) x) = Inr ()"
      using Inr by (intro accepted) simp
    obtain q x4 where q: "db_query S x3 = (q, x4)" by fastforce
    show thesis
    proof (cases q)
      case err: (Inl e)
      obtain e' where "r = Inl e'" and "table w' = insert_row (table w) event"
        using assms Inr err q by (auto simp: run split: prod.splits sum.splits)
      with event acc show thesis by (intro unread) simp_all
    next
      case (Inr p)
      with assms \<open>c = Inr _\<close> q have "r = Inr event" and "table w' = insert_row (table w) event"
        by (auto simp: run split: prod.splits sum.splits)
      with event acc show thesis by (intro created) simp_all
    qed
  qed
qed

lemma mark_events_pending_cases:
  assumes "mark_events_pending S event_ids w = (r, w')"
  shows "r = Inr () \<and> table w' = mark_rows event_ids (table w) \<or>
    (\<exists>e. r = Inl e \<and> event_ids \<noteq> [] \<and> table w' = table w)"
proof -
  have "mark_rows [] (table w) = table w"
    by (simp add: mark_rows_def mark_row_def map_idI)
  with assms show ?thesis
    by (auto simp: mark_events_pending_def io_bind_def call_def commit_run
        split: if_splits prod.splits sum.splits)
qed

end
