(* ===== verification/Processor.thy ===== *)
theory Processor
  imports Crud PyJson
begin

text \<open>app/services/processor.py: one attempt at processing an event.\<close>

section \<open>The attempt\<close>

text \<open>\<open>int(payload.get('fail_attempts_remaining', 0) or 0)\<close>\<close>

definition remaining_failures :: "dict \<Rightarrow> exn + int" where
  "remaining_failures data =
     (let v = (case dict_get data (lit ''fail_attempts_remaining'') of None \<Rightarrow> JInt 0 | Some v \<Rightarrow> v)
      in json_int (if truthy v then v else JInt 0))"

definition force_failure :: "dict \<Rightarrow> bool" where
  "force_failure data \<longleftrightarrow> dict_get data (lit ''force_failure'') = Some (JBool True)"

text \<open>
  The part of the \<open>try\<close> block before the state is set, as a computation on the event object: it
  may have replaced the payload when it raises.
\<close>

definition attempt_work :: "(event, unit) io" where
  "attempt_work =
     io_bind (io_gets payload) (\<lambda>data.
     io_bind (io_lift (remaining_failures data)) (\<lambda>n.
     if 0 < n then
       io_then (io_modify (\<lambda>event. event\<lparr>payload :=
                  dict_set data (lit ''fail_attempts_remaining'') (JInt (n - 1))\<rparr>))
               (io_raise (ValueError (lit ''Synthetic transient processing failure requested by payload'')))
     else if force_failure data then
       io_raise (ValueError (lit ''Synthetic processing failure requested by payload''))
     else io_return ()))"

text \<open>
  \<open>session.commit()\<close> once the event object has the value \<open>event\<close>, when the row is still as it was
  loaded: the row becomes \<open>event\<close>. (Overlap has the session whose row has changed meanwhile.)
\<close>

definition commit_event :: "'x services \<Rightarrow> event \<Rightarrow> ('x world, unit) io" where
  "commit_event S event = io_bind (io_gets table) (\<lambda>t. commit S (replace_row t event))"

definition record_outcome ::
  "'x services \<Rightarrow> event \<Rightarrow> string \<Rightarrow> int \<Rightarrow> ('x world, unit) io" where
  "record_outcome S event outcome started =
     io_bind (ask (perf_counter S)) (\<lambda>finished.
       set_metrics (record_processing (source event) (lit outcome) (finished - started)))"

definition completed :: "int \<Rightarrow> event \<Rightarrow> event" where
  "completed now event =
     event\<lparr>processing_status := PROCESSED, processed_at := Some now, error_message := None\<rparr>"

definition rejected :: "bool \<Rightarrow> pystr \<Rightarrow> event \<Rightarrow> event" where
  "rejected final_attempt message event =
     event\<lparr>processing_status := (if final_attempt then FAILED else PENDING),
           processed_at := None, error_message := Some message\<rparr>"

text \<open>The \<open>except\<close> block. \<open>session\<close> is the commit of the session that was handed in.\<close>

definition process_failed ::
  "'x services \<Rightarrow> (event \<Rightarrow> ('x world, unit) io) \<Rightarrow> event \<Rightarrow> bool \<Rightarrow> int \<Rightarrow> exn \<Rightarrow>
    ('x world, bool) io" where
  "process_failed S session event final_attempt started exc =
     (let event = rejected final_attempt (exn_text S exc) event
      in io_then (session event)
        (io_then (record_outcome S event (if final_attempt then ''failed'' else ''retry'') started)
                 (io_return False)))"

definition process_event ::
  "'x services \<Rightarrow> (event \<Rightarrow> ('x world, unit) io) \<Rightarrow> event \<Rightarrow> bool \<Rightarrow> ('x world, bool) io" where
  "process_event S session event final_attempt =
     io_bind (ask (perf_counter S)) (\<lambda>started.
       case attempt_work (event\<lparr>processing_attempts := processing_attempts event + 1\<rparr>) of
         (Inl exc, event) \<Rightarrow> process_failed S session event final_attempt started exc
       | (Inr _, event) \<Rightarrow>
           io_bind (ask (utc_now S)) (\<lambda>now.
           let event = completed now event
           in io_catch
                (io_then (session event)
                (io_then (record_outcome S event ''processed'' started)
                         (io_return True)))
                (process_failed S session event final_attempt started)))"

definition process_event_by_id :: "'x services \<Rightarrow> uuid \<Rightarrow> bool \<Rightarrow> ('x world, bool) io" where
  "process_event_by_id S event_id final_attempt =
     io_then (open_session S)
    (io_bind (query S (\<lambda>t. find_event t event_id)) (\<lambda>obj.
       case obj of
         None \<Rightarrow> io_return True
       | Some event \<Rightarrow> process_event S (commit_event S) event final_attempt))"

section \<open>What an attempt does\<close>

text \<open>The reading of a payload: whether an attempt at it goes through.\<close>

definition will_pass :: "dict \<Rightarrow> bool" where
  "will_pass data \<longleftrightarrow> (\<exists>n \<le> 0. remaining_failures data = Inr n) \<and> \<not> force_failure data"

text \<open>The payload and the exception of an attempt that does not go through.\<close>

definition attempt_failure :: "dict \<Rightarrow> dict \<Rightarrow> exn \<Rightarrow> bool" where
  "attempt_failure data data' e \<longleftrightarrow>
     (case remaining_failures data of
        Inl e' \<Rightarrow> e = e' \<and> data' = data
      | Inr n \<Rightarrow>
          if 0 < n
          then e = ValueError (lit ''Synthetic transient processing failure requested by payload'') \<and>
            data' = dict_set data (lit ''fail_attempts_remaining'') (JInt (n - 1))
          else force_failure data \<and> data' = data \<and>
            e = ValueError (lit ''Synthetic processing failure requested by payload''))"

lemma attempt_work_run:
  "attempt_work event =
     (case remaining_failures (payload event) of
        Inl e \<Rightarrow> (Inl e, event)
      | Inr n \<Rightarrow>
          if 0 < n then
            (Inl (ValueError (lit ''Synthetic transient processing failure requested by payload'')),
             event\<lparr>payload := dict_set (payload event) (lit ''fail_attempts_remaining'') (JInt (n - 1))\<rparr>)
          else if force_failure (payload event) then
            (Inl (ValueError (lit ''Synthetic processing failure requested by payload'')), event)
          else (Inr (), event))"
  by (cases "remaining_failures (payload event)") (simp_all add: attempt_work_def)

lemma attempt_work_passes: "attempt_work event = (Inr v, event') \<Longrightarrow> will_pass (payload event) \<and> event' = event"
  by (auto simp: attempt_work_run will_pass_def split: sum.splits if_splits)

lemma attempt_work_fails:
  assumes "attempt_work event = (Inl e, event')"
  obtains data where "\<not> will_pass (payload event)" "attempt_failure (payload event) data e"
    "event' = event\<lparr>payload := data\<rparr>"
proof (cases "remaining_failures (payload event)")
  case (Inl err)
  with assms show thesis
    by (intro that [of "payload event"]) (simp_all add: attempt_work_run will_pass_def attempt_failure_def)
next
  case (Inr n)
  show thesis
  proof (cases "0 < n")
    case True
    with Inr assms show thesis
      by (intro that [of "payload event'"])
        (auto simp: attempt_work_run will_pass_def attempt_failure_def)
  next
    case False
    with Inr assms show thesis
      by (intro that [of "payload event"])
        (auto simp: attempt_work_run will_pass_def attempt_failure_def split: if_splits)
  qed
qed

lemma commit_event_run:
  "commit_event S event w =
     (case db_commit S (replace_row (table w) event) (ext w) of
        (Inl e, x) \<Rightarrow> (Inl e, w\<lparr>ext := x\<rparr>)
      | (Inr u, x) \<Rightarrow> (Inr u, w\<lparr>ext := x, table := replace_row (table w) event\<rparr>))"
  by (simp add: commit_event_def io_bind_def commit_run)

lemma record_outcome_frame:
  "record_outcome S event outcome started w = (r, w') \<Longrightarrow>
    r = Inr () \<and> table w' = table w \<and> trace w' = trace w \<and> tasks w' = tasks w \<and> qmod w' = qmod w"
  by (auto simp: record_outcome_def ask_def io_bind_def set_metrics_def split: prod.splits)

lemma process_failed_cases:
  assumes "process_failed S (commit_event S) event final started exc w = (r, w')"
  obtains (committed) "r = Inr False"
      "table w' = replace_row (table w) (rejected final (exn_text S exc) event)"
  | (error) e x where "r = Inl e" "table w' = table w"
      "db_commit S (replace_row (table w) (rejected final (exn_text S exc) event)) (ext w) = (Inl e, x)"
proof -
  let ?ev = "rejected final (exn_text S exc) event"
  obtain c x where c: "db_commit S (replace_row (table w) ?ev) (ext w) = (c, x)" by fastforce
  show thesis
  proof (cases c)
    case (Inl e)
    with assms c show thesis
      by (intro error [of e x]) (auto simp: process_failed_def io_bind_def commit_event_run Let_def)
  next
    case (Inr u)
    define w1 where "w1 = w\<lparr>ext := x, table := replace_row (table w) ?ev\<rparr>"
    let ?out = "if final then ''failed'' else ''retry''"
    obtain r2 w2 where r2: "record_outcome S ?ev ?out started w1 = (r2, w2)" by fastforce
    have "r = Inr False \<and> w' = w2"
      using assms c Inr r2 record_outcome_frame [OF r2]
      by (simp add: process_failed_def io_bind_def commit_event_run w1_def Let_def)
    with record_outcome_frame [OF r2] show thesis by (intro committed) (simp_all add: w1_def)
  qed
qed

text \<open>
  Every outcome of \<open>process_event\<close> in terms of the row it was given. In the last case of a
  failure the attempt went through, but the commit of its success was refused.
\<close>

lemma process_event_cases:
  assumes "process_event S (commit_event S) event final w = (r, w')"
  obtains (processed) now where "r = Inr True" "will_pass (payload event)"
      "table w' = replace_row (table w)
        (completed now (event\<lparr>processing_attempts := processing_attempts event + 1\<rparr>))"
  | (failed) data e where "r = Inr False" "attempt_failure (payload event) data e"
      "\<not> will_pass (payload event)"
      "table w' = replace_row (table w) (rejected final (exn_text S e)
        (event\<lparr>processing_attempts := processing_attempts event + 1, payload := data\<rparr>))"
  | (uncommitted) x e x' now u x'' where "r = Inr False" "will_pass (payload event)"
      "table w' = replace_row (table w) (rejected final (exn_text S e)
        (event\<lparr>processing_attempts := processing_attempts event + 1\<rparr>))"
      "db_commit S (replace_row (table w)
        (completed now (event\<lparr>processing_attempts := processing_attempts event + 1\<rparr>))) x = (Inl e, x')"
      "db_commit S (table w') x' = (Inr u, x'')"
  | (error) e row x x' where "r = Inl e" "table w' = table w" "ev_id row = ev_id event"
      "delivery_id row = delivery_id event" "db_commit S (replace_row (table w) row) x = (Inl e, x')"
proof -
  let ?ev = "event\<lparr>processing_attempts := processing_attempts event + 1\<rparr>"
  obtain started x0 where p: "perf_counter S (ext w) = (started, x0)" by fastforce
  define w0 where "w0 = w\<lparr>ext := x0\<rparr>"
  have t0: "table w0 = table w" by (simp add: w0_def)
  obtain r1 ev1 where a: "attempt_work ?ev = (r1, ev1)" by fastforce
  show thesis
  proof (cases r1)
    case (Inl exc)
    have run: "process_failed S (commit_event S) ev1 final started exc w0 = (r, w')"
      using assms p a Inl by (simp add: process_event_def ask_def io_bind_def w0_def)
    obtain data where fail: "\<not> will_pass (payload event)" "attempt_failure (payload event) data exc"
      and ev1: "ev1 = ?ev\<lparr>payload := data\<rparr>"
      using attempt_work_fails [OF a [unfolded Inl]] by auto
    from run show thesis
    proof (cases rule: process_failed_cases)
      case committed
      with fail ev1 t0 show thesis by (intro failed [of data exc]) simp_all
    next
      case (error e x)
      with ev1 t0 show thesis by (intro that(4)) (simp_all add: rejected_def)
    qed
  next
    case (Inr v)
    have pass: "will_pass (payload event)" and ev1: "ev1 = ?ev"
      using attempt_work_passes [OF a [unfolded Inr]] by auto
    obtain now x1 where n: "utc_now S x0 = (now, x1)" by fastforce
    define w1 where "w1 = w\<lparr>ext := x1\<rparr>"
    let ?done = "completed now ?ev"
    have run: "io_catch (io_then (commit_event S ?done)
        (io_then (record_outcome S ?done ''processed'' started) (io_return True)))
        (process_failed S (commit_event S) ?done final started) w1 = (r, w')"
      using assms p a Inr ev1 n by (simp add: process_event_def ask_def io_bind_def w1_def Let_def)
    obtain c x2 where c: "db_commit S (replace_row (table w) ?done) x1 = (c, x2)" by fastforce
    show thesis
    proof (cases c)
      case (Inr u)
      with run c have "r = Inr True \<and> table w' = replace_row (table w) ?done"
        by (auto simp: io_catch_def io_bind_def commit_event_run w1_def
            split: prod.splits sum.splits dest!: record_outcome_frame)
      with pass show thesis by (intro processed [of now]) simp_all
    next
      case (Inl e)
      define w2 where "w2 = w1\<lparr>ext := x2\<rparr>"
      have "process_failed S (commit_event S) ?done final started e w2 = (r, w')"
        using run c Inl by (simp add: io_catch_def io_bind_def commit_event_run w1_def w2_def)
      then show thesis
      proof (cases rule: process_failed_cases)
        case committed
        have same: "rejected final (exn_text S e) ?done = rejected final (exn_text S e) ?ev"
          by (simp add: rejected_def completed_def)
        then have t: "table w' = replace_row (table w) (rejected final (exn_text S e) ?ev)"
          using committed by (simp add: w2_def w1_def)
        have "\<exists>u x3. db_commit S (table w') x2 = (Inr u, x3)"
          using \<open>process_failed S (commit_event S) ?done final started e w2 = (r, w')\<close> committed t same
          by (cases "db_commit S (table w') x2")
            (auto simp: process_failed_def Let_def io_bind_def commit_event_run w2_def w1_def
              split: sum.splits)
        then obtain u x3 where "db_commit S (table w') x2 = (Inr u, x3)" by blast
        with committed t pass c Inl show thesis by (intro uncommitted [of e now x1 x2 u x3]) simp_all
      next
        case (error e x)
        then show thesis by (intro that(4)) (simp_all add: w2_def w1_def rejected_def completed_def)
      qed
    qed
  qed
qed

lemma process_event_by_id_run:
  "process_event_by_id S i final w =
    (case db_query S (db_open S (ext w)) of
       (Inl e, x) \<Rightarrow> (Inl e, w\<lparr>ext := x\<rparr>)
     | (Inr _, x) \<Rightarrow>
         (case find_event (table w) i of
            None \<Rightarrow> (Inr True, w\<lparr>ext := x\<rparr>)
          | Some event \<Rightarrow> process_event S (commit_event S) event final (w\<lparr>ext := x\<rparr>)))"
  by (simp add: process_event_by_id_def open_session_def io_bind_def query_run
      split: prod.splits sum.splits option.splits)

text \<open>The row an attempt leaves behind.\<close>

definition attempted :: "event \<Rightarrow> event" where
  "attempted event = event\<lparr>processing_attempts := processing_attempts event + 1\<rparr>"

lemma process_event_by_id_cases:
  assumes "process_event_by_id S i final w = (r, w')"
  obtains (missing) "r = Inr True" "find_event (table w) i = None" "table w' = table w"
  | (processed) event now where "r = Inr True" "find_event (table w) i = Some event"
      "will_pass (payload event)"
      "table w' = replace_row (table w) (completed now (attempted event))"
  | (failed) event data e where "r = Inr False" "find_event (table w) i = Some event"
      "\<not> will_pass (payload event)" "attempt_failure (payload event) data e"
      "table w' = replace_row (table w) (rejected final (exn_text S e) ((attempted event)\<lparr>payload := data\<rparr>))"
  | (uncommitted) event x e x' now u x'' where "r = Inr False" "find_event (table w) i = Some event"
      "will_pass (payload event)"
      "table w' = replace_row (table w) (rejected final (exn_text S e) (attempted event))"
      "db_commit S (replace_row (table w) (completed now (attempted event))) x = (Inl e, x')"
      "db_commit S (table w') x' = (Inr u, x'')"
  | (unread) e x x' where "r = Inl e" "table w' = table w" "db_query S x = (Inl e, x')"
  | (error) e event row x x' where "r = Inl e" "table w' = table w" "find_event (table w) i = Some event"
      "ev_id row = ev_id event" "delivery_id row = delivery_id event"
      "db_commit S (replace_row (table w) row) x = (Inl e, x')"
proof -
  obtain q x where q: "db_query S (db_open S (ext w)) = (q, x)" by fastforce
  show thesis
  proof (cases q)
    case (Inl e)
    with assms q show thesis by (intro unread [of e]) (auto simp: process_event_by_id_run)
  next
    case (Inr v)
    show thesis
    proof (cases "find_event (table w) i")
      case None
      with assms q Inr show thesis by (intro missing) (auto simp: process_event_by_id_run)
    next
      case (Some event)
      have "process_event S (commit_event S) event final (w\<lparr>ext := x\<rparr>) = (r, w')"
        using assms q Inr Some by (simp add: process_event_by_id_run)
      then show thesis
      proof (cases rule: process_event_cases)
        case (processed now)
        with Some show thesis by (intro that(2)) (simp_all add: attempted_def)
      next
        case (failed data e)
        with Some show thesis by (intro that(3)) (simp_all add: attempted_def)
      next
        case (uncommitted x e x' now u x'')
        with Some show thesis by (intro that(4)) (simp_all add: attempted_def)
      next
        case (error e row x x')
        with Some show thesis by (intro that(6)) simp_all
      qed
    qed
  qed
qed

section \<open>Frames\<close>

lemma keeps_open_session [keeps_rules]:
  "keeps table (open_session S)" "keeps trace (open_session S)" "keeps tasks (open_session S)"
  "keeps metrics (open_session S)" "keeps qmod (open_session S)"
  unfolding open_session_def by (simp_all add: keeps_modify)

lemma keeps_trace_ask [keeps_rules]: "keeps trace (ask f)" "keeps qmod (ask f)"
  by (auto simp: keeps_def ask_def split: prod.splits)

lemma keeps_trace_call [keeps_rules]: "keeps trace (call f)"
  by (auto simp: keeps_def call_def split: prod.splits)

lemma keeps_trace_process [keeps_rules]: "keeps trace (process_event_by_id S i final)"
  unfolding process_event_by_id_def process_event_def process_failed_def commit_event_def
    record_outcome_def
  by (intro keeps_rules)

lemma keeps_tasks_process [keeps_rules]: "keeps tasks (process_event_by_id S i final)"
  unfolding process_event_by_id_def process_event_def process_failed_def commit_event_def
    record_outcome_def
  by (intro keeps_rules)

lemma emits_process [moves_rules]: "emits P (process_event_by_id S i final)"
  by (rule emits_keeps [OF keeps_trace_process])

section \<open>Rows before and after\<close>

lemma ev_id_states [simp]:
  "ev_id (completed now r) = ev_id r" "ev_id (rejected f m r) = ev_id r" "ev_id (attempted r) = ev_id r"
  by (simp_all add: completed_def rejected_def attempted_def)

lemma find_replaced:
  "find_event t i = Some r \<Longrightarrow> ev_id r' = ev_id r \<Longrightarrow>
    find_event (replace_row t r') j = (if j = i then Some r' else find_event t j)"
  using rows.find_ev_id [of t i r] by (simp add: rows.find_replace)

text \<open>
  C20: what one attempt does to the event's row, on every branch. It returns true when there is no
  such event or the row has become PROCESSED, with a time, no error and one attempt more; it
  returns false when the row has become FAILED (on the final attempt) or PENDING, with the text
  of the exception, no time and one attempt more; if it raises, no row has changed. The payload
  changes only by the countdown of \<open>fail_attempts_remaining\<close>. No other row is touched.
\<close>

theorem process_event_by_id_outcomes:
  "case process_event_by_id S i final w of
      (Inr True, w') \<Rightarrow>
        find_event (table w) i = None \<and> table w' = table w \<or>
        (\<exists>event now. find_event (table w) i = Some event \<and> will_pass (payload event) \<and>
          table w' = replace_row (table w) (event\<lparr>processing_attempts := processing_attempts event + 1,
            processing_status := PROCESSED, processed_at := Some now, error_message := None\<rparr>))
    | (Inr False, w') \<Rightarrow>
        \<exists>event data e. find_event (table w) i = Some event \<and>
          (attempt_failure (payload event) data e \<or> will_pass (payload event) \<and> data = payload event) \<and>
          table w' = replace_row (table w) (event\<lparr>processing_attempts := processing_attempts event + 1,
            payload := data, processing_status := (if final then FAILED else PENDING),
            processed_at := None, error_message := Some (exn_text S e)\<rparr>)
    | (Inl _, w') \<Rightarrow> table w' = table w"
proof -
  obtain r w' where run: "process_event_by_id S i final w = (r, w')" by fastforce
  then show ?thesis
  proof (cases rule: process_event_by_id_cases)
    case missing
    then show ?thesis by (simp add: run)
  next
    case (processed event now)
    then show ?thesis by (simp add: run completed_def attempted_def) blast
  next
    case (failed event data e)
    then show ?thesis by (simp add: run rejected_def attempted_def) blast
  next
    case (uncommitted event x e x' now u x'')
    have same: "rejected final (exn_text S e) (attempted event) =
        event\<lparr>processing_attempts := processing_attempts event + 1, payload := payload event,
          processing_status := (if final then FAILED else PENDING), processed_at := None,
          error_message := Some (exn_text S e)\<rparr>"
      by (simp add: rejected_def attempted_def)
    show ?thesis
      using uncommitted(2-4) unfolding run uncommitted(1) same sum.case prod.case bool.case by blast
  next
    case (unread e x x')
    then show ?thesis by (simp add: run)
  next
    case (error e event row x x')
    then show ?thesis by (simp add: run)
  qed
qed

section \<open>Transient failures\<close>

text \<open>A database that answers, and accepts every commit that respects the constraints.\<close>

definition reliable_db :: "'x services \<Rightarrow> bool" where
  "reliable_db S \<longleftrightarrow>
     (\<forall>x. \<exists>x'. db_query S x = (Inr (), x')) \<and>
     (\<forall>t x. constraints t \<longrightarrow> (\<exists>x'. db_commit S t x = (Inr (), x')))"

lemma constraints_update:
  assumes "constraints t" "find_event t i = Some event"
    and "ev_id row = ev_id event" "delivery_id row = delivery_id event"
  shows "constraints (replace_row t row)"
proof -
  have "delivery_id x = delivery_id row" if "x \<in> set t" "ev_id x = ev_id row" for x
  proof -
    have "find_event t (ev_id x) = Some x"
      using assms(1) that(1) by (intro find_event_mem) (simp_all add: constraints_def)
    then have "x = event" using assms(2,3) that(2) rows.find_ev_id [OF assms(2)] by simp
    then show ?thesis using assms(4) by simp
  qed
  then show ?thesis using assms(1) by (simp add: constraints_replace)
qed

lemma delivery_id_states [simp]:
  "delivery_id (completed now r) = delivery_id r" "delivery_id (rejected f m r) = delivery_id r"
  "delivery_id (attempted r) = delivery_id r"
  by (simp_all add: completed_def rejected_def attempted_def)

lemma reliable_process_cases:
  assumes "reliable_db S" and "constraints (table w)" and "find_event (table w) i = Some event"
    and "process_event_by_id S i final w = (r, w')"
  obtains (processed) now where "r = Inr True" "will_pass (payload event)"
      "table w' = replace_row (table w) (completed now (attempted event))"
  | (failed) data e where "r = Inr False" "\<not> will_pass (payload event)"
      "attempt_failure (payload event) data e"
      "table w' = replace_row (table w) (rejected final (exn_text S e) ((attempted event)\<lparr>payload := data\<rparr>))"
proof -
  have accepts: "db_commit S (replace_row (table w) row) x \<noteq> (Inl e, x')"
    if "ev_id row = ev_id event" "delivery_id row = delivery_id event" for row x e x'
  proof -
    have "\<exists>x'. db_commit S (replace_row (table w) row) x = (Inr (), x')"
      using assms(1) constraints_update [OF assms(2,3) that] by (simp add: reliable_db_def)
    then show ?thesis by auto
  qed
  from assms(4) show thesis
  proof (cases rule: process_event_by_id_cases)
    case missing
    with assms(3) show thesis by simp
  next
    case (processed event' now)
    with assms(3) show thesis by (intro that(1)) simp_all
  next
    case (failed event' data e)
    with assms(3) show thesis by (intro that(2)) simp_all
  next
    case (uncommitted event' x e x' now u x'')
    with assms(3) accepts [of "completed now (attempted event)" x e x'] show thesis by simp
  next
    case (unread e x x')
    moreover have "\<exists>x'. db_query S x = (Inr (), x')" using assms(1) by (simp add: reliable_db_def)
    ultimately show thesis by auto
  next
    case (error e event' row x x')
    with assms(3) accepts [of row x e x'] show thesis by simp
  qed
qed

text \<open>Attempts at one event, one after the other, with what each returned.\<close>

fun process_times :: "'x services \<Rightarrow> uuid \<Rightarrow> bool \<Rightarrow> nat \<Rightarrow> ('x world, bool list) io" where
  "process_times S i final 0 = io_return []"
| "process_times S i final (Suc n) =
     io_bind (process_event_by_id S i final) (\<lambda>r.
     io_bind (process_times S i final n) (\<lambda>rs. io_return (r # rs)))"

lemma countdown:
  assumes "dict_get data (lit ''fail_attempts_remaining'') = Some (JInt (int k))"
    and "\<not> force_failure data"
  shows "will_pass data \<longleftrightarrow> k = 0"
    and "attempt_failure data data' e \<Longrightarrow>
      dict_get data' (lit ''fail_attempts_remaining'') = Some (JInt (int (k - 1))) \<and>
      \<not> force_failure data'"
proof -
  have n: "remaining_failures data = Inr (int k)"
    using assms(1) by (simp add: remaining_failures_def)
  show "will_pass data \<longleftrightarrow> k = 0"
    using assms(2) by (simp add: will_pass_def n)
  show "dict_get data' (lit ''fail_attempts_remaining'') = Some (JInt (int (k - 1))) \<and>
      \<not> force_failure data'" if "attempt_failure data data' e"
    using that assms(2) by (auto simp: attempt_failure_def n dict_get_set force_failure_def of_nat_diff
        split: if_splits)
qed

text \<open>
  An event that asks for \<open>k\<close> transient failures recovers. With a database that works, \<open>k\<close>
  attempts fail and the next one succeeds: the row is PROCESSED, with \<open>k + 1\<close> attempts more.
\<close>

lemma transient_failures_recover:
  assumes "reliable_db S" and "constraints (table w)" and "find_event (table w) i = Some event"
    and "dict_get (payload event) (lit ''fail_attempts_remaining'') = Some (JInt (int k))"
    and "\<not> force_failure (payload event)"
  shows "\<exists>w' event'. process_times S i final (k + 1) w = (Inr (replicate k False @ [True]), w') \<and>
    find_event (table w') i = Some event' \<and> processing_status event' = PROCESSED \<and>
    processing_attempts event' = processing_attempts event + int k + 1"
  using assms(2-)
proof (induction k arbitrary: w event)
  case 0
  have pass: "will_pass (payload event)" using countdown(1) [of _ 0] "0.prems" by simp
  obtain r w' where run: "process_event_by_id S i final w = (r, w')" by fastforce
  from assms(1) "0.prems"(1,2) run show ?case
  proof (cases rule: reliable_process_cases)
    case (processed now)
    with "0.prems"(2) run show ?thesis
      by (simp add: find_replaced) (simp add: completed_def attempted_def)
  qed (use pass in simp)
next
  case (Suc k)
  have fail: "\<not> will_pass (payload event)" using countdown(1) [OF Suc.prems(3,4)] by simp
  obtain r w1 where run: "process_event_by_id S i final w = (r, w1)" by fastforce
  from assms(1) Suc.prems(1,2) run show ?case
  proof (cases rule: reliable_process_cases)
    case (failed data e)
    let ?row = "rejected final (exn_text S e) ((attempted event)\<lparr>payload := data\<rparr>)"
    have row: "ev_id ?row = ev_id event" "delivery_id ?row = delivery_id event"
      by (simp_all add: rejected_def attempted_def)
    have f: "find_event (table w1) i = Some ?row"
      using failed(4) Suc.prems(2) row(1) by (simp add: find_replaced)
    have c: "constraints (table w1)"
      using failed(4) constraints_update [OF Suc.prems(1,2) row] by simp
    have "dict_get (payload ?row) (lit ''fail_attempts_remaining'') = Some (JInt (int k))"
      "\<not> force_failure (payload ?row)"
      using countdown(2) [OF Suc.prems(3,4) failed(3)] by (simp_all add: rejected_def)
    from Suc.IH [OF c f this] obtain w' event' where
      "process_times S i final (k + 1) w1 = (Inr (replicate k False @ [True]), w')"
      "find_event (table w') i = Some event'" "processing_status event' = PROCESSED"
      "processing_attempts event' = processing_attempts ?row + int k + 1"
      by blast
    moreover have "processing_attempts ?row = processing_attempts event + 1"
      by (simp add: rejected_def attempted_def)
    moreover from calculation(1) have
      "process_times S i final (Suc (k + 1)) w = (Inr (False # replicate k False @ [True]), w')"
      using run failed(1) by (simp add: io_bind_def)
    ultimately show ?thesis by (simp del: process_times.simps)
  qed (use fail in simp)
qed

definition flaky_event :: event where
  "flaky_event = new_event 5 0 None None (lit ''s'') (lit ''t'')
     [(lit ''fail_attempts_remaining'', JInt 2)]"

lemma reliable_calm: "reliable_db calm"
  by (simp add: reliable_db_def calm_def)

lemma flaky_event_recovers:
  "\<exists>w' event'. process_times calm 5 False 3 (calm_start\<lparr>table := [flaky_event]\<rparr>)
      = (Inr [False, False, True], w') \<and>
    find_event (table w') 5 = Some event' \<and> processing_status event' = PROCESSED \<and>
    processing_attempts event' = 3"
  using transient_failures_recover [OF reliable_calm, of "calm_start\<lparr>table := [flaky_event]\<rparr>" 5
      flaky_event 2 False]
  by (simp add: flaky_event_def new_event_def constraints_def dict_get_def force_failure_def
      eval_nat_numeral del: process_times.simps)

end
