(* ===== verification/Digest.thy ===== *)
theory Digest
  imports PyText Utf8
begin

text \<open>
  The digests the program computes with the standard library's hashlib and hmac: SHA-256 on 32-bit
  words with their wrap-around addition (FIPS 180-4), HMAC over it (RFC 2104), and
  \<open>hexdigest\<close>; and \<open>hmac.compare_digest\<close> on two \<open>str\<close>.
\<close>

unbundle bit_operations_syntax

section \<open>SHA-256\<close>

type_synonym word32 = "32 word"

text \<open>The tables of FIPS 180-4, in decimal.\<close>

definition round_constants :: "word32 list" where
  "round_constants =
     [1116352408, 1899447441, 3049323471, 3921009573, 961987163, 1508970993,
      2453635748, 2870763221, 3624381080, 310598401, 607225278, 1426881987,
      1925078388, 2162078206, 2614888103, 3248222580, 3835390401, 4022224774,
      264347078, 604807628, 770255983, 1249150122, 1555081692, 1996064986,
      2554220882, 2821834349, 2952996808, 3210313671, 3336571891, 3584528711,
      113926993, 338241895, 666307205, 773529912, 1294757372, 1396182291,
      1695183700, 1986661051, 2177026350, 2456956037, 2730485921, 2820302411,
      3259730800, 3345764771, 3516065817, 3600352804, 4094571909, 275423344,
      430227734, 506948616, 659060556, 883997877, 958139571, 1322822218,
      1537002063, 1747873779, 1955562222, 2024104815, 2227730452, 2361852424,
      2428436474, 2756734187, 3204031479, 3329325298]"

type_synonym hash_state =
  "word32 \<times> word32 \<times> word32 \<times> word32 \<times> word32 \<times> word32 \<times> word32 \<times> word32"

definition initial_hash :: hash_state where
  "initial_hash =
     (1779033703, 3144134277, 1013904242, 2773480762,
      1359893119, 2600822924, 528734635, 1541459225)"

definition rotr :: "nat \<Rightarrow> word32 \<Rightarrow> word32" where
  "rotr n x = drop_bit n x OR push_bit (32 - n) x"

definition big_sigma0 :: "word32 \<Rightarrow> word32" where
  "big_sigma0 x = rotr 2 x XOR rotr 13 x XOR rotr 22 x"

definition big_sigma1 :: "word32 \<Rightarrow> word32" where
  "big_sigma1 x = rotr 6 x XOR rotr 11 x XOR rotr 25 x"

definition small_sigma0 :: "word32 \<Rightarrow> word32" where
  "small_sigma0 x = rotr 7 x XOR rotr 18 x XOR drop_bit 3 x"

definition small_sigma1 :: "word32 \<Rightarrow> word32" where
  "small_sigma1 x = rotr 17 x XOR rotr 19 x XOR drop_bit 10 x"

definition choose_bits :: "word32 \<Rightarrow> word32 \<Rightarrow> word32 \<Rightarrow> word32" where
  "choose_bits x y z = (x AND y) XOR (NOT x AND z)"

definition majority :: "word32 \<Rightarrow> word32 \<Rightarrow> word32 \<Rightarrow> word32" where
  "majority x y z = (x AND y) XOR (x AND z) XOR (y AND z)"

text \<open>Big-endian words of a block, and bytes of a number.\<close>

definition word_of_bytes :: "bytes \<Rightarrow> word32" where
  "word_of_bytes bs = foldl (\<lambda>a b. push_bit 8 a OR ucast b) 0 bs"

fun bytes_of_nat :: "nat \<Rightarrow> nat \<Rightarrow> bytes" where
  "bytes_of_nat 0 n = []"
| "bytes_of_nat (Suc k) n = bytes_of_nat k (n div 256) @ [of_nat n]"

fun chunks :: "nat \<Rightarrow> nat \<Rightarrow> 'a list \<Rightarrow> 'a list list" where
  "chunks k 0 xs = []"
| "chunks k (Suc n) xs = take k xs # chunks k n (drop k xs)"

text \<open>The message schedule: the sixteen words of the block, then \<open>n\<close> more.\<close>

fun extend_schedule :: "nat \<Rightarrow> word32 list \<Rightarrow> word32 list" where
  "extend_schedule 0 ws = ws"
| "extend_schedule (Suc n) ws =
     (let t = length ws
      in extend_schedule n
           (ws @ [small_sigma1 (ws ! (t - 2)) + ws ! (t - 7) + small_sigma0 (ws ! (t - 15)) +
                  ws ! (t - 16)]))"

definition schedule :: "bytes \<Rightarrow> word32 list" where
  "schedule block = extend_schedule 48 (map word_of_bytes (chunks 4 16 block))"

definition sha_round :: "hash_state \<Rightarrow> word32 \<times> word32 \<Rightarrow> hash_state" where
  "sha_round st kw =
     (case (st, kw) of ((a, b, c, d, e, f, g, h), (k, w)) \<Rightarrow>
        let t1 = h + big_sigma1 e + choose_bits e f g + k + w;
            t2 = big_sigma0 a + majority a b c
        in (t1 + t2, a, b, c, d + t1, e, f, g))"

definition compress :: "hash_state \<Rightarrow> bytes \<Rightarrow> hash_state" where
  "compress st block =
     (case (st, foldl sha_round st (zip round_constants (schedule block))) of
        ((a, b, c, d, e, f, g, h), (a', b', c', d', e', f', g', h')) \<Rightarrow>
          (a + a', b + b', c + c', d + d', e + e', f + f', g + g', h + h'))"

definition sha_pad :: "bytes \<Rightarrow> bytes" where
  "sha_pad msg =
     (let n = length msg
      in msg @ [0x80] @ replicate ((119 - n mod 64) mod 64) 0 @ bytes_of_nat 8 (8 * n))"

definition state_bytes :: "hash_state \<Rightarrow> bytes" where
  "state_bytes st =
     (case st of (a, b, c, d, e, f, g, h) \<Rightarrow>
        concat (map (\<lambda>w. bytes_of_nat 4 (unat w)) [a, b, c, d, e, f, g, h]))"

definition sha256 :: "bytes \<Rightarrow> bytes" where
  "sha256 msg =
     (let p = sha_pad msg
      in state_bytes (foldl compress initial_hash (chunks 64 (length p div 64) p)))"

section \<open>HMAC\<close>

definition hmac_key :: "bytes \<Rightarrow> bytes" where
  "hmac_key key =
     (let k = if 64 < length key then sha256 key else key
      in k @ replicate (64 - length k) 0)"

definition hmac_sha256 :: "bytes \<Rightarrow> bytes \<Rightarrow> bytes" where
  "hmac_sha256 key msg =
     sha256 (map (\<lambda>b. b XOR 0x5C) (hmac_key key) @
             sha256 (map (\<lambda>b. b XOR 0x36) (hmac_key key) @ msg))"

definition hexdigest :: "bytes \<Rightarrow> pystr" where
  "hexdigest bs = concat (map (\<lambda>b. [hex_char (unat b div 16), hex_char (unat b mod 16)]) bs)"

section \<open>hmac.compare_digest\<close>

text \<open>On two \<open>str\<close>, which must be ASCII.\<close>

definition compare_digest :: "pystr \<Rightarrow> pystr \<Rightarrow> exn + bool" where
  "compare_digest a b =
     (if list_all (\<lambda>c. c < 128) a \<and> list_all (\<lambda>c. c < 128) b then Inr (a = b)
      else Inl (TypeError (lit ''comparing strings with non-ASCII characters is not supported'')))"

section \<open>Shapes\<close>

lemma length_bytes_of_nat [simp]: "length (bytes_of_nat k n) = k"
  by (induction k arbitrary: n) simp_all

lemma concat_chunks: "length xs = k * n \<Longrightarrow> concat (chunks k n xs) = xs"
  by (induction n arbitrary: xs) simp_all

lemma length_sha256 [simp]: "length (sha256 msg) = 32"
  by (simp add: sha256_def state_bytes_def Let_def split: prod.splits)

lemma length_hmac_sha256 [simp]: "length (hmac_sha256 key msg) = 32"
  by (simp add: hmac_sha256_def)

text \<open>Padding fills the last block exactly, so that the blocks are the whole padded message.\<close>

lemma length_sha_pad: "length (sha_pad msg) mod 64 = 0"
proof -
  let ?n = "length msg"
  have "length (sha_pad msg) = ?n + (119 - ?n mod 64) mod 64 + 9"
    by (simp add: sha_pad_def Let_def)
  also have "\<dots> mod 64 = (?n mod 64 + (119 - ?n mod 64) + 9) mod 64"
    by (metis (no_types, lifting) mod_add_left_eq mod_add_right_eq mod_add_cong)
  also have "?n mod 64 + (119 - ?n mod 64) + 9 = 128"
    by (simp add: order.strict_implies_order [OF order.strict_trans2 [OF mod_less_divisor]])
  finally show ?thesis by simp
qed

lemma sha_blocks: "concat (chunks 64 (length (sha_pad msg) div 64) (sha_pad msg)) = sha_pad msg"
  using length_sha_pad [of msg] by (intro concat_chunks) (simp add: mod_eq_0_iff_dvd)

lemma length_hmac_key [simp]: "length (hmac_key key) = 64"
  by (simp add: hmac_key_def Let_def)

lemma length_hexdigest: "length (hexdigest bs) = 2 * length bs"
  by (induction bs) (simp_all add: hexdigest_def)

lemma unat_div_16: "unat (b :: 8 word) div 16 < 16"
proof -
  have "unat b < 16 * 16" using byte_less_256 [of b] by simp
  then show ?thesis by (rule less_mult_imp_div_less)
qed

lemma hex_char_range: "d < 16 \<Longrightarrow> hex_char d \<in> {48..57} \<union> {97..102}"
  by (auto simp: hex_char_def)

lemma hexdigest_Cons:
  "hexdigest (b # bs) = hex_char (unat b div 16) # hex_char (unat b mod 16) # hexdigest bs"
  by (simp add: hexdigest_def)

lemma hexdigest_chars: "c \<in> set (hexdigest bs) \<Longrightarrow> c \<in> {48..57} \<union> {97..102}"
proof (induction bs)
  case (Cons b bs)
  have "hex_char (unat b div 16) \<in> {48..57} \<union> {97..102}"
    by (rule hex_char_range [OF unat_div_16])
  moreover have "hex_char (unat b mod 16) \<in> {48..57} \<union> {97..102}"
    by (rule hex_char_range) simp
  ultimately show ?case using Cons by (auto simp only: hexdigest_Cons list.set)
qed (simp add: hexdigest_def)

lemma hexdigest_ascii: "list_all (\<lambda>c. c < 128) (hexdigest bs)"
  using hexdigest_chars [of _ bs] by (fastforce simp: list_all_iff)

lemma hex_char_inj: "hex_char a = hex_char b \<Longrightarrow> a < 16 \<Longrightarrow> b < 16 \<Longrightarrow> a = b"
  by (auto simp: hex_char_def split: if_splits)

lemma hexdigest_inj: "hexdigest a = hexdigest b \<Longrightarrow> a = b"
proof (induction a arbitrary: b)
  case Nil
  then show ?case by (cases b) (simp_all add: hexdigest_def)
next
  case (Cons x a)
  then obtain y b' where b: "b = y # b'" by (cases b) (simp_all add: hexdigest_def)
  have "unat x div 16 = unat y div 16" "unat x mod 16 = unat y mod 16"
    using Cons.prems b unat_div_16 [of x] unat_div_16 [of y]
    by (auto simp: hexdigest_def intro: hex_char_inj)
  then have "unat x = unat y" by (metis div_mult_mod_eq)
  moreover have "a = b'" using Cons.prems b by (intro Cons.IH) (simp add: hexdigest_def)
  moreover have "x = y" using \<open>unat x = unat y\<close> by (metis byte_unat)
  ultimately show ?case using b by simp
qed

end
