(* ===== verification/Security.thy ===== *)
theory Security
  imports Digest World
begin

text \<open>
  app/security.py, the API key check of app/routers/webhooks.py and the signer of
  tools/send_signed_webhook.py.
\<close>

section \<open>Checks\<close>

definition unauthorized :: "string \<Rightarrow> exn" where
  "unauthorized detail = HTTPException 401 (lit detail)"

text \<open>\<open>not x\<close> for an optional \<open>str\<close>.\<close>

definition absent :: "pystr option \<Rightarrow> bool" where
  "absent x \<longleftrightarrow> x = None \<or> x = Some []"

definition expected_signature :: "pystr \<Rightarrow> pystr \<Rightarrow> bytes \<Rightarrow> exn + pystr" where
  "expected_signature secret timestamp body =
     sum_bind (utf8_decode body) (\<lambda>text.
     sum_bind (utf8_encode (timestamp @ lit ''.'' @ text)) (\<lambda>signed_payload.
     sum_bind (utf8_encode secret) (\<lambda>key.
     Inr (hexdigest (hmac_sha256 key signed_payload)))))"

definition signature_failure :: "string \<Rightarrow> ('x world, 'a) io" where
  "signature_failure detail =
     io_then (set_metrics record_signature_failure) (io_raise (unauthorized detail))"

definition verify_webhook_signature ::
  "'x services \<Rightarrow> settings \<Rightarrow> bytes \<Rightarrow> pystr option \<Rightarrow> pystr option \<Rightarrow> ('x world, unit) io" where
  "verify_webhook_signature S c body timestamp signature =
     (if webhook_secret c = [] then io_return ()
      else case (timestamp, signature) of
        (Some ts, Some sig) \<Rightarrow>
          if ts = [] \<or> sig = [] then signature_failure ''Missing webhook signature headers''
          else (case py_int 10 ts of
            Inl e \<Rightarrow> if is_value_error e then signature_failure ''Invalid webhook timestamp''
                     else io_raise e
          | Inr timestamp_value \<Rightarrow>
              io_bind (ask (time_now S)) (\<lambda>now.
              if \<bar>now - timestamp_value\<bar> > webhook_timestamp_tolerance_seconds c
              then signature_failure ''Webhook timestamp is outside the allowed tolerance window''
              else
                io_bind (io_lift (expected_signature (webhook_secret c) ts body)) (\<lambda>expected.
                io_bind (io_lift (compare_digest sig expected)) (\<lambda>equal.
                if \<not> equal then signature_failure ''Invalid webhook signature''
                else io_return ()))))
      | _ \<Rightarrow> signature_failure ''Missing webhook signature headers'')"

definition require_api_key :: "settings \<Rightarrow> pystr option \<Rightarrow> exn + unit" where
  "require_api_key c x_api_key =
     (if api_key c = [] then Inr ()
      else case x_api_key of
        None \<Rightarrow> Inl (unauthorized ''Invalid API key'')
      | Some k \<Rightarrow>
          if k = [] then Inl (unauthorized ''Invalid API key'')
          else sum_bind (compare_digest k (api_key c)) (\<lambda>equal.
                 if equal then Inr () else Inl (unauthorized ''Invalid API key'')))"

text \<open>tools/send_signed_webhook.py: \<open>build_signature\<close>.\<close>

definition build_signature :: "pystr \<Rightarrow> bytes \<Rightarrow> int \<Rightarrow> exn + pystr" where
  "build_signature secret body timestamp =
     sum_bind (utf8_encode secret) (\<lambda>key.
     sum_bind (py_str_int timestamp) (\<lambda>ts.
     sum_bind (utf8_decode body) (\<lambda>text.
     sum_bind (utf8_encode (ts @ lit ''.'' @ text)) (\<lambda>signed_payload.
     Inr (hexdigest (hmac_sha256 key signed_payload))))))"

section \<open>Lemmas\<close>

context metrics_blind
begin

lemma keeps_verify [keeps_rules]: "keeps view (verify_webhook_signature S c body ts sig)"
  unfolding verify_webhook_signature_def signature_failure_def by (intro keeps_rules)

end

lemma emits_verify [moves_rules]: "emits P (verify_webhook_signature S c body ts sig)"
  unfolding verify_webhook_signature_def signature_failure_def by (intro moves_rules)

lemma expected_signature_ascii: "expected_signature secret ts body = Inr s \<Longrightarrow> list_all (\<lambda>c. c < 128) s"
  by (auto simp: expected_signature_def sum_bind_Inr_iff hexdigest_ascii)

lemma expected_signature_shape:
  "expected_signature secret ts body = Inr s \<Longrightarrow> length s = 64 \<and> s \<noteq> []"
  by (auto simp: expected_signature_def sum_bind_Inr_iff length_hexdigest dest: arg_cong [of _ _ length])

lemma compare_digest_accepts: "compare_digest a b = Inr True \<longleftrightarrow> a = b \<and> list_all (\<lambda>c. c < 128) a"
  by (auto simp: compare_digest_def)

lemma require_api_key_refuses:
  assumes "api_key c \<noteq> []" and "x \<noteq> Some (api_key c)"
  obtains (unauthorized) "require_api_key c x = Inl (unauthorized ''Invalid API key'')"
  | (non_ascii) k detail ch where "x = Some k" "require_api_key c x = Inl (TypeError detail)"
      "ch \<in> set k \<union> set (api_key c)" "128 \<le> ch"
proof (cases x)
  case None
  then show thesis using assms by (intro unauthorized) (simp add: require_api_key_def)
next
  case (Some k)
  show thesis
  proof (cases "k = [] \<or> list_all (\<lambda>c. c < 128) k \<and> list_all (\<lambda>c. c < 128) (api_key c)")
    case True
    then show thesis
      using assms Some by (intro unauthorized) (auto simp: require_api_key_def compare_digest_def)
  next
    case False
    then obtain ch where "ch \<in> set k \<union> set (api_key c)" "128 \<le> ch"
      by (auto simp: list_all_iff not_less)
    moreover have "\<exists>detail. require_api_key c x = Inl (TypeError detail)"
      using assms Some False by (auto simp: require_api_key_def compare_digest_def)
    ultimately show thesis using Some non_ascii by blast
  qed
qed

text \<open>The branches of \<open>verify_webhook_signature\<close> behind present headers.\<close>

definition judge ::
  "settings \<Rightarrow> bytes \<Rightarrow> pystr \<Rightarrow> pystr \<Rightarrow> int \<Rightarrow> int \<Rightarrow> string + (exn + unit)" where
  "judge c body ts sig v now =
     (if \<bar>now - v\<bar> > webhook_timestamp_tolerance_seconds c
      then Inl ''Webhook timestamp is outside the allowed tolerance window''
      else case sum_bind (expected_signature (webhook_secret c) ts body) (compare_digest sig) of
        Inl e \<Rightarrow> Inr (Inl e)
      | Inr True \<Rightarrow> Inr (Inr ())
      | Inr False \<Rightarrow> Inl ''Invalid webhook signature'')"

lemma verify_present:
  assumes "webhook_secret c \<noteq> []" and "ts \<noteq> []" and "sig \<noteq> []" and "py_int 10 ts = Inr v"
    and "time_now S (ext w) = (now, x)"
  shows "verify_webhook_signature S c body (Some ts) (Some sig) w =
    (case judge c body ts sig v now of
       Inl detail \<Rightarrow> (Inl (unauthorized detail),
         w\<lparr>ext := x, metrics := record_signature_failure (metrics w)\<rparr>)
     | Inr r \<Rightarrow> (r, w\<lparr>ext := x\<rparr>))"
  using assms
  by (auto simp: verify_webhook_signature_def judge_def ask_def io_bind_def signature_failure_def
      set_metrics_def sum_bind_def split: sum.splits bool.splits)

lemma py_int_errors: "py_int b s = Inl e \<Longrightarrow> is_value_error e"
  by (auto simp: py_int_def Let_def split: prod.splits option.splits if_splits)

section \<open>What a signature is made for\<close>

lemma us_digits_no_dot: "us_digits 10 prev s = Some ds \<Longrightarrow> 46 \<notin> set s"
  by (induction "10 :: nat" prev s arbitrary: ds rule: us_digits.induct)
    (auto simp: digit_val_def split: if_splits option.splits)

lemma dropWhile_keeps: "c \<in> set s \<Longrightarrow> \<not> p c \<Longrightarrow> c \<in> set (dropWhile p s)"
  by (induction s) auto

lemma strip_keeps: "c \<in> set s \<Longrightarrow> \<not> p c \<Longrightarrow> c \<in> set (strip p s)"
  by (simp add: strip_def dropWhile_keeps)

lemma split_sign_keeps: "split_sign s = (neg, t) \<Longrightarrow> 46 \<in> set s \<Longrightarrow> 46 \<in> set t"
  by (auto simp: split_sign_def split: list.splits if_splits)

lemma to_ascii_dot: "46 \<in> set s \<Longrightarrow> 46 \<in> set (to_ascii s)"
  by (force simp: to_ascii_def ascii_of_def)

lemma py_int_no_dot: "py_int 10 s = Inr n \<Longrightarrow> 46 \<notin> set s"
proof
  assume ok: "py_int 10 s = Inr n" and dot: "46 \<in> set s"
  let ?t = "strip c_space (to_ascii s)"
  obtain neg t where t: "split_sign ?t = (neg, t)" by fastforce
  have "46 \<in> set ?t" using dot by (intro strip_keeps to_ascii_dot) (simp_all add: c_space_def)
  then have in_t: "46 \<in> set t"
    using split_sign_keeps [OF t] by simp
  obtain ds where "us_digits 10 False (strip_base_prefix 10 t) = Some ds"
    using ok t by (auto simp: py_int_def Let_def split: option.splits)
  moreover have "strip_base_prefix 10 t = t" by (simp add: strip_base_prefix_def split: list.splits)
  ultimately show False using us_digits_no_dot in_t by metis
qed

lemma append_dot_inj:
  "(46 :: nat) \<notin> set a \<Longrightarrow> 46 \<notin> set b \<Longrightarrow> a @ 46 # x = b @ 46 # y \<Longrightarrow> a = b \<and> x = y"
proof (induction a arbitrary: b)
  case Nil
  then show ?case by (cases b) auto
next
  case (Cons c a)
  then show ?case by (cases b) auto
qed

lemma lit_dot: "lit ''.'' = [46]"
  by (simp add: lit_def)

text \<open>
  The bytes that are signed are those of the timestamp header, a dot, and the body as received.
\<close>

lemma utf8_encode_dotted:
  assumes "utf8_encode ts = Inr a" and "utf8_decode body = Inr u"
  shows "utf8_encode (ts @ lit ''.'' @ u) = Inr (a @ [0x2E] @ body)"
proof -
  have "utf8_encode (lit ''.'') = Inr [0x2E]"
    by (simp add: lit_def utf8_encode_def utf8_char_def scalar_def byte_def)
  then show ?thesis
    using assms by (simp add: utf8_encode_append utf8_encode_decode)
qed

lemma expected_signature_bytes:
  assumes "expected_signature secret ts body = Inr sig"
  obtains u a key where "utf8_decode body = Inr u" "utf8_encode ts = Inr a"
    "utf8_encode secret = Inr key" "sig = hexdigest (hmac_sha256 key (a @ [0x2E] @ body))"
proof -
  obtain u m key where m: "utf8_decode body = Inr u"
      "utf8_encode (ts @ lit ''.'' @ u) = Inr m" "utf8_encode secret = Inr key"
      "sig = hexdigest (hmac_sha256 key m)"
    using assms by (auto simp: expected_signature_def sum_bind_Inr_iff)
  moreover obtain a where a: "utf8_encode ts = Inr a"
    using m(2) by (auto simp: utf8_encode_append [of ts] sum_bind_Inr_iff)
  moreover have "m = a @ [0x2E] @ body" using utf8_encode_dotted [OF a m(1)] m(2) by simp
  ultimately show thesis using that by simp
qed

text \<open>A timestamp that \<open>int\<close> reads has no dot, so the first dot ends it.\<close>

lemma dotted_bytes_inj:
  assumes "py_int 10 ts = Inr v" and "py_int 10 ts' = Inr v'"
    and "utf8_decode body = Inr u" and "utf8_decode body' = Inr u'"
    and "utf8_encode ts = Inr a" and "utf8_encode ts' = Inr a'"
    and "a @ [0x2E] @ body = a' @ [0x2E] @ body'"
  shows "ts = ts' \<and> body = body'"
proof -
  have "ts @ lit ''.'' @ u = ts' @ lit ''.'' @ u'"
    using utf8_encode_dotted [OF assms(5,3)] utf8_encode_dotted [OF assms(6,4)] assms(7)
      utf8.enc_inj by simp
  then have "ts = ts' \<and> u = u'"
    using assms(1,2) by (auto simp: lit_dot dest: append_dot_inj py_int_no_dot)
  then show ?thesis
    using assms(3,4) utf8_encode_decode by (metis sum.inject(2))
qed

section \<open>Properties\<close>

text \<open>
  C8: \<open>verify_webhook_signature\<close> accepts a request exactly when no secret is set, or both
  headers are there, the timestamp is an integer no further from the clock than the tolerance,
  and the signature is the hexadecimal HMAC-SHA-256, under the secret, of the timestamp text, a
  dot and the body.
\<close>

theorem verify_webhook_signature_accepts:
  "fst (verify_webhook_signature S c body timestamp signature w) = Inr () \<longleftrightarrow>
    webhook_secret c = [] \<or>
    (\<exists>ts sig v. timestamp = Some ts \<and> ts \<noteq> [] \<and> signature = Some sig \<and> py_int 10 ts = Inr v \<and>
      \<bar>fst (time_now S (ext w)) - v\<bar> \<le> webhook_timestamp_tolerance_seconds c \<and>
      expected_signature (webhook_secret c) ts body = Inr sig)"
proof -
  let ?run = "verify_webhook_signature S c body timestamp signature w"
  consider (off) "webhook_secret c = []"
    | (missing) "webhook_secret c \<noteq> []" "absent timestamp \<or> absent signature"
    | (present) ts sig where "webhook_secret c \<noteq> []" "timestamp = Some ts" "ts \<noteq> []"
        "signature = Some sig" "sig \<noteq> []"
    unfolding absent_def by fastforce
  then show ?thesis
  proof cases
    case off
    then show ?thesis by (simp add: verify_webhook_signature_def)
  next
    case missing
    then have "fst ?run \<noteq> Inr ()"
      by (auto simp: verify_webhook_signature_def absent_def signature_failure_def set_metrics_def
          io_bind_def split: option.splits)
    with missing show ?thesis by (auto simp: absent_def dest: expected_signature_shape)
  next
    case present
    show ?thesis
    proof (cases "py_int 10 ts")
      case (Inl e)
      then have "fst ?run \<noteq> Inr ()"
        using present by (simp add: verify_webhook_signature_def signature_failure_def
            set_metrics_def io_bind_def)
      with Inl present show ?thesis by auto
    next
      case (Inr v)
      obtain now x where now: "time_now S (ext w) = (now, x)" by fastforce
      have "fst ?run = Inr () \<longleftrightarrow> judge c body ts sig v now = Inr (Inr ())"
        using verify_present [of c ts sig v S w now x body] present Inr now
        by (auto split: sum.splits)
      also have "\<dots> \<longleftrightarrow> \<bar>now - v\<bar> \<le> webhook_timestamp_tolerance_seconds c \<and>
          expected_signature (webhook_secret c) ts body = Inr sig"
        using expected_signature_ascii [of "webhook_secret c" ts body]
        by (auto simp: judge_def sum_bind_def compare_digest_def split: sum.splits bool.splits if_splits)
      finally show ?thesis using present Inr now by auto
    qed
  qed
qed

lemma verify_accepts_only:
  assumes "fst (verify_webhook_signature S c body (Some ts) (Some sig) w) = Inr ()"
    and "webhook_secret c \<noteq> []"
  shows "\<exists>v. py_int 10 ts = Inr v \<and> expected_signature (webhook_secret c) ts body = Inr sig"
proof -
  have ne: "ts \<noteq> []" "sig \<noteq> []"
    using assms by (auto simp: verify_webhook_signature_def signature_failure_def set_metrics_def
        io_bind_def split: if_splits)
  obtain v where v: "py_int 10 ts = Inr v"
    using assms ne by (cases "py_int 10 ts")
      (auto simp: verify_webhook_signature_def signature_failure_def set_metrics_def io_bind_def
        split: if_splits)
  obtain now x where now: "time_now S (ext w) = (now, x)" by fastforce
  have "judge c body ts sig v now = Inr (Inr ())"
    using assms verify_present [OF assms(2) ne v now, of body] by (auto split: sum.splits)
  then have "expected_signature (webhook_secret c) ts body = Inr sig"
    by (auto simp: judge_def sum_bind_def compare_digest_def split: sum.splits bool.splits if_splits)
  with v show ?thesis by blast
qed

lemma signer_accepted:
  assumes "build_signature (webhook_secret c) body sent_at = Inr signature"
    and "py_str_int sent_at = Inr timestamp"
    and "\<bar>fst (time_now S (ext w)) - sent_at\<bar> \<le> webhook_timestamp_tolerance_seconds c"
  shows "fst (verify_webhook_signature S c body (Some timestamp) (Some signature) w) = Inr ()"
proof -
  have ts: "py_int 10 timestamp = Inr sent_at" using assms(2) by (rule py_int_str_int)
  obtain now x where now: "time_now S (ext w) = (now, x)" by fastforce
  have sig: "expected_signature (webhook_secret c) timestamp body = Inr signature"
    using assms(1,2) by (auto simp: build_signature_def expected_signature_def sum_bind_Inr_iff)
  have "timestamp \<noteq> []"
    using assms(2) by (auto simp: py_str_int_def Let_def split: if_splits)
  moreover have "signature \<noteq> []" using sig expected_signature_shape by blast
  moreover have "judge c body timestamp signature sent_at now = Inr (Inr ())"
    using assms(3) now sig expected_signature_ascii [OF sig] by (simp add: judge_def compare_digest_def)
  ultimately show ?thesis
    using verify_present [of c timestamp signature sent_at S w now x body] ts now
    by (cases "webhook_secret c = []") (simp_all add: verify_webhook_signature_def)
qed

text \<open>
  C24: the signer of tools/send_signed_webhook.py and the verifier agree: what \<open>build_signature\<close>
  makes for a body and a time is accepted with that time as header text, by any server with the
  same secret whose clock is within the tolerance.
\<close>

theorem signed_webhook_is_accepted:
  assumes "build_signature (webhook_secret c) body sent_at = Inr signature"
    and "py_str_int sent_at = Inr timestamp"
    and "\<bar>fst (time_now S (ext w)) - sent_at\<bar> \<le> webhook_timestamp_tolerance_seconds c"
  shows "fst (verify_webhook_signature S c body (Some timestamp) (Some signature) w) = Inr ()"
  by (rule signer_accepted [OF assms])

definition signed_settings :: settings where
  "signed_settings = default_settings\<lparr>webhook_secret := lit ''k''\<rparr>"

lemma utf8_encode_lit_k: "utf8_encode (lit ''k'') = Inr [0x6B]"
  by (simp add: lit_def utf8_encode_def utf8_char_def scalar_def byte_def)

theorem signed_webhook_is_accepted_witness:
  "\<exists>signature. build_signature (webhook_secret signed_settings) [] 7 = Inr signature \<and>
    fst (verify_webhook_signature calm signed_settings [] (Some [55]) (Some signature) calm_start) = Inr ()"
proof -
  have ts: "py_str_int 7 = Inr [55]" by (simp add: py_str_int_def dec_digits.simps int_max_str_digits_def)
  obtain m where "utf8_encode ([55] @ lit ''.'') = Inr m"
    by (simp add: lit_def utf8_encode_def scalar_def)
  then obtain s where s: "build_signature (webhook_secret signed_settings) [] 7 = Inr s"
    by (simp add: build_signature_def signed_settings_def utf8_encode_lit_k ts)
  moreover have "\<bar>fst (time_now calm (ext calm_start)) - 7\<bar>
      \<le> webhook_timestamp_tolerance_seconds signed_settings"
    by (simp add: calm_def calm_start_def calm_tick_def init_world_def signed_settings_def
        default_settings_def)
  ultimately show ?thesis using signed_webhook_is_accepted [OF s ts] by blast
qed

text \<open>
  C25: a signature is good for one request only. When the verifier has accepted a signature for a
  timestamp and a body, then under the same secret, at any server and at any time, the same
  signature with another timestamp text or another body is refused, unless HMAC-SHA-256 under that
  key has the same value on the two different byte strings \<open>timestamp '.' body\<close>. A digit cannot be
  moved between timestamp and body: the dot between them is signed, and no timestamp contains one.
\<close>

theorem accepted_signature_fits_one_request:
  assumes "webhook_secret c \<noteq> []" and "webhook_secret c' = webhook_secret c"
    and "fst (verify_webhook_signature S c body (Some ts) (Some sig) w) = Inr ()"
    and "(ts', body') \<noteq> (ts, body)"
  shows "fst (verify_webhook_signature S' c' body' (Some ts') (Some sig) w') \<in> range Inl \<or>
    (\<exists>key a a'. utf8_encode (webhook_secret c) = Inr key \<and>
      utf8_encode ts = Inr a \<and> utf8_encode ts' = Inr a' \<and>
      a @ [0x2E] @ body \<noteq> a' @ [0x2E] @ body' \<and>
      hmac_sha256 key (a @ [0x2E] @ body) = hmac_sha256 key (a' @ [0x2E] @ body'))"
proof (cases "fst (verify_webhook_signature S' c' body' (Some ts') (Some sig) w')")
  case (Inr u)
  obtain v where v: "py_int 10 ts = Inr v" "expected_signature (webhook_secret c) ts body = Inr sig"
    using verify_accepts_only [OF assms(3,1)] by blast
  obtain v' where v': "py_int 10 ts' = Inr v'" "expected_signature (webhook_secret c) ts' body' = Inr sig"
    using verify_accepts_only [of S' c' body' ts' sig w'] Inr assms(1,2) by auto
  obtain t a key where a: "utf8_decode body = Inr t" "utf8_encode ts = Inr a"
      "utf8_encode (webhook_secret c) = Inr key" "sig = hexdigest (hmac_sha256 key (a @ [0x2E] @ body))"
    using v(2) by (rule expected_signature_bytes)
  obtain t' a' key' where a': "utf8_decode body' = Inr t'" "utf8_encode ts' = Inr a'"
      "utf8_encode (webhook_secret c) = Inr key'"
      "sig = hexdigest (hmac_sha256 key' (a' @ [0x2E] @ body'))"
    using v'(2) by (rule expected_signature_bytes)
  have "key' = key" using a(3) a'(3) by simp
  then have "hmac_sha256 key (a @ [0x2E] @ body) = hmac_sha256 key (a' @ [0x2E] @ body')"
    using a(4) a'(4) hexdigest_inj by metis
  moreover have "a @ [0x2E] @ body \<noteq> a' @ [0x2E] @ body'"
    using dotted_bytes_inj [OF v(1) v'(1) a(1) a'(1) a(2) a'(2)] assms(4) by auto
  ultimately show ?thesis using a(2,3) a'(2) by blast
qed auto

text \<open>
  A delivery of the body "1" at time 7, and the attempt to pass it off as the body "" of time 71,
  for which the same digits would be signed if nothing stood between them.
\<close>

theorem accepted_signature_fits_one_request_witness:
  "\<exists>sig. fst (verify_webhook_signature calm signed_settings [0x31] (Some [55]) (Some sig) calm_start) = Inr () \<and>
    (fst (verify_webhook_signature calm signed_settings [] (Some [55, 49]) (Some sig) calm_start) \<in> range Inl \<or>
     hmac_sha256 [0x6B] [0x37, 0x2E, 0x31] = hmac_sha256 [0x6B] [0x37, 0x31, 0x2E])"
proof -
  have ts: "py_str_int 7 = Inr [55]" by (simp add: py_str_int_def dec_digits.simps int_max_str_digits_def)
  have enc: "utf8_encode [55] = Inr [0x37]" "utf8_encode [55, 49] = Inr [0x37, 0x31]"
    by (simp_all add: utf8_encode_def utf8_char_def scalar_def byte_def)
  have dec: "utf8_decode [0x31] = Inr [49]"
    by (rule utf8_decode_encode) (simp add: utf8_encode_def utf8_char_def scalar_def byte_def)
  have secret: "utf8_encode (webhook_secret signed_settings) = Inr [0x6B]" "webhook_secret signed_settings \<noteq> []"
    by (simp add: signed_settings_def utf8_encode_lit_k) (simp add: signed_settings_def lit_def)
  obtain sig where s: "build_signature (webhook_secret signed_settings) [0x31] 7 = Inr sig"
    by (simp add: build_signature_def secret ts dec utf8_encode_dotted [OF enc(1) dec, simplified])
  have ok: "fst (verify_webhook_signature calm signed_settings [0x31] (Some [55]) (Some sig) calm_start) = Inr ()"
    by (rule signer_accepted [OF s ts]) (simp add: calm_def calm_start_def calm_tick_def init_world_def
        signed_settings_def default_settings_def)
  show ?thesis
    using accepted_signature_fits_one_request [OF secret(2) refl ok, of "[55, 49]" "[]" calm calm_start] ok
    by (auto simp: enc secret)
qed

text \<open>
  The failure counter counts exactly the refusals: it grows by one when the verifier answers
  401 and stays as it is when it accepts or fails otherwise.
\<close>

lemma signature_failures_are_counted:
  "case verify_webhook_signature S c body timestamp signature w of
      (Inr _, w') \<Rightarrow> metrics w' = metrics w
    | (Inl e, w') \<Rightarrow>
        if \<exists>detail. e = HTTPException 401 detail
        then metrics w' = record_signature_failure (metrics w)
        else metrics w' = metrics w"
proof -
  have not401: "e \<noteq> HTTPException 401 detail"
    if "sum_bind (expected_signature a b d) (compare_digest f) = Inl e" for a b d f e detail
    using that by (auto simp: sum_bind_Inl_iff expected_signature_def compare_digest_def
        utf8_encode_def split: if_splits dest: utf8_decode_error)
  show ?thesis
  proof (cases "webhook_secret c = [] \<or> absent timestamp \<or> absent signature")
    case True
    then show ?thesis
      by (auto simp: verify_webhook_signature_def absent_def signature_failure_def set_metrics_def
          unauthorized_def split: option.splits)
  next
    case False
    then obtain ts sig where p: "timestamp = Some ts" "ts \<noteq> []" "signature = Some sig" "sig \<noteq> []"
      by (auto simp: absent_def)
    show ?thesis
    proof (cases "py_int 10 ts")
      case (Inl e)
      with p False show ?thesis
        by (auto simp: verify_webhook_signature_def signature_failure_def set_metrics_def
            unauthorized_def py_int_errors)
    next
      case (Inr v)
      obtain now x where now: "time_now S (ext w) = (now, x)" by fastforce
      show ?thesis
        using verify_present [of c ts sig v S w now x body] p False Inr now
        by (auto simp: unauthorized_def judge_def split: sum.splits bool.splits if_splits dest: not401)
    qed
  qed
qed

text \<open>
  C40: with a non-ASCII signature header, in time and for a body in UTF-8, the verifier neither
  accepts nor answers 401: \<open>hmac.compare_digest\<close> raises \<open>TypeError\<close>, which nothing catches,
  and the failure is not counted.
\<close>

theorem non_ascii_signature_is_an_error:
  assumes "webhook_secret c \<noteq> []" and "py_int 10 ts = Inr v" and "ts \<noteq> []"
    and "\<bar>fst (time_now S (ext w)) - v\<bar> \<le> webhook_timestamp_tolerance_seconds c"
    and "expected_signature (webhook_secret c) ts body = Inr good"
    and "\<not> list_all (\<lambda>ch. ch < 128) sig"
  shows "\<exists>w' detail. verify_webhook_signature S c body (Some ts) (Some sig) w = (Inl (TypeError detail), w') \<and>
    metrics w' = metrics w"
proof -
  obtain now x where now: "time_now S (ext w) = (now, x)" by fastforce
  have "sig \<noteq> []" using assms(6) by auto
  then show ?thesis
    using verify_present [of c ts sig v S w now x body] assms now
    by (simp add: judge_def compare_digest_def)
qed

theorem non_ascii_signature_is_an_error_witness:
  "\<exists>w' detail. verify_webhook_signature calm signed_settings [] (Some [55]) (Some [233]) calm_start
      = (Inl (TypeError detail), w') \<and> metrics w' = metrics calm_start"
proof -
  have v: "py_int 10 [55] = Inr 7"
    by (rule py_int_str_int) (simp add: py_str_int_def dec_digits.simps int_max_str_digits_def)
  obtain good where "expected_signature (webhook_secret signed_settings) [55] [] = Inr good"
    by (simp add: expected_signature_def signed_settings_def utf8_encode_lit_k)
      (simp add: lit_def utf8_encode_def scalar_def)
  then show ?thesis
    by (intro non_ascii_signature_is_an_error [OF _ v])
      (simp_all add: calm_def calm_start_def calm_tick_def init_world_def signed_settings_def
        default_settings_def)
qed

text \<open>
  \<open>require_api_key\<close> lets a request through exactly when no key is configured or the header
  is the configured (ASCII) key; a missing or wrong ASCII key is answered 401.
\<close>

lemma require_api_key_accepts:
  "(require_api_key c x_api_key = Inr () \<longleftrightarrow>
      api_key c = [] \<or> x_api_key = Some (api_key c) \<and> list_all (\<lambda>ch. ch < 128) (api_key c)) \<and>
   (require_api_key c x_api_key \<in> {Inr (), Inl (HTTPException 401 (lit ''Invalid API key''))} \<or>
      (\<exists>k detail. x_api_key = Some k \<and> require_api_key c x_api_key = Inl (TypeError detail) \<and>
        (\<exists>ch \<in> set k \<union> set (api_key c). 128 \<le> ch)))"
  by (auto simp: require_api_key_def unauthorized_def compare_digest_def sum_bind_def list_all_iff
      not_less split: option.splits)

end
