(* ===== verification/Webhooks.thy ===== *)
theory Webhooks
  imports Queue Processor Security "HOL-Library.Multiset"
begin

text \<open>
  app/routers/webhooks.py and app/schemas.py: the request and response models and the handlers.
  What FastAPI does before a handler runs (routing, decoding the body, converting path and query
  parameters) is outside; the bounds the program declares on its inputs are checked here.
\<close>

section \<open>Schemas\<close>

record webhook_in =
  in_source :: pystr
  in_event_type :: pystr
  in_payload :: dict

record webhook_accepted =
  accepted_status :: pystr
  accepted_event_id :: uuid
  accepted_delivery_id :: "pystr option"

text \<open>\<open>EventOut\<close>, read off an \<open>Event\<close> attribute by attribute (\<open>from_attributes\<close>).\<close>

record event_out =
  out_id :: uuid
  out_delivery_id :: "pystr option"
  out_request_id :: "pystr option"
  out_source :: pystr
  out_event_type :: pystr
  out_payload :: dict
  out_received_at :: int
  out_processing_status :: pystr
  out_processing_attempts :: int
  out_processed_at :: "int option"
  out_error_message :: "pystr option"

definition event_out_of :: "event \<Rightarrow> event_out" where
  "event_out_of event =
     \<lparr>out_id = ev_id event, out_delivery_id = delivery_id event, out_request_id = request_id event,
      out_source = source event, out_event_type = event_type event, out_payload = payload event,
      out_received_at = received_at event,
      out_processing_status = status_text (processing_status event),
      out_processing_attempts = processing_attempts event,
      out_processed_at = processed_at event, out_error_message = error_message event\<rparr>"

record events_list_out =
  items :: "event_out list"
  list_limit :: nat
  list_offset :: nat

record events_summary_out = events_summary +
  queue_depth :: "nat option"
  retry_queue_depth :: "nat option"
  dead_letter_queue_depth :: "nat option"

record queue_stats_out =
  stats_backend :: pystr
  stats_enabled :: bool
  stats_queue_name :: "pystr option"
  stats_depth :: "nat option"
  stats_retry_queue_name :: "pystr option"
  stats_retry_depth :: "nat option"
  stats_dead_letter_queue_name :: "pystr option"
  stats_dead_letter_depth :: "nat option"

record dlq_redrive_out =
  redrive_status :: pystr
  redriven_count :: nat
  redriven_event_ids :: "uuid list"

record retry_accepted =
  retry_status :: pystr
  retry_event_id :: uuid

text \<open>\<open>Field(min_length=1, max_length=128)\<close>; pydantic takes no other JSON value for a \<open>str\<close>.\<close>

definition name_field :: "dict \<Rightarrow> string \<Rightarrow> exn + pystr" where
  "name_field d key =
     (case dict_get d (lit key) of
        Some (JStr s) \<Rightarrow> if 1 \<le> length s \<and> length s \<le> 128 then Inr s else Inl RequestValidationError
      | _ \<Rightarrow> Inl RequestValidationError)"

definition validate_webhook_in :: "json \<Rightarrow> exn + webhook_in" where
  "validate_webhook_in v =
     (case v of
        JObj d \<Rightarrow>
          sum_bind (name_field d ''source'') (\<lambda>src.
          sum_bind (name_field d ''event_type'') (\<lambda>etype.
          (case dict_get d (lit ''payload'') of
             Some (JObj data) \<Rightarrow> Inr \<lparr>in_source = src, in_event_type = etype, in_payload = data\<rparr>
           | _ \<Rightarrow> Inl RequestValidationError)))
      | _ \<Rightarrow> Inl RequestValidationError)"

section \<open>Queue errors as HTTP errors\<close>

definition queue_unavailable_503 :: exn where
  "queue_unavailable_503 = HTTPException 503 (lit ''Queue unavailable'')"

definition or_503 :: "('x world, 'a) io \<Rightarrow> ('x world, 'a) io" where
  "or_503 m =
     io_catch m (\<lambda>e. io_raise (if is_queue_unavailable e then queue_unavailable_503 else e))"

definition get_queue_depth_or_none :: "'x services \<Rightarrow> settings \<Rightarrow> ('x world, nat option) io" where
  "get_queue_depth_or_none S c =
     or_503 (io_bind (get_queue_snapshot S c) (\<lambda>snapshot. io_return (main_depth snapshot)))"

definition get_queue_snapshot_or_raise :: "'x services \<Rightarrow> settings \<Rightarrow> ('x world, queue_snapshot) io" where
  "get_queue_snapshot_or_raise S c = or_503 (get_queue_snapshot S c)"

section \<open>Handlers\<close>

text \<open>\<open>background_tasks.add_task(process_event_by_id, event_id, final_attempt=True)\<close>\<close>

definition add_task :: "uuid \<Rightarrow> ('x world, unit) io" where
  "add_task event_id = io_modify (\<lambda>w. w\<lparr>tasks := tasks w @ [(event_id, True)]\<rparr>)"

definition schedule_event :: "'x services \<Rightarrow> settings \<Rightarrow> uuid \<Rightarrow> ('x world, unit) io" where
  "schedule_event S c event_id =
     (if is_queue_enabled c then or_503 (enqueue_event S c event_id 1) else add_task event_id)"

text \<open>\<open>hdrs\<close> is \<open>request.headers.get\<close>, \<open>rid\<close> is \<open>request.state.request_id\<close>.\<close>

definition receive_webhook ::
  "'x services \<Rightarrow> settings \<Rightarrow> (pystr \<Rightarrow> pystr option) \<Rightarrow> bytes \<Rightarrow> pystr option \<Rightarrow> webhook_in \<Rightarrow>
    ('x world, webhook_accepted) io" where
  "receive_webhook S c hdrs body rid data =
     (let dlv = hdrs (webhook_id_header c)
      in io_then (verify_webhook_signature S c body (hdrs (webhook_timestamp_header c))
                    (hdrs (webhook_signature_header c)))
        (io_bind (if absent dlv then io_return None else get_event_by_delivery_id S (the dlv)) (\<lambda>found.
         case found of
           Some existing \<Rightarrow>
             io_then (set_metrics record_duplicate)
            (io_then (set_metrics (record_webhook_intake (in_source data) (lit ''duplicate'')))
                     (io_return \<lparr>accepted_status = lit ''duplicate'', accepted_event_id = ev_id existing,
                        accepted_delivery_id = delivery_id existing\<rparr>))
         | None \<Rightarrow>
             io_bind (create_event S dlv rid (in_source data) (in_event_type data) (in_payload data)) (\<lambda>event.
             io_then (schedule_event S c (ev_id event))
            (io_then (set_metrics (record_webhook_intake (in_source data) (lit ''accepted'')))
                     (io_return \<lparr>accepted_status = lit ''accepted'', accepted_event_id = ev_id event,
                        accepted_delivery_id = delivery_id event\<rparr>))))))"

definition get_events ::
  "'x services \<Rightarrow> int \<Rightarrow> int \<Rightarrow> pystr option \<Rightarrow> ('x world, events_list_out) io" where
  "get_events S limit offset src =
     (if \<not> (1 \<le> limit \<and> limit \<le> 100 \<and> 0 \<le> offset \<and>
             (case src of None \<Rightarrow> True | Some s \<Rightarrow> 1 \<le> length s \<and> length s \<le> 128))
      then io_raise RequestValidationError
      else io_bind (list_events S (nat limit) (nat offset) src) (\<lambda>rows.
             io_return \<lparr>items = map event_out_of rows, list_limit = nat limit, list_offset = nat offset\<rparr>))"

definition get_events_summary_out :: "'x services \<Rightarrow> settings \<Rightarrow> ('x world, events_summary_out) io" where
  "get_events_summary_out S c =
     io_bind (get_events_summary S) (\<lambda>s.
     io_bind (get_queue_snapshot_or_raise S c) (\<lambda>snapshot.
     io_return (events_summary.extend s \<lparr>queue_depth = main_depth snapshot,
       retry_queue_depth = retry_depth snapshot,
       dead_letter_queue_depth = dead_letter_depth snapshot\<rparr>)))"

definition get_queue_stats :: "'x services \<Rightarrow> settings \<Rightarrow> ('x world, queue_stats_out) io" where
  "get_queue_stats S c =
     io_bind (get_queue_snapshot_or_raise S c) (\<lambda>snapshot.
     io_return
       \<lparr>stats_backend = task_queue_backend c,
        stats_enabled = is_queue_enabled c,
        stats_queue_name = (if is_queue_enabled c then Some (event_queue_name c) else None),
        stats_depth = main_depth snapshot,
        stats_retry_queue_name =
          (if task_queue_backend c = lit ''rabbitmq'' then Some (retry_queue_name c) else None),
        stats_retry_depth = retry_depth snapshot,
        stats_dead_letter_queue_name =
          (if task_queue_backend c = lit ''rabbitmq'' then Some (dead_letter_queue_name c) else None),
        stats_dead_letter_depth = dead_letter_depth snapshot\<rparr>)"

definition retry_event :: "'x services \<Rightarrow> settings \<Rightarrow> uuid \<Rightarrow> ('x world, retry_accepted) io" where
  "retry_event S c event_id =
     io_bind (get_event_by_id S event_id) (\<lambda>found.
       case found of
         None \<Rightarrow> io_raise (HTTPException 404 (lit ''Event not found''))
       | Some event \<Rightarrow>
           if processing_status event = PROCESSED
           then io_raise (HTTPException 409 (lit ''Processed event cannot be retried''))
           else io_then (schedule_event S c (ev_id event))
                  (io_return \<lparr>retry_status = lit ''retry_scheduled'', retry_event_id = ev_id event\<rparr>))"

definition redrive_dlq :: "'x services \<Rightarrow> settings \<Rightarrow> int \<Rightarrow> ('x world, dlq_redrive_out) io" where
  "redrive_dlq S c limit =
     (if \<not> (1 \<le> limit \<and> limit \<le> 100) then io_raise RequestValidationError
      else io_bind (redrive_dead_letter S c (nat limit)) (\<lambda>redriven.
           io_then (mark_events_pending S redriven)
                   (io_return \<lparr>redrive_status = lit ''redrive_scheduled'',
                      redriven_count = length redriven, redriven_event_ids = redriven\<rparr>)))"

text \<open>The background tasks of a request, after its response: in order, up to the first that raises.\<close>

fun run_tasks :: "'x services \<Rightarrow> (uuid \<times> bool) list \<Rightarrow> ('x world, unit) io" where
  "run_tasks S [] = io_return ()"
| "run_tasks S ((i, final) # ts) = io_then (process_event_by_id S i final) (run_tasks S ts)"

definition background_tasks :: "'x services \<Rightarrow> ('x world, unit) io" where
  "background_tasks S =
     io_bind (io_gets tasks) (\<lambda>ts. io_then (io_modify (\<lambda>w. w\<lparr>tasks := []\<rparr>)) (run_tasks S ts))"

section \<open>Frames\<close>

lemma keeps_scalar [keeps_rules]: "keeps f (io_lift r)"
  by (rule keeps_basic)

lemma keeps_delivery_lookup [keeps_rules]:
  "keeps trace (get_event_by_delivery_id S d)" "keeps tasks (get_event_by_delivery_id S d)"
  "keeps metrics (get_event_by_delivery_id S d)" "keeps trace (get_event_by_id S i)"
  "keeps tasks (get_event_by_id S i)"
  unfolding get_event_by_delivery_id_def get_event_by_id_def by (intro keeps_rules)+

lemma keeps_create_event [keeps_rules]:
  "keeps trace (create_event S dlv rid src etype data)"
  "keeps tasks (create_event S dlv rid src etype data)"
  unfolding create_event_def by (intro keeps_rules)+

lemma keeps_trace_mark: "keeps trace (mark_events_pending S ids)"
  unfolding mark_events_pending_def by (intro keeps_rules)

lemma keeps_metrics_mark: "keeps metrics (mark_events_pending S ids)"
  unfolding mark_events_pending_def by (intro keeps_rules)

lemma find_marked:
  "find_event (mark_rows ids t) i = map_option (\<lambda>event.
     if i \<in> set ids \<and> processing_status event \<noteq> PROCESSED
     then event\<lparr>processing_status := PENDING, error_message := None, processed_at := None\<rparr>
     else event) (find_event t i)"
  using rows.find_ev_id [of t i]
  by (cases "find_event t i") (simp_all add: rows.find_mark mark_row_def)

lemma keeps_verify_trace [keeps_rules]: "keeps trace (verify_webhook_signature S c body ts sig)"
proof -
  have "keeps trace (ask f :: ('a world, 'b) io)" for f :: "'a \<Rightarrow> 'b \<times> 'a"
    by (rule keeps_trace_ask)
  then show ?thesis
    unfolding verify_webhook_signature_def signature_failure_def by (intro keeps_rules)
qed

context metrics_blind
begin

lemma keeps_snapshot_or_raise [keeps_rules]: "keeps view (get_queue_snapshot_or_raise S c)"
  unfolding get_queue_snapshot_or_raise_def or_503_def by (intro keeps_rules)

end

lemma keeps_schedule_table [keeps_rules]: "keeps table (schedule_event S c i)"
proof -
  have "keeps table (add_task i)" unfolding add_task_def by (rule keeps_modify) simp
  then show ?thesis unfolding schedule_event_def or_503_def by (intro keeps_rules)
qed

section \<open>Putting an event on its way\<close>

text \<open>
  How an event reaches the processor: a message for its first attempt on the configured queue, or
  a background task of the request when no queue is configured.
\<close>

definition scheduled :: "settings \<Rightarrow> uuid \<Rightarrow> 'x world \<Rightarrow> 'x world \<Rightarrow> bool" where
  "scheduled c i w w' \<longleftrightarrow>
     (if is_queue_enabled c
      then tasks w' = tasks w \<and>
        (\<exists>pre p. list_all preparing pre \<and> trace w' = trace w @ pre @ [p] \<and>
          (task_queue_backend c = lit ''rabbitmq'' \<and> published c (event_queue_name c) i 1 p \<or>
           task_queue_backend c = lit ''redis'' \<and>
             p = Done (RedisPush (event_queue_name c) (uuid_str i))))
      else trace w' = trace w \<and> tasks w' = tasks w @ [(i, True)])"

lemma schedule_event_cases:
  assumes "schedule_event S c i w = (r, w')"
  obtains (ok) "r = Inr ()" "scheduled c i w w'"
  | (unavailable) es where "r = Inl queue_unavailable_503" "is_queue_enabled c" "never_acks es"
      "trace w' = trace w @ es" "tasks w' = tasks w" "sends_nothing es"
proof (cases "is_queue_enabled c")
  case False
  with assms show thesis by (intro ok) (auto simp: schedule_event_def add_task_def scheduled_def)
next
  case True
  obtain r1 w1 where r1: "enqueue_event S c i 1 w = (r1, w1)" by fastforce
  have t: "tasks w1 = tasks w" by (rule keepsD_run [OF tasks_view.keeps_enqueue_event r1])
  have run: "(r, w') = (case r1 of Inl e \<Rightarrow> Inl (if is_queue_unavailable e then queue_unavailable_503 else e)
      | Inr _ \<Rightarrow> Inr (), w1)"
    using assms True r1 by (cases r1) (auto simp: schedule_event_def or_503_def)
  from r1 show thesis
  proof (cases rule: enqueue_event_cases)
    case (sent_rabbitmq pre p)
    with run t True show thesis by (intro ok) (auto simp: scheduled_def)
  next
    case (sent_redis pre)
    with run t True show thesis by (intro ok) (auto simp: scheduled_def)
  next
    case (unavailable es)
    with run t True show thesis by (intro that(2) [of es]) auto
  qed
qed

section \<open>The intake\<close>

lemma delivery_lookup:
  assumes "distinct (delivery_ids (table w))"
    and "get_event_by_delivery_id S d w = (r, w')"
  obtains (found) row where "r = Inr (Some row)" "row \<in> set (table w)" "delivery_id row = Some d"
      "\<And>x. x \<in> set (table w) \<Longrightarrow> delivery_id x = Some d \<Longrightarrow> x = row"
  | (fresh) "r = Inr None" "\<And>x. x \<in> set (table w) \<Longrightarrow> delivery_id x \<noteq> Some d"
  | (error) e x x' where "r = Inl e" "db_query S x = (Inl e, x')"
proof -
  obtain q x where q: "db_query S (ext w) = (q, x)" by fastforce
  show thesis
  proof (cases q)
    case (Inl e)
    with assms(2) q show thesis
      by (intro error [of e]) (auto simp: get_event_by_delivery_id_def io_bind_def query_run)
  next
    case (Inr v)
    have r: "r = scalar_one_or_none (rows_by_delivery (table w) d)"
      using assms(2) q Inr by (auto simp: get_event_by_delivery_id_def io_bind_def query_run)
    have mem: "x \<in> set (rows_by_delivery (table w) d)" if "x \<in> set (table w)" "delivery_id x = Some d" for x
      using that by (simp add: rows_by_delivery_def)
    from rows_by_delivery_distinct [OF assms(1), of d] show thesis
    proof (elim disjE bexE)
      assume none: "rows_by_delivery (table w) d = []"
      have "r = Inr None" by (simp add: r none scalar_one_or_none_def)
      moreover have "delivery_id x \<noteq> Some d" if "x \<in> set (table w)" for x
        using mem [OF that] none by auto
      ultimately show thesis by (rule fresh)
    next
      fix row assume row: "row \<in> set (table w)"
        and one: "rows_by_delivery (table w) d = [row] \<and> delivery_id row = Some d"
      have "r = Inr (Some row)" by (simp add: r one scalar_one_or_none_def)
      moreover note row conjunct2 [OF one]
      moreover have "x = row" if "x \<in> set (table w)" "delivery_id x = Some d" for x
        using mem [OF that] one by auto
      ultimately show thesis by (rule found)
    qed
  qed
qed

text \<open>The event that the intake of \<open>data\<close> stores.\<close>

definition stored :: "pystr option \<Rightarrow> pystr option \<Rightarrow> webhook_in \<Rightarrow> event \<Rightarrow> bool" where
  "stored dlv rid data event \<longleftrightarrow>
     event = new_event (ev_id event) (received_at event) dlv rid (in_source data)
       (in_event_type data) (in_payload data)"

definition committed :: "'x services \<Rightarrow> event list \<Rightarrow> bool" where
  "committed S t \<longleftrightarrow> (\<exists>x. fst (db_commit S t x) = Inr ())"

definition intake_out :: "string \<Rightarrow> event \<Rightarrow> webhook_accepted" where
  "intake_out status event =
     \<lparr>accepted_status = lit status, accepted_event_id = ev_id event,
      accepted_delivery_id = delivery_id event\<rparr>"

lemma set_metrics_run: "set_metrics f w = (Inr (), w\<lparr>metrics := f (metrics w)\<rparr>)"
  by (simp add: set_metrics_def)

lemma scheduled_frame:
  "trace u = trace w \<Longrightarrow> tasks u = tasks w \<Longrightarrow> trace u' = trace w' \<Longrightarrow> tasks u' = tasks w' \<Longrightarrow>
    scheduled c i u u' \<longleftrightarrow> scheduled c i w w'"
  by (simp add: scheduled_def)

text \<open>Storing and scheduling, the branch for a delivery that is not known.\<close>

definition intake_new ::
  "'x services \<Rightarrow> settings \<Rightarrow> pystr option \<Rightarrow> pystr option \<Rightarrow> webhook_in \<Rightarrow> ('x world, webhook_accepted) io" where
  "intake_new S c dlv rid data =
     io_bind (create_event S dlv rid (in_source data) (in_event_type data) (in_payload data)) (\<lambda>event.
     io_then (schedule_event S c (ev_id event))
    (io_then (set_metrics (record_webhook_intake (in_source data) (lit ''accepted'')))
             (io_return (intake_out ''accepted'' event))))"

lemma intake_new_cases:
  assumes "intake_new S c dlv rid data w = (r, w')"
  obtains (refused) e where "r = Inl e" "table w' = table w" "trace w' = trace w" "tasks w' = tasks w"
      "create_event S dlv rid (in_source data) (in_event_type data) (in_payload data) w = (Inl e, w')"
  | (accepted) event where "r = Inr (intake_out ''accepted'' event)" "stored dlv rid data event"
      "table w' = insert_row (table w) event" "committed S (table w')" "scheduled c (ev_id event) w w'"
  | (stranded) event es where "r = Inl queue_unavailable_503" "stored dlv rid data event"
      "table w' = insert_row (table w) event" "committed S (table w')" "is_queue_enabled c"
      "never_acks es" "trace w' = trace w @ es" "tasks w' = tasks w" "sends_nothing es"
  | (unread) e event where "r = Inl e" "stored dlv rid data event"
      "table w' = insert_row (table w) event" "committed S (table w')"
      "trace w' = trace w" "tasks w' = tasks w"
      "create_event S dlv rid (in_source data) (in_event_type data) (in_payload data) w = (Inl e, w')"
proof -
  obtain r1 w1 where r1: "create_event S dlv rid (in_source data) (in_event_type data) (in_payload data) w = (r1, w1)"
    by fastforce
  have f1: "trace w1 = trace w" "tasks w1 = tasks w"
    by (rule keepsD_run [OF keeps_create_event(1) r1], rule keepsD_run [OF keeps_create_event(2) r1])
  from r1 show thesis
  proof (cases rule: create_event_cases)
    case (refused e)
    with assms r1 f1 show thesis by (intro that(1) [of e]) (auto simp: intake_new_def)
  next
    case (unread e event)
    then have "r = Inl e" "w' = w1" using assms r1 by (auto simp: intake_new_def)
    with unread f1 r1 show thesis by (intro that(4) [of e event]) (simp_all add: stored_def committed_def)
  next
    case (created event)
    obtain r2 w2 where r2: "schedule_event S c (ev_id event) w1 = (r2, w2)" by fastforce
    have t2: "table w2 = table w1" by (rule keepsD_run [OF keeps_schedule_table r2])
    from r2 show thesis
    proof (cases rule: schedule_event_cases)
      case ok
      then have r: "r = Inr (intake_out ''accepted'' event)"
        and w': "w' = w2\<lparr>metrics := record_webhook_intake (in_source data) (lit ''accepted'') (metrics w2)\<rparr>"
        using assms r1 created r2 by (simp_all add: intake_new_def set_metrics_run)
      have "scheduled c (ev_id event) w w'"
        using ok(2) f1 w' scheduled_frame [of w1 w w2 w'] by simp
      with r w' t2 created show thesis
        by (intro that(2) [of event]) (simp_all add: stored_def committed_def)
    next
      case (unavailable es)
      then have "r = Inl queue_unavailable_503" "w' = w2"
        using assms r1 created r2 by (simp_all add: intake_new_def)
      with unavailable f1 t2 created show thesis
        by (intro that(3) [of event es]) (simp_all add: stored_def committed_def)
    qed
  qed
qed

lemma receive_webhook_alt:
  "receive_webhook S c hdrs body rid data =
     (let dlv = hdrs (webhook_id_header c)
      in io_then (verify_webhook_signature S c body (hdrs (webhook_timestamp_header c))
                    (hdrs (webhook_signature_header c)))
        (io_bind (if absent dlv then io_return None else get_event_by_delivery_id S (the dlv)) (\<lambda>found.
         case found of
           Some existing \<Rightarrow>
             io_then (set_metrics record_duplicate)
            (io_then (set_metrics (record_webhook_intake (in_source data) (lit ''duplicate'')))
                     (io_return (intake_out ''duplicate'' existing)))
         | None \<Rightarrow> intake_new S c dlv rid data)))"
  unfolding receive_webhook_def intake_new_def intake_out_def by (rule refl)

lemma receive_webhook_cases:
  assumes "distinct (delivery_ids (table w))"
    and "receive_webhook S c hdrs body rid data w = (r, w')"
  obtains (refused) e where "r = Inl e" "table w' = table w" "trace w' = trace w" "tasks w' = tasks w"
      "verify_webhook_signature S c body (hdrs (webhook_timestamp_header c))
         (hdrs (webhook_signature_header c)) w = (Inl e, w') \<or>
       (\<exists>d w1. table w1 = table w \<and> get_event_by_delivery_id S d w1 = (Inl e, w'))"
  | (duplicate) d row where "hdrs (webhook_id_header c) = Some d" "d \<noteq> []" "row \<in> set (table w)"
      "delivery_id row = Some d" "r = Inr (intake_out ''duplicate'' row)" "table w' = table w"
      "trace w' = trace w" "tasks w' = tasks w"
  | (new) w1 where "absent (hdrs (webhook_id_header c)) \<or>
        (\<forall>x \<in> set (table w). delivery_id x \<noteq> hdrs (webhook_id_header c))"
      "table w1 = table w" "trace w1 = trace w" "tasks w1 = tasks w"
      "intake_new S c (hdrs (webhook_id_header c)) rid data w1 = (r, w')"
proof -
  let ?dlv = "hdrs (webhook_id_header c)"
  let ?verify = "verify_webhook_signature S c body (hdrs (webhook_timestamp_header c))
    (hdrs (webhook_signature_header c))"
  obtain r1 w1 where r1: "?verify w = (r1, w1)" by fastforce
  have f1: "table w1 = table w" "trace w1 = trace w" "tasks w1 = tasks w"
    using keepsD_run [OF table_frame.keeps_verify r1] keepsD_run [OF keeps_verify_trace r1]
      keepsD_run [OF tasks_frame.keeps_verify r1] by simp_all
  show thesis
  proof (cases r1)
    case (Inl e)
    with assms(2) r1 f1 show thesis
      by (intro refused [of e]) (auto simp: receive_webhook_alt Let_def)
  next
    case ok: (Inr v)
    show thesis
    proof (cases "absent ?dlv")
      case True
      with assms(2) r1 ok f1 show thesis
        by (intro new [of w1]) (auto simp: receive_webhook_alt Let_def)
    next
      case False
      then obtain d where d: "?dlv = Some d" "d \<noteq> []" by (auto simp: absent_def)
      obtain r2 w2 where r2: "get_event_by_delivery_id S d w1 = (r2, w2)" by fastforce
      have f2: "table w2 = table w" "trace w2 = trace w" "tasks w2 = tasks w"
        using keepsD_run [OF keeps_lookups(2) r2] keepsD_run [OF keeps_delivery_lookup(1) r2]
          keepsD_run [OF keeps_delivery_lookup(2) r2] f1 by simp_all
      have dist: "distinct (delivery_ids (table w1))" using assms(1) f1 by simp
      from dist r2 show thesis
      proof (cases rule: delivery_lookup)
        case (error e)
        with assms(2) r1 ok False d r2 f2 f1(1) show thesis
          by (intro refused [of e]) (auto simp: receive_webhook_alt Let_def)
      next
        case fresh
        have "intake_new S c ?dlv rid data w2 = (r, w')"
          using assms(2) r1 ok False d r2 fresh(1) by (simp add: receive_webhook_alt Let_def)
        with fresh(2) d f1 f2 show thesis by (intro new [of w2]) simp_all
      next
        case (found row)
        have "r = Inr (intake_out ''duplicate'' row)" "table w' = table w2" "trace w' = trace w2"
          "tasks w' = tasks w2"
          using assms(2) r1 ok False d r2 found(1)
          by (auto simp: receive_webhook_alt Let_def set_metrics_run)
        with d found(2,3) f1 f2 show thesis by (intro duplicate [of d row]) simp_all
      qed
    qed
  qed
qed

section \<open>Properties of the intake\<close>

definition sample_webhook :: webhook_in where
  "sample_webhook = \<lparr>in_source = lit ''shop'', in_event_type = lit ''order'', in_payload = []\<rparr>"

definition delivery_header :: "settings \<Rightarrow> pystr \<Rightarrow> pystr \<Rightarrow> pystr option" where
  "delivery_header c d h = (if h = webhook_id_header c then Some d else None)"

definition known_event :: "pystr \<Rightarrow> event" where
  "known_event d = new_event 5 0 (Some d) None (lit ''shop'') (lit ''order'') []"

text \<open>
  C10: redelivery is idempotent. When an event with the request's (non-empty) delivery id is
  stored, a request that passes the checks is answered "duplicate" with that event's id and the
  same delivery id; in every case, the failing ones included, nothing is stored, published or
  scheduled.
\<close>

theorem redelivery_is_idempotent:
  assumes "constraints (table w)" and "row \<in> set (table w)" and "delivery_id row = Some d" and "d \<noteq> []"
    and "hdrs (webhook_id_header c) = Some d"
  shows "case receive_webhook S c hdrs body rid data w of (r, w') \<Rightarrow>
    table w' = table w \<and> trace w' = trace w \<and> tasks w' = tasks w \<and>
    (case r of
       Inr out \<Rightarrow> out = \<lparr>accepted_status = lit ''duplicate'', accepted_event_id = ev_id row,
         accepted_delivery_id = Some d\<rparr>
     | Inl _ \<Rightarrow> True)"
proof -
  have dist: "distinct (delivery_ids (table w))" using assms(1) by (simp add: constraints_def)
  obtain r w' where run: "receive_webhook S c hdrs body rid data w = (r, w')" by fastforce
  from dist run show ?thesis
  proof (cases rule: receive_webhook_cases)
    case (refused e)
    then show ?thesis by (simp add: run)
  next
    case (duplicate d' row')
    then have "d' = d" using assms(5) by simp
    then have "row' \<in> set (rows_by_delivery (table w) d)" "row \<in> set (rows_by_delivery (table w) d)"
      using duplicate assms(2,3) by (simp_all add: rows_by_delivery_def)
    then have "row' = row"
      using rows_by_delivery_distinct [OF dist, of d] by auto
    with duplicate show ?thesis using assms(3) by (simp add: run intake_out_def)
  next
    case (new w1)
    with assms(2-5) show ?thesis by (auto simp: absent_def)
  qed
qed

theorem redelivery_is_idempotent_witness:
  "case receive_webhook calm default_settings (delivery_header default_settings [100]) [] None
      sample_webhook (calm_start\<lparr>table := [known_event [100]]\<rparr>) of (r, w') \<Rightarrow>
    table w' = table (calm_start\<lparr>table := [known_event [100]]\<rparr>) \<and>
    trace w' = trace (calm_start\<lparr>table := [known_event [100]]\<rparr>) \<and>
    tasks w' = tasks (calm_start\<lparr>table := [known_event [100]]\<rparr>) \<and>
    (case r of
       Inr out \<Rightarrow> out = \<lparr>accepted_status = lit ''duplicate'', accepted_event_id = ev_id (known_event [100]),
         accepted_delivery_id = Some [100]\<rparr>
     | Inl _ \<Rightarrow> True)"
  by (rule redelivery_is_idempotent)
    (simp_all add: constraints_def known_event_def new_event_def delivery_header_def)

text \<open>
  C12: a new delivery. When no stored event has the request's delivery id, an accepted request has
  added exactly one PENDING row, holding the request's data, and put exactly one first attempt of
  it on its way (a message on the main queue, or a background task without a queue), and answers
  with its id. A failing request acknowledges nothing, schedules no task, and has added at most
  that row.
\<close>

theorem new_delivery_is_stored_and_scheduled:
  assumes "constraints (table w)"
    and "\<And>x. x \<in> set (table w) \<Longrightarrow> delivery_id x = None \<or> delivery_id x \<noteq> hdrs (webhook_id_header c)"
  shows "case receive_webhook S c hdrs body rid data w of
      (Inr out, w') \<Rightarrow> \<exists>event. table w' = table w @ [event] \<and> scheduled c (ev_id event) w w' \<and>
        stored (hdrs (webhook_id_header c)) rid data event \<and> processing_status event = PENDING \<and>
        out = \<lparr>accepted_status = lit ''accepted'', accepted_event_id = ev_id event,
          accepted_delivery_id = hdrs (webhook_id_header c)\<rparr>
    | (Inl e, w') \<Rightarrow> tasks w' = tasks w \<and> (\<exists>es. never_acks es \<and> trace w' = trace w @ es) \<and>
        (table w' = table w \<or>
         (\<exists>event. table w' = table w @ [event] \<and> stored (hdrs (webhook_id_header c)) rid data event))"
proof -
  have dist: "distinct (delivery_ids (table w))" using assms(1) by (simp add: constraints_def)
  have quiet: "never_acks [] \<and> trace w = trace w @ []" by simp
  obtain r w' where run: "receive_webhook S c hdrs body rid data w = (r, w')" by fastforce
  from dist run show ?thesis
  proof (cases rule: receive_webhook_cases)
    case (refused e)
    with quiet show ?thesis unfolding run refused(1) sum.case prod.case by metis
  next
    case (duplicate d row)
    with assms(2) [OF duplicate(3)] show ?thesis by simp
  next
    case (new w1)
    from new(5) show ?thesis
    proof (cases rule: intake_new_cases)
      case (refused e)
      with new quiet show ?thesis unfolding run refused(1) sum.case prod.case by metis
    next
      case (accepted event)
      have "processing_status event = PENDING \<and> delivery_id event = hdrs (webhook_id_header c)"
        using accepted(2) by (metis stored_def new_event_def event.select_convs(2,8))
      moreover have "scheduled c (ev_id event) w w'"
        using accepted(5) new(3,4) scheduled_frame [of w1 w w' w'] by simp
      moreover have "table w' = table w @ [event]" using accepted new by (simp add: insert_row_def)
      ultimately show ?thesis using accepted(1,2)
        unfolding run accepted(1) sum.case prod.case by (auto simp: intake_out_def)
    next
      case (stranded event es)
      have "table w' = table w @ [event]" using stranded new by (simp add: insert_row_def)
      with stranded new show ?thesis unfolding run stranded(1) sum.case prod.case by metis
    next
      case (unread e event)
      have "table w' = table w @ [event]" using unread new by (simp add: insert_row_def)
      with unread new quiet show ?thesis unfolding run unread(1) sum.case prod.case by metis
    qed
  qed
qed

theorem new_delivery_is_stored_and_scheduled_witness:
  "case receive_webhook calm default_settings (delivery_header default_settings [100]) [] None
      sample_webhook calm_start of
      (Inr out, w') \<Rightarrow> \<exists>event. table w' = table calm_start @ [event] \<and>
        scheduled default_settings (ev_id event) calm_start w' \<and>
        stored (delivery_header default_settings [100] (webhook_id_header default_settings)) None
          sample_webhook event \<and> processing_status event = PENDING \<and>
        out = \<lparr>accepted_status = lit ''accepted'', accepted_event_id = ev_id event,
          accepted_delivery_id =
            delivery_header default_settings [100] (webhook_id_header default_settings)\<rparr>
    | (Inl e, w') \<Rightarrow> tasks w' = tasks calm_start \<and>
        (\<exists>es. never_acks es \<and> trace w' = trace calm_start @ es) \<and>
        (table w' = table calm_start \<or>
         (\<exists>event. table w' = table calm_start @ [event] \<and>
            stored (delivery_header default_settings [100] (webhook_id_header default_settings)) None
              sample_webhook event))"
  by (rule new_delivery_is_stored_and_scheduled)
    (simp_all add: calm_start_def init_world_def constraints_def)

text \<open>A database that enforces the declared constraints: it commits no table that breaks them.\<close>

definition enforces :: "'x services \<Rightarrow> bool" where
  "enforces S \<longleftrightarrow> (\<forall>t x. fst (db_commit S t x) = Inr () \<longrightarrow> constraints t)"

lemma committed_constraints: "enforces S \<Longrightarrow> committed S t \<Longrightarrow> constraints t"
  by (auto simp: enforces_def committed_def)

lemma enforces_calm: "enforces calm"
  by (simp add: enforces_def calm_def)

text \<open>
  A database that answers its queries; what it may refuse is a commit, with errors of its own and
  not the 503 of the handlers.
\<close>

definition db_reads :: "'x services \<Rightarrow> bool" where
  "db_reads S \<longleftrightarrow>
     (\<forall>x. fst (db_query S x) = Inr () \<and> fst (db_rollback S x) \<noteq> Inl queue_unavailable_503) \<and>
     (\<forall>t x. fst (db_commit S t x) \<noteq> Inl queue_unavailable_503)"

lemma verify_not_503:
  assumes "verify_webhook_signature S c body timestamp signature w = (Inl e, w')"
  shows "e \<noteq> queue_unavailable_503"
proof (cases "webhook_secret c = [] \<or> absent timestamp \<or> absent signature")
  case True
  then show ?thesis
    using assms by (auto simp: verify_webhook_signature_def absent_def signature_failure_def
        set_metrics_run unauthorized_def queue_unavailable_503_def split: option.splits if_splits)
next
  case False
  then obtain ts sig where p: "timestamp = Some ts" "ts \<noteq> []" "signature = Some sig" "sig \<noteq> []"
    "webhook_secret c \<noteq> []" by (auto simp: absent_def)
  have sig: "err \<noteq> queue_unavailable_503"
    if "sum_bind (expected_signature a b d) (compare_digest f) = Inl err" for a b d f err
    using that by (auto simp: sum_bind_Inl_iff expected_signature_def compare_digest_def
        utf8_encode_def queue_unavailable_503_def split: if_splits dest: utf8_decode_error)
  show ?thesis
  proof (cases "py_int 10 ts")
    case (Inl err)
    then show ?thesis
      using assms p py_int_errors [OF Inl] by (auto simp: verify_webhook_signature_def
          signature_failure_def set_metrics_run unauthorized_def queue_unavailable_503_def)
  next
    case (Inr v)
    obtain now x where now: "time_now S (ext w) = (now, x)" by fastforce
    show ?thesis
      using assms verify_present [of c ts sig v S w now x body] p Inr now
      by (auto simp: unauthorized_def judge_def queue_unavailable_503_def
          split: sum.splits bool.splits if_splits dest: sig [unfolded queue_unavailable_503_def])
  qed
qed

lemma lookup_answers:
  assumes "db_reads S" and "distinct (delivery_ids (table w))"
  shows "fst (get_event_by_delivery_id S d w) \<in> range Inr"
proof -
  obtain r w' where run: "get_event_by_delivery_id S d w = (r, w')" by fastforce
  from assms(2) run show ?thesis
  proof (cases rule: delivery_lookup)
    case (error e x x')
    then show ?thesis using assms(1) by (metis db_reads_def fst_conv sum.distinct(1))
  next
    case (found row)
    show ?thesis unfolding run found(1) by simp
  next
    case fresh
    show ?thesis unfolding run fresh(1) by simp
  qed
qed

lemma create_not_503:
  assumes "db_reads S" and "create_event S dlv rid src etype data w = (Inl e, w')"
  shows "e \<noteq> queue_unavailable_503"
proof -
  have calls: "raises_only (\<lambda>e. e \<noteq> queue_unavailable_503) (call (db_query S))"
    "raises_only (\<lambda>e. e \<noteq> queue_unavailable_503) (call (db_rollback S))"
    "raises_only (\<lambda>e. e \<noteq> queue_unavailable_503) (call (db_commit S t))" for t
    using assms(1) by (auto intro!: raises_only_call simp: db_reads_def)
  have "raises_only (\<lambda>e. e \<noteq> queue_unavailable_503) (create_event S dlv rid src etype data)"
    unfolding create_event_def commit_def
    by (intro raises_rules raises_only_catch [where Q = "\<lambda>e. e \<noteq> queue_unavailable_503"]
        raises_only_raise calls)
  then show ?thesis using assms(2) by (rule raises_onlyD)
qed

text \<open>What a request is answered when its delivery id is known.\<close>

lemma known_delivery_answer:
  assumes "db_reads S" and "distinct (delivery_ids (table w))" and "event \<in> set (table w)"
    and "delivery_id event = Some d" and "d \<noteq> []" and "hdrs (webhook_id_header c) = Some d"
  shows "case receive_webhook S c hdrs body rid data w of (r, w') \<Rightarrow>
    table w' = table w \<and> trace w' = trace w \<and> tasks w' = tasks w \<and>
    r = (case fst (verify_webhook_signature S c body (hdrs (webhook_timestamp_header c))
           (hdrs (webhook_signature_header c)) w) of
         Inl e \<Rightarrow> Inl e | Inr _ \<Rightarrow> Inr (intake_out ''duplicate'' event))"
proof -
  let ?verify = "verify_webhook_signature S c body (hdrs (webhook_timestamp_header c))
    (hdrs (webhook_signature_header c))"
  obtain r1 w1 where r1: "?verify w = (r1, w1)" by fastforce
  have f1: "table w1 = table w" "trace w1 = trace w" "tasks w1 = tasks w"
    using keepsD_run [OF table_frame.keeps_verify r1] keepsD_run [OF keeps_verify_trace r1]
      keepsD_run [OF tasks_frame.keeps_verify r1] by simp_all
  have there: "\<not> absent (Some d)" using assms(5) by (simp add: absent_def)
  show ?thesis
  proof (cases r1)
    case (Inl e)
    then show ?thesis using r1 f1 by (simp add: receive_webhook_alt Let_def)
  next
    case (Inr u)
    obtain r2 w2 where r2: "get_event_by_delivery_id S d w1 = (r2, w2)" by fastforce
    have f2: "table w2 = table w" "trace w2 = trace w" "tasks w2 = tasks w"
      using keepsD_run [OF keeps_lookups(2) r2] keepsD_run [OF keeps_delivery_lookup(1) r2]
        keepsD_run [OF keeps_delivery_lookup(2) r2] f1 by simp_all
    have dist: "distinct (delivery_ids (table w1))" using assms(2) f1 by simp
    from dist r2 have "r2 = Inr (Some event)"
    proof (cases rule: delivery_lookup)
      case (found row)
      then have "event = row" using assms(3,4) f1(1) by (intro found(4)) simp_all
      with found(1) show ?thesis by simp
    next
      case fresh
      then show ?thesis using fresh(2) [of event] assms(3,4) f1(1) by simp
    next
      case (error e x x')
      then show ?thesis using lookup_answers [OF assms(1) dist, of d] r2 by auto
    qed
    then show ?thesis
      using r1 Inr r2 f2 assms(6) there by (simp add: receive_webhook_alt Let_def set_metrics_run)
  qed
qed

text \<open>A 503 means that the event was stored and its first message was not sent.\<close>

lemma receive_503:
  assumes "db_reads S" and "distinct (delivery_ids (table w))"
    and "receive_webhook S c hdrs body rid data w = (Inl queue_unavailable_503, w')"
  obtains event es where "stored (hdrs (webhook_id_header c)) rid data event"
    "table w' = table w @ [event]" "committed S (table w')" "is_queue_enabled c"
    "tasks w' = tasks w" "trace w' = trace w @ es" "sends_nothing es"
  using assms(2,3)
proof (cases rule: receive_webhook_cases)
  case (refused e)
  from refused(1) have e: "e = queue_unavailable_503" by simp
  from refused(5) show thesis
  proof (elim disjE exE)
    assume "verify_webhook_signature S c body (hdrs (webhook_timestamp_header c))
      (hdrs (webhook_signature_header c)) w = (Inl e, w')"
    then show thesis using verify_not_503 e by blast
  next
    fix d w1 assume "table w1 = table w \<and> get_event_by_delivery_id S d w1 = (Inl e, w')"
    then show thesis using lookup_answers [OF assms(1), of w1 d] assms(2) by auto
  qed
next
  case (new w1)
  from new(5) show thesis
  proof (cases rule: intake_new_cases)
    case (refused e)
    then show thesis using create_not_503 [OF assms(1)] by blast
  next
    case (stranded event es)
    with new show thesis by (intro that [of event es]) (simp_all add: insert_row_def)
  next
    case (unread e event)
    then show thesis using create_not_503 [OF assms(1)] by blast
  next
    case (accepted event)
    then show thesis by simp
  qed
next
  case (duplicate d row)
  then show thesis by simp
qed

text \<open>
  C33: an event whose first message could not be queued stays behind. A delivery that is answered
  503 has been stored: exactly one PENDING row with the request's data was added, while no message
  was sent and no task scheduled. From then on, as long as the row is there, every redelivery with
  that id that passes the signature check is answered "duplicate" with the event's id, as if it
  had been accepted, and again stores, sends and schedules nothing, so that the sender's retries
  never put the event on its way.
\<close>

theorem unqueued_event_stays_behind:
  assumes "db_reads S" and "enforces S" and "constraints (table w)"
    and "hdrs (webhook_id_header c) = Some d" and "d \<noteq> []"
    and "receive_webhook S c hdrs body rid data w = (Inl queue_unavailable_503, w1)"
  shows "\<exists>event. table w1 = table w @ [event] \<and> stored (Some d) rid data event \<and>
    processing_status event = PENDING \<and> is_queue_enabled c \<and> tasks w1 = tasks w \<and>
    (\<exists>es. trace w1 = trace w @ es \<and> list_all (\<lambda>e. \<not> sends e) es) \<and>
    (\<forall>hdrs' body' rid' data' w2. hdrs' (webhook_id_header c) = Some d \<and> table w2 = table w1 \<longrightarrow>
       (case receive_webhook S c hdrs' body' rid' data' w2 of (r, w3) \<Rightarrow>
          table w3 = table w2 \<and> trace w3 = trace w2 \<and> tasks w3 = tasks w2 \<and>
          r = (case fst (verify_webhook_signature S c body' (hdrs' (webhook_timestamp_header c))
                 (hdrs' (webhook_signature_header c)) w2) of
               Inl e \<Rightarrow> Inl e
             | Inr _ \<Rightarrow> Inr \<lparr>accepted_status = lit ''duplicate'', accepted_event_id = ev_id event,
                 accepted_delivery_id = Some d\<rparr>)))"
proof -
  have dist: "distinct (delivery_ids (table w))" using assms(3) by (simp add: constraints_def)
  obtain event es where ev: "stored (hdrs (webhook_id_header c)) rid data event"
      "table w1 = table w @ [event]" "committed S (table w1)" "is_queue_enabled c"
      "tasks w1 = tasks w" "trace w1 = trace w @ es" "sends_nothing es"
    by (rule receive_503 [OF assms(1) dist assms(6)])
  have row: "delivery_id event = Some d" "processing_status event = PENDING"
    using ev(1) assms(4) by (metis stored_def new_event_def event.select_convs(2),
        metis stored_def new_event_def event.select_convs(8))
  have dist1: "distinct (delivery_ids (table w2))" if "table w2 = table w1" for w2 :: "'a world"
    using committed_constraints [OF assms(2) ev(3)] that by (simp add: constraints_def)
  have out: "intake_out ''duplicate'' event = \<lparr>accepted_status = lit ''duplicate'',
      accepted_event_id = ev_id event, accepted_delivery_id = Some d\<rparr>"
    by (simp add: intake_out_def row)
  have resend: "case receive_webhook S c hdrs' body' rid' data' w2 of (r, w3) \<Rightarrow>
      table w3 = table w2 \<and> trace w3 = trace w2 \<and> tasks w3 = tasks w2 \<and>
      r = (case fst (verify_webhook_signature S c body' (hdrs' (webhook_timestamp_header c))
             (hdrs' (webhook_signature_header c)) w2) of
           Inl e \<Rightarrow> Inl e | Inr _ \<Rightarrow> Inr (intake_out ''duplicate'' event))"
    if "hdrs' (webhook_id_header c) = Some d" "table w2 = table w1" for hdrs' body' rid' data' w2
    using that ev(2) row(1) assms(5) by (intro known_delivery_answer [OF assms(1) dist1]) simp_all
  show ?thesis
    using ev assms(4) row(2) resend unfolding out by (intro exI [of _ event]) auto
qed

text \<open>Services without a broker client.\<close>

definition no_broker :: "calm_state services" where
  "no_broker = calm\<lparr>aio_pika_installed := False\<rparr>"

definition unqueued :: event where
  "unqueued = new_event 0 1 (Some [100]) None (lit ''shop'') (lit ''order'') []"

lemma no_broker_run:
  "receive_webhook no_broker rabbitmq_settings (delivery_header rabbitmq_settings [100]) [] None
      sample_webhook calm_start
    = (Inl queue_unavailable_503, calm_start\<lparr>table := [unqueued], ext := \<lparr>ticks = 2, mailbox = [], redis_list = []\<rparr>\<rparr>)"
proof -
  have "absent (delivery_header rabbitmq_settings [100] (webhook_id_header rabbitmq_settings)) = False"
    by (simp add: absent_def delivery_header_def)
  then show ?thesis
    by (simp add: receive_webhook_def Let_def verify_webhook_signature_def rabbitmq_settings_def
        default_settings_def get_event_by_delivery_id_def query_run io_bind_def no_broker_def calm_def
        calm_start_def init_world_def rows_by_delivery_def scalar_one_or_none_def create_event_def
        ask_def calm_tick_def commit_def call_def constraints_def insert_row_def sample_webhook_def
        delivery_header_def new_event_def io_catch_def schedule_event_def is_queue_enabled_def
        or_503_def enqueue_event_def publish_to_rabbitmq_def queue_unavailable_503_def unqueued_def)
qed

theorem unqueued_event_stays_behind_witness:
  "\<exists>w1 event. receive_webhook no_broker rabbitmq_settings (delivery_header rabbitmq_settings [100]) [] None
      sample_webhook calm_start = (Inl queue_unavailable_503, w1) \<and>
    table w1 = [event] \<and> processing_status event = PENDING \<and> tasks w1 = [] \<and>
    (\<exists>es. trace w1 = es \<and> list_all (\<lambda>e. \<not> sends e) es) \<and>
    (case receive_webhook no_broker rabbitmq_settings (delivery_header rabbitmq_settings [100]) [1] None
        sample_webhook w1 of (r, w2) \<Rightarrow>
      table w2 = [event] \<and> trace w2 = trace w1 \<and> tasks w2 = [] \<and>
      r = Inr \<lparr>accepted_status = lit ''duplicate'', accepted_event_id = ev_id event,
         accepted_delivery_id = Some [100]\<rparr>)"
proof -
  let ?w1 = "calm_start\<lparr>table := [unqueued], ext := \<lparr>ticks = 2, mailbox = [], redis_list = []\<rparr>\<rparr>"
  let ?h = "delivery_header rabbitmq_settings [100]"
  have pre: "db_reads no_broker" "enforces no_broker" "constraints (table calm_start)"
    "?h (webhook_id_header rabbitmq_settings) = Some [100]" "[100 :: nat] \<noteq> []"
    by (simp_all add: db_reads_def enforces_def no_broker_def calm_def queue_unavailable_503_def
        constraints_def calm_start_def init_world_def delivery_header_def)
  have start: "table calm_start = []" "tasks calm_start = []" "trace calm_start = []"
    by (simp_all add: calm_start_def init_world_def)
  have off: "fst (verify_webhook_signature no_broker rabbitmq_settings b ts sig w) = Inr ()" for b ts sig w
    by (simp add: verify_webhook_signature_def rabbitmq_settings_def default_settings_def)
  show ?thesis
    using unqueued_event_stays_behind [OF pre no_broker_run]
    apply (elim exE conjE)
    subgoal for event es
      apply (drule spec [where x = ?h], drule spec [where x = "[1]"], drule spec [where x = None],
          drule spec [where x = sample_webhook], drule spec [where x = ?w1], drule mp)
       apply (simp only: pre(4))
      apply (intro exI [where x = ?w1] exI [where x = event])
      apply (simp add: start off no_broker_run)
      done
    done
qed

text \<open>
  C34: an empty delivery id header defeats the deduplication: it is not looked up, yet it is
  stored, so that with one such event in the table every further request with an empty header
  fails at the unique constraint instead of being answered "duplicate", and stores nothing.
\<close>

theorem empty_delivery_id_is_refused:
  assumes "enforces S" and "constraints (table w)" and "hdrs (webhook_id_header c) = Some []"
    and "row \<in> set (table w)" and "delivery_id row = Some []"
  shows "case receive_webhook S c hdrs body rid data w of (r, w') \<Rightarrow>
    (\<exists>e. r = Inl e) \<and> table w' = table w \<and> trace w' = trace w"
proof -
  have dist: "distinct (delivery_ids (table w))" using assms(2) by (simp add: constraints_def)
  have clash: "\<not> committed S (insert_row (table w) event)" if "stored (Some []) rid data event" for event
  proof
    assume c: "committed S (insert_row (table w) event)"
    have "distinct (delivery_ids (table w @ [event]))"
      using committed_constraints [OF assms(1) c] by (simp only: insert_row_def constraints_def)
    moreover have "delivery_id event = Some []"
      using that by (metis stored_def new_event_def event.select_convs(2))
    moreover have "[] \<in> set (delivery_ids (table w))"
      using assms(4,5) by (auto simp: delivery_ids_mem)
    ultimately show False by simp
  qed
  obtain r w' where run: "receive_webhook S c hdrs body rid data w = (r, w')" by fastforce
  from dist run show ?thesis
  proof (cases rule: receive_webhook_cases)
    case (refused e)
    then show ?thesis by (simp add: run)
  next
    case (duplicate d row)
    with assms(3) show ?thesis by simp
  next
    case (new w1)
    from new(5) show ?thesis
      by (cases rule: intake_new_cases) (use new clash assms(3) run in auto)
  qed
qed

theorem empty_delivery_id_is_refused_witness:
  "case receive_webhook calm default_settings (delivery_header default_settings []) [] None
      sample_webhook (calm_start\<lparr>table := [known_event []]\<rparr>) of (r, w') \<Rightarrow>
    (\<exists>e. r = Inl e) \<and> table w' = table (calm_start\<lparr>table := [known_event []]\<rparr>) \<and>
    trace w' = trace (calm_start\<lparr>table := [known_event []]\<rparr>)"
  by (rule empty_delivery_id_is_refused [OF enforces_calm, where row = "known_event []"])
    (simp_all add: constraints_def known_event_def new_event_def delivery_header_def)

section \<open>Properties of the other handlers\<close>

lemma event_lookup:
  assumes "constraints (table w)" and "get_event_by_id S i w = (r, w')"
  obtains (found) "r = Inr (find_event (table w) i)" | (error) e where "r = Inl e"
  using assms
  by (auto simp: get_event_by_id_def io_bind_def query_run scalar_by_id constraints_def
      split: prod.splits sum.splits)

text \<open>
  C32: \<open>POST /events/{id}/retry\<close> changes no row. With a database that answers, it says 404
  exactly when there is no such event and 409 exactly when the event is PROCESSED; otherwise it
  schedules exactly one attempt of the event, or answers 503 without having acknowledged or
  scheduled anything.
\<close>

theorem retry_event_effects:
  assumes "constraints (table w)" and "\<And>x. fst (db_query S x) = Inr ()"
  shows "case retry_event S c i w of (r, w') \<Rightarrow> table w' = table w \<and>
    (case find_event (table w) i of
       None \<Rightarrow> r = Inl (HTTPException 404 (lit ''Event not found'')) \<and> trace w' = trace w \<and> tasks w' = tasks w
     | Some event \<Rightarrow>
         if processing_status event = PROCESSED
         then r = Inl (HTTPException 409 (lit ''Processed event cannot be retried'')) \<and>
           trace w' = trace w \<and> tasks w' = tasks w
         else r = Inr \<lparr>retry_status = lit ''retry_scheduled'', retry_event_id = i\<rparr> \<and> scheduled c i w w' \<or>
           r = Inl queue_unavailable_503 \<and> is_queue_enabled c \<and> tasks w' = tasks w \<and>
             (\<exists>es. never_acks es \<and> trace w' = trace w @ es))"
proof -
  obtain r1 w1 where r1: "get_event_by_id S i w = (r1, w1)" by fastforce
  have f1: "table w1 = table w" "trace w1 = trace w" "tasks w1 = tasks w"
    using keepsD_run [OF keeps_lookups(1) r1] keepsD_run [OF keeps_delivery_lookup(4) r1]
      keepsD_run [OF keeps_delivery_lookup(5) r1] by simp_all
  have ok: "r1 = Inr (find_event (table w) i)"
    using assms(1) r1
  proof (cases rule: event_lookup)
    case (error e)
    with assms(2) [of "ext w"] r1 show ?thesis
      using assms(1) by (auto simp: get_event_by_id_def io_bind_def query_run scalar_by_id constraints_def
          split: prod.splits sum.splits)
  qed
  show ?thesis
  proof (cases "find_event (table w) i")
    case None
    then show ?thesis using r1 ok f1 by (simp add: retry_event_def)
  next
    case (Some event)
    have id: "ev_id event = i" using rows.find_ev_id [OF Some] .
    show ?thesis
    proof (cases "processing_status event = PROCESSED")
      case True
      then show ?thesis using r1 ok f1 Some by (simp add: retry_event_def)
    next
      case False
      obtain r2 w2 where r2: "schedule_event S c i w1 = (r2, w2)" by fastforce
      have t2: "table w2 = table w1" by (rule keepsD_run [OF keeps_schedule_table r2])
      from r2 show ?thesis
      proof (cases rule: schedule_event_cases)
        case sent: ok
        have "retry_event S c i w = (Inr \<lparr>retry_status = lit ''retry_scheduled'', retry_event_id = i\<rparr>, w2)"
          using r1 ok Some False id r2 sent(1) by (simp add: retry_event_def)
        moreover have "scheduled c i w w2"
          using sent(2) f1 scheduled_frame [of w1 w w2 w2] by simp
        ultimately show ?thesis using Some False t2 f1 by simp
      next
        case (unavailable es)
        have "retry_event S c i w = (Inl queue_unavailable_503, w2)"
          using r1 ok Some False id r2 unavailable(1) by (simp add: retry_event_def)
        moreover have "trace w2 = trace w @ es" "tasks w2 = tasks w" using unavailable f1 by simp_all
        ultimately show ?thesis using Some False t2 f1 unavailable(2,3) by auto
      qed
    qed
  qed
qed

theorem retry_event_effects_witness:
  "case retry_event calm default_settings 5 (calm_start\<lparr>table := [known_event []]\<rparr>) of (r, w') \<Rightarrow>
    table w' = table (calm_start\<lparr>table := [known_event []]\<rparr>) \<and>
    (case find_event (table (calm_start\<lparr>table := [known_event []]\<rparr>)) 5 of
       None \<Rightarrow> r = Inl (HTTPException 404 (lit ''Event not found'')) \<and>
         trace w' = trace (calm_start\<lparr>table := [known_event []]\<rparr>) \<and>
         tasks w' = tasks (calm_start\<lparr>table := [known_event []]\<rparr>)
     | Some event \<Rightarrow>
         if processing_status event = PROCESSED
         then r = Inl (HTTPException 409 (lit ''Processed event cannot be retried'')) \<and>
           trace w' = trace (calm_start\<lparr>table := [known_event []]\<rparr>) \<and>
           tasks w' = tasks (calm_start\<lparr>table := [known_event []]\<rparr>)
         else r = Inr \<lparr>retry_status = lit ''retry_scheduled'', retry_event_id = 5\<rparr> \<and>
             scheduled default_settings 5 (calm_start\<lparr>table := [known_event []]\<rparr>) w' \<or>
           r = Inl queue_unavailable_503 \<and> is_queue_enabled default_settings \<and>
             tasks w' = tasks (calm_start\<lparr>table := [known_event []]\<rparr>) \<and>
             (\<exists>es. never_acks es \<and> trace w' = trace (calm_start\<lparr>table := [known_event []]\<rparr>) @ es))"
  by (rule retry_event_effects) (simp_all add: constraints_def known_event_def new_event_def calm_def)

text \<open>
  C23: \<open>POST /queue/dlq/redrive\<close> on RabbitMQ. When it succeeds, the messages were moved one by
  one (each malformed one dropped, each other published to the main queue with attempt 1 and then
  acknowledged), at most \<open>limit\<close> of them, the answer lists the events moved, and exactly their
  rows that were not PROCESSED are PENDING again with error and time cleared; the redrive counter
  has grown by the number of events moved, and no other metric has changed. When it fails, what was
  moved stays moved, the message in hand is not acknowledged, and no row has changed; the events
  moved are counted only if all messages were moved and it was the marking of the rows that failed.
\<close>

theorem redrive_dlq_effects:
  assumes "task_queue_backend c = lit ''rabbitmq''" and "1 \<le> limit" and "limit \<le> 100"
  shows "case redrive_dlq S c limit w of
      (Inr out, w') \<Rightarrow> redriven_count out = length (redriven_event_ids out) \<and>
        int (redriven_count out) \<le> limit \<and>
        (\<exists>pre es. list_all preparing pre \<and> redrive_blocks c es (redriven_event_ids out) \<and>
          trace w' = trace w @ pre @ es) \<and>
        (\<forall>i. find_event (table w') i = map_option (\<lambda>event.
           if i \<in> set (redriven_event_ids out) \<and> processing_status event \<noteq> PROCESSED
           then event\<lparr>processing_status := PENDING, error_message := None, processed_at := None\<rparr>
           else event) (find_event (table w) i)) \<and>
        metrics w' = (metrics w)\<lparr>webhook_redrive_total :=
          webhook_redrive_total (metrics w) + redriven_count out\<rparr>
    | (Inl e, w') \<Rightarrow> table w' = table w \<and>
        (\<exists>pre es ids rest. list_all preparing pre \<and> redrive_blocks c es ids \<and> never_acks rest \<and>
          trace w' = trace w @ pre @ es @ rest \<and>
          (metrics w' = metrics w \<or>
           rest = [] \<and> metrics w' = (metrics w)\<lparr>webhook_redrive_total :=
             webhook_redrive_total (metrics w) + length ids\<rparr>))"
proof -
  obtain r1 w1 where r1: "redrive_dead_letter S c (nat limit) w = (r1, w1)" by fastforce
  have t1: "table w1 = table w" by (rule keepsD_run [OF table_frame.keeps_redrive_dead_letter r1])
  note moved = redrive_dead_letter_effects [OF assms(1), where S = S and limit = "nat limit" and w = w,
      unfolded r1 prod.case]
  show ?thesis
  proof (cases r1)
    case (Inl e)
    have "redrive_dlq S c limit w = (Inl e, w1)"
      using assms(2,3) r1 Inl by (simp add: redrive_dlq_def)
    then show ?thesis using moved [unfolded Inl sum.case] t1 by simp
  next
    case (Inr ids)
    note moved' = moved [unfolded Inr sum.case]
    obtain pre es where es: "list_all preparing pre" "redrive_blocks c es ids" "trace w1 = trace w @ pre @ es"
      using moved' by blast
    have len: "length ids \<le> nat limit" using moved' by blast
    obtain r2 w2 where r2: "mark_events_pending S ids w1 = (r2, w2)" by fastforce
    have m2: "metrics w2 = (metrics w)\<lparr>webhook_redrive_total :=
        webhook_redrive_total (metrics w) + length ids\<rparr>"
      using keepsD_run [OF keeps_metrics_mark r2] moved' by (simp add: record_redrive_def)
    have tr2: "trace w2 = trace w1" by (rule keepsD_run [OF keeps_trace_mark r2])
    show ?thesis
    proof (cases r2)
      case err: (Inl e)
      have "redrive_dlq S c limit w = (Inl e, w2)"
        using assms(2,3) r1 Inr r2 err by (simp add: redrive_dlq_def)
      moreover have "table w2 = table w"
        using mark_events_pending_cases [OF r2] err t1 by auto
      moreover have "trace w2 = trace w @ pre @ es @ []" "never_acks []" using tr2 es by simp_all
      ultimately show ?thesis using es(1,2) m2 by (simp only: prod.case sum.case) blast
    next
      case ok: (Inr u)
      have run: "redrive_dlq S c limit w = (Inr \<lparr>redrive_status = lit ''redrive_scheduled'',
          redriven_count = length ids, redriven_event_ids = ids\<rparr>, w2)"
        using assms(2,3) r1 Inr r2 ok by (simp add: redrive_dlq_def)
      have "table w2 = mark_rows ids (table w)"
        using mark_events_pending_cases [OF r2] ok t1 by auto
      moreover have "int (length ids) \<le> limit" using len assms(2) by linarith
      moreover have "trace w2 = trace w @ pre @ es" using tr2 es by simp
      ultimately show ?thesis using es(1,2) m2 unfolding run prod.case sum.case by (auto simp: find_marked)
    qed
  qed
qed

theorem redrive_dlq_effects_witness:
  "case redrive_dlq calm rabbitmq_settings 10 calm_start of
      (Inr out, w') \<Rightarrow> redriven_count out = length (redriven_event_ids out) \<and>
        int (redriven_count out) \<le> 10 \<and>
        (\<exists>pre es. list_all preparing pre \<and>
          redrive_blocks rabbitmq_settings es (redriven_event_ids out) \<and>
          trace w' = trace calm_start @ pre @ es) \<and>
        (\<forall>i. find_event (table w') i = map_option (\<lambda>event.
           if i \<in> set (redriven_event_ids out) \<and> processing_status event \<noteq> PROCESSED
           then event\<lparr>processing_status := PENDING, error_message := None, processed_at := None\<rparr>
           else event) (find_event (table calm_start) i)) \<and>
        metrics w' = (metrics calm_start)\<lparr>webhook_redrive_total :=
          webhook_redrive_total (metrics calm_start) + redriven_count out\<rparr>
    | (Inl e, w') \<Rightarrow> table w' = table calm_start \<and>
        (\<exists>pre es ids rest. list_all preparing pre \<and> redrive_blocks rabbitmq_settings es ids \<and>
          never_acks rest \<and> trace w' = trace calm_start @ pre @ es @ rest \<and>
          (metrics w' = metrics calm_start \<or>
           rest = [] \<and> metrics w' = (metrics calm_start)\<lparr>webhook_redrive_total :=
             webhook_redrive_total (metrics calm_start) + length ids\<rparr>))"
  by (rule redrive_dlq_effects) simp_all

text \<open>
  C35: the summary adds up. The total is the number of events; the three status counts and the
  counts by source are the numbers of rows they name, each partition sums to the total, and the
  sources are listed once each, in order.
\<close>

theorem events_summary_adds_up:
  "case get_events_summary S w of (r, w') \<Rightarrow> table w' = table w \<and>
    (case r of Inl _ \<Rightarrow> True | Inr s \<Rightarrow>
      total s = length (table w) \<and>
      pending s = length (filter (\<lambda>event. processing_status event = PENDING) (table w)) \<and>
      processed s = length (filter (\<lambda>event. processing_status event = PROCESSED) (table w)) \<and>
      failed s = length (filter (\<lambda>event. processing_status event = FAILED) (table w)) \<and>
      pending s + processed s + failed s = total s \<and>
      sum_list (map snd (by_source s)) = total s \<and>
      sorted (map fst (by_source s)) \<and> distinct (map fst (by_source s)) \<and>
      (\<forall>src. counts_get (by_source s) src = length (filter (\<lambda>event. source event = src) (table w))))"
proof -
  obtain r w' where run: "get_events_summary S w = (r, w')" by fastforce
  have t: "table w' = table w" by (rule keepsD_run [OF keeps_lookups(4) run])
  show ?thesis
  proof (cases r)
    case (Inl e)
    with t show ?thesis by (simp add: run)
  next
    case (Inr s)
    have s: "s = \<lparr>total = length (table w),
        pending = counts_get (group_count processing_status (table w)) PENDING,
        processed = counts_get (group_count processing_status (table w)) PROCESSED,
        failed = counts_get (group_count processing_status (table w)) FAILED,
        by_source = group_count source (table w)\<rparr>"
      using run Inr by (auto simp: get_events_summary_def io_bind_def query_run
          split: prod.splits sum.splits)
    have "(\<Sum>v \<in> {PENDING, PROCESSED, FAILED}. length (filter (\<lambda>r. processing_status r = v) (table w)))
        = length (table w)"
    proof (rule sum_count_filter)
      have "v \<in> {PENDING, PROCESSED, FAILED}" for v by (cases v) simp_all
      then show "processing_status ` set (table w) \<subseteq> {PENDING, PROCESSED, FAILED}" by blast
    qed simp
    then have "pending s + processed s + failed s = total s"
      by (simp add: s counts_get_group)
    then show ?thesis
      using t sorted_group_count [of source "table w"]
      by (simp add: run Inr s counts_get_group sum_group_count)
  qed
qed

text \<open>
  The rows a listing is about, and their arrangements in order of receipt, newest first: what SQL
  promises for \<open>ORDER BY received_at DESC\<close>, one of which it chooses anew for each query.
\<close>

definition listed :: "pystr option \<Rightarrow> event list \<Rightarrow> event list" where
  "listed src t = filter (\<lambda>event. src = None \<or> src = Some (source event)) t"

definition newest_first :: "event list \<Rightarrow> event list \<Rightarrow> bool" where
  "newest_first rows L \<longleftrightarrow> mset L = mset rows \<and> sorted_wrt (\<lambda>a b. received_at b \<le> received_at a) L"

lemma newest_first_sort: "mset xs = mset rows \<Longrightarrow> newest_first rows (sort_key (\<lambda>r. - received_at r) xs)"
  using sorted_sort_key [of "\<lambda>r. - received_at r" xs] by (simp add: newest_first_def sorted_map)

text \<open>Any two arrangements show the same times, and are the same when no two times are equal.\<close>

lemma newest_first_times:
  assumes "newest_first rows L" and "newest_first rows L'"
  shows "map received_at L = map received_at L'"
proof -
  have sort: "sort (map (\<lambda>r. - received_at r) rows) = map (\<lambda>r. - received_at r) K"
    if "newest_first rows K" for K
    by (rule properties_for_sort) (use that in \<open>simp_all add: newest_first_def sorted_map\<close>)
  have "map (\<lambda>r. - received_at r) L = map (\<lambda>r. - received_at r) L'"
    using sort [OF assms(1)] sort [OF assms(2)] by simp
  then have "map uminus (map (\<lambda>r. - received_at r) L) = map uminus (map (\<lambda>r. - received_at r) L')"
    by (rule arg_cong)
  then show ?thesis by (simp add: o_def)
qed

lemma newest_first_unique:
  assumes "newest_first rows L" and "newest_first rows L'" and "distinct (map received_at rows)"
  shows "L = L'"
proof (rule map_inj_on [OF newest_first_times [OF assms(1,2)]])
  have "set L = set rows" "set L' = set rows"
    using assms(1,2) by (auto simp: newest_first_def dest: mset_eq_setD)
  then show "inj_on received_at (set L \<union> set L')"
    using assms(3) by (simp add: distinct_map)
qed

lemma select_page_arranged:
  assumes "\<And>rows. mset (scan rows) = mset rows"
    and "case src of None \<Rightarrow> True | Some s \<Rightarrow> s \<noteq> []"
  obtains L where "newest_first (listed src t) L" "select_page scan limit offset src t = take limit (drop offset L)"
proof -
  let ?L = "sort_key (\<lambda>r. - received_at r) (scan (listed src t))"
  have "newest_first (listed src t) ?L" using assms(1) by (rule newest_first_sort)
  moreover have "select_page scan limit offset src t = take limit (drop offset ?L)"
    using assms(2) by (auto simp: select_page_def listed_def Let_def eq_commute split: option.splits)
  ultimately show thesis by (rule that)
qed

text \<open>
  C36: what \<open>GET /events\<close> shows. Whatever order the database gives to rows of the same time, and
  though it may choose another one for every request, there is one list of the matching events,
  newest first, such that for every request while the table stays the same: a limit or an offset
  outside the declared bounds is refused; an answered page is the slice from \<open>offset\<close> of length at
  most \<open>limit\<close> of some arrangement of the matching events, newest first; its times of receipt are
  exactly that slice of the times of the one list; and if no two matching events have the same
  time, the page is that slice of the one list, so that consecutive pages miss and repeat nothing.
  (With equal times they may: the witness has a database that shows one event on both pages.)
\<close>

theorem get_events_pages:
  assumes "\<And>x limit offset rows. mset (db_scan S x limit offset rows) = mset rows"
    and "case src of None \<Rightarrow> True | Some s \<Rightarrow> 1 \<le> length s \<and> length s \<le> 128"
  shows "\<exists>L. newest_first (listed src t) L \<and>
    (\<forall>w limit offset. table w = t \<longrightarrow>
      (case get_events S limit offset src w of
         (Inr out, w') \<Rightarrow> 1 \<le> limit \<and> limit \<le> 100 \<and> 0 \<le> offset \<and> table w' = t \<and>
           int (list_limit out) = limit \<and> int (list_offset out) = offset \<and>
           (\<exists>L'. newest_first (listed src t) L' \<and>
              items out = map event_out_of (take (nat limit) (drop (nat offset) L'))) \<and>
           map out_received_at (items out) = take (nat limit) (drop (nat offset) (map received_at L)) \<and>
           (distinct (map received_at (listed src t)) \<longrightarrow>
              items out = map event_out_of (take (nat limit) (drop (nat offset) L)))
       | (Inl e, w') \<Rightarrow> table w' = t \<and>
           (1 \<le> limit \<and> limit \<le> 100 \<and> 0 \<le> offset \<or> e = RequestValidationError)))"
proof -
  define L where "L = sort_key (\<lambda>r. - received_at r) (listed src t)"
  have L: "newest_first (listed src t) L" unfolding L_def by (rule newest_first_sort) simp
  have src: "case src of None \<Rightarrow> True | Some s \<Rightarrow> s \<noteq> []"
    using assms(2) by (auto split: option.splits)
  have "case get_events S limit offset src w of
      (Inr out, w') \<Rightarrow> 1 \<le> limit \<and> limit \<le> 100 \<and> 0 \<le> offset \<and> table w' = t \<and>
        int (list_limit out) = limit \<and> int (list_offset out) = offset \<and>
        (\<exists>L'. newest_first (listed src t) L' \<and>
           items out = map event_out_of (take (nat limit) (drop (nat offset) L'))) \<and>
        map out_received_at (items out) = take (nat limit) (drop (nat offset) (map received_at L)) \<and>
        (distinct (map received_at (listed src t)) \<longrightarrow>
           items out = map event_out_of (take (nat limit) (drop (nat offset) L)))
    | (Inl e, w') \<Rightarrow> table w' = t \<and>
        (1 \<le> limit \<and> limit \<le> 100 \<and> 0 \<le> offset \<or> e = RequestValidationError)"
    if t: "table w = t" for w limit offset
  proof (cases "1 \<le> limit \<and> limit \<le> 100 \<and> 0 \<le> offset")
    case False
    then show ?thesis using t by (auto simp: get_events_def)
  next
    case True
    obtain q x where q: "db_query S (ext w) = (q, x)" by fastforce
    obtain L' where L': "newest_first (listed src t) L'"
      "select_page (db_scan S x (nat limit) (nat offset)) (nat limit) (nat offset) src t
         = take (nat limit) (drop (nat offset) L')"
      by (rule select_page_arranged [where scan = "db_scan S x (nat limit) (nat offset)"
            and limit = "nat limit" and offset = "nat offset" and t = t, OF assms(1) src])
    have "map out_received_at (map event_out_of xs) = map received_at xs" for xs
      by (simp add: event_out_of_def)
    then have times: "map out_received_at (map event_out_of (take (nat limit) (drop (nat offset) L')))
        = take (nat limit) (drop (nat offset) (map received_at L))"
      using newest_first_times [OF L L'(1)] by (simp add: take_map drop_map)
    show ?thesis
    proof (cases q)
      case (Inl e)
      then show ?thesis using True q t assms(2)
        by (auto simp: get_events_def list_events_def io_bind_def call_def)
    next
      case (Inr u)
      then have "get_events S limit offset src w = (Inr
          \<lparr>items = map event_out_of (take (nat limit) (drop (nat offset) L')),
           list_limit = nat limit, list_offset = nat offset\<rparr>, w\<lparr>ext := x\<rparr>)"
        using True q t assms(2) L'(2) by (simp add: get_events_def list_events_def io_bind_def call_def)
      then show ?thesis
        using True t L'(1) times newest_first_unique [OF L L'(1)] by auto
    qed
  qed
  with L show ?thesis by blast
qed

text \<open>
  A database whose scan runs backwards for later pages, and two events received at the same time:
  both pages of one event show the same event, and the other is on neither.
\<close>

definition fickle_db :: "calm_state services" where
  "fickle_db = calm\<lparr>db_scan := (\<lambda>x limit offset rows. if offset = 0 then rows else rev rows)\<rparr>"

definition tied_events :: "event list" where
  "tied_events = [known_event [100], new_event 6 0 (Some [101]) None (lit ''shop'') (lit ''order'') []]"

lemma fickle_pages:
  "get_events fickle_db 1 0 None (calm_start\<lparr>table := tied_events\<rparr>) =
     (Inr \<lparr>items = [event_out_of (known_event [100])], list_limit = 1, list_offset = 0\<rparr>,
      calm_start\<lparr>table := tied_events\<rparr>)"
  "get_events fickle_db 1 1 None (calm_start\<lparr>table := tied_events\<rparr>) =
     (Inr \<lparr>items = [event_out_of (known_event [100])], list_limit = 1, list_offset = 1\<rparr>,
      calm_start\<lparr>table := tied_events\<rparr>)"
  by (simp_all add: get_events_def list_events_def io_bind_def call_def fickle_db_def calm_def
      select_page_def tied_events_def known_event_def new_event_def calm_start_def init_world_def)

theorem get_events_pages_witness:
  "\<exists>L. newest_first tied_events L \<and>
    (case get_events fickle_db 1 0 None (calm_start\<lparr>table := tied_events\<rparr>) of
       (Inr out, w') \<Rightarrow> items out = [event_out_of (known_event [100])]
     | (Inl e, w') \<Rightarrow> False) \<and>
    (case get_events fickle_db 1 1 None (calm_start\<lparr>table := tied_events\<rparr>) of
       (Inr out, w') \<Rightarrow> items out = [event_out_of (known_event [100])] \<and>
         map out_received_at (items out) = take 1 (drop 1 (map received_at L))
     | (Inl e, w') \<Rightarrow> False)"
proof -
  have all: "listed None tied_events = tied_events" by (simp add: listed_def)
  have scan: "mset (db_scan fickle_db x limit offset rows) = mset rows" for x limit offset rows
    by (simp add: fickle_db_def)
  let ?w = "calm_start\<lparr>table := tied_events\<rparr>"
  have "case None of None \<Rightarrow> True | Some s \<Rightarrow> 1 \<le> length s \<and> length s \<le> 128" by simp
  from get_events_pages [of fickle_db None tied_events, unfolded all, OF scan this] show ?thesis
    apply (elim exE conjE)
    subgoal for L
      apply (drule spec [where x = ?w], drule spec [where x = 1], drule spec [where x = 1], drule mp)
       apply (simp (no_asm))
      apply (rule exI [where x = L])
      apply (simp add: fickle_pages)
      done
    done
qed

end
