(* ===== verification/Observability.thy ===== *)
theory Observability
  imports World
begin

text \<open>
  app/observability.py: the log lines, the set-up of logging, and the set-up of tracing as the
  configuration it hands to OpenTelemetry.
\<close>

section \<open>Timestamps\<close>

text \<open>
  \<open>datetime.now(timezone.utc).isoformat()\<close> for a time in microseconds since the epoch: the
  standard library's conversion of an ordinal day (1 is 1 January of the year 1) to a date, by
  whole cycles of 400, 100, 4 and 1 years.
\<close>

definition is_leap :: "nat \<Rightarrow> bool" where
  "is_leap y \<longleftrightarrow> y mod 4 = 0 \<and> (y mod 100 \<noteq> 0 \<or> y mod 400 = 0)"

definition month_lengths :: "nat \<Rightarrow> nat list" where
  "month_lengths y = [31, if is_leap y then 29 else 28, 31, 30, 31, 30, 31, 31, 30, 31, 30, 31]"

fun month_and_day :: "nat \<Rightarrow> nat list \<Rightarrow> nat \<Rightarrow> nat \<times> nat" where
  "month_and_day m (l # ls) d = (if d < l then (m, d + 1) else month_and_day (m + 1) ls (d - l))"
| "month_and_day m [] d = (m, d + 1)"

definition date_of_ordinal :: "nat \<Rightarrow> nat \<times> nat \<times> nat" where
  "date_of_ordinal ordinal =
     (let n = ordinal - 1;
          n400 = n div 146097; n = n mod 146097;
          n100 = n div 36524; n = n mod 36524;
          n4 = n div 1461; n = n mod 1461;
          n1 = n div 365; n = n mod 365;
          year = n400 * 400 + n100 * 100 + n4 * 4 + n1 + 1
      in if n1 = 4 \<or> n100 = 4 then (year - 1, 12, 31)
         else case month_and_day 1 (month_lengths year) n of (month, day) \<Rightarrow> (year, month, day))"

fun padded :: "nat \<Rightarrow> nat \<Rightarrow> pystr" where
  "padded 0 n = []"
| "padded (Suc k) n = padded k (n div 10) @ [48 + n mod 10]"

definition epoch_ordinal :: nat where
  "epoch_ordinal = 719163"

definition isoformat :: "int \<Rightarrow> pystr" where
  "isoformat t =
     (let days = nat (t div 86400000000 + int epoch_ordinal);
          micros = nat (t mod 86400000000);
          us = micros mod 1000000;
          seconds = micros div 1000000
      in case date_of_ordinal days of (year, month, day) \<Rightarrow>
           padded 4 year @ lit ''-'' @ padded 2 month @ lit ''-'' @ padded 2 day @ lit ''T'' @
           padded 2 (seconds div 3600) @ lit '':'' @ padded 2 (seconds div 60 mod 60) @ lit '':'' @
           padded 2 (seconds mod 60) @
           (if us = 0 then [] else lit ''.'' @ padded 6 us) @ lit ''+00:00'')"

section \<open>Log lines\<close>

text \<open>
  A \<open>LogRecord\<close> as the formatter sees it: \<open>rec_message\<close> is \<open>getMessage()\<close>, \<open>rec_exception\<close>
  the traceback that \<open>formatException\<close> makes of \<open>exc_info\<close>.
\<close>

record log_record =
  levelname :: pystr
  logger_name :: pystr
  rec_message :: pystr
  rec_exception :: "pystr option"

definition log_payload :: "int \<Rightarrow> log_record \<Rightarrow> dict" where
  "log_payload now rec =
     [(lit ''timestamp'', JStr (isoformat now)),
      (lit ''level'', JStr (levelname rec)),
      (lit ''logger'', JStr (logger_name rec)),
      (lit ''message'', JStr (rec_message rec))] @
     (case rec_exception rec of None \<Rightarrow> [] | Some text \<Rightarrow> [(lit ''exception'', JStr text)])"

definition json_format :: "(pyfloat \<Rightarrow> pystr) \<Rightarrow> int \<Rightarrow> log_record \<Rightarrow> exn + pystr" where
  "json_format float_repr now rec = dumps_default float_repr (JObj (log_payload now rec))"

lemma padded_digits: "ch \<in> set (padded k n) \<Longrightarrow> 48 \<le> ch \<and> ch \<le> 57"
  by (induction k arbitrary: n) fastforce+

lemma printable_padded [simp]: "printable (padded k n)"
  using padded_digits by (fastforce simp: printable_def list_all_iff)

lemma printable_isoformat: "printable (isoformat t)"
  by (simp add: isoformat_def Let_def lit_def split: prod.split)

text \<open>The texts of a record that hold no lone surrogate.\<close>

definition clean_record :: "log_record \<Rightarrow> bool" where
  "clean_record rec \<longleftrightarrow>
     list_all scalar (levelname rec) \<and> list_all scalar (logger_name rec) \<and>
     list_all scalar (rec_message rec) \<and>
     (case rec_exception rec of None \<Rightarrow> True | Some text \<Rightarrow> list_all scalar text)"

lemma plain_log_payload: "clean_record rec \<Longrightarrow> plain (JObj (log_payload now rec))"
  using printable_scalar [OF printable_isoformat]
  by (auto simp: clean_record_def log_payload_def lit_def scalar_def split: option.splits)

lemma json_format_total: "\<exists>line. json_format fr now rec = Inr line \<and> printable line"
  by (cases "rec_exception rec") (simp_all add: json_format_def log_payload_def)

definition injected_record :: log_record where
  "injected_record = \<lparr>levelname = lit ''INFO'', logger_name = lit ''app.main'',
     rec_message = lit ''HTTP GET /'' @ [10, 0x1F600] @ lit ''{}'', rec_exception = None\<rparr>"

text \<open>
  C30: a log line is one line and one JSON object. Whatever a record holds (a path with line
  breaks, quotes, control characters), \<open>JsonFormatter\<close> formats it without an error, as printable
  ASCII only, so that no request can forge a second line; and if its texts are well-formed, reading
  the line back as JSON gives the time, the level, the logger's name, the message and, if there is
  one, the exception, each under its key and in this order.
\<close>

theorem log_lines_are_json:
  "\<exists>line. json_format fr now rec = Inr line \<and> printable line \<and>
    (clean_record rec \<longrightarrow> json_loads line = Inr (JObj (
       [(lit ''timestamp'', JStr (isoformat now)), (lit ''level'', JStr (levelname rec)),
        (lit ''logger'', JStr (logger_name rec)), (lit ''message'', JStr (rec_message rec))] @
       (case rec_exception rec of None \<Rightarrow> [] | Some text \<Rightarrow> [(lit ''exception'', JStr text)]))))"
proof -
  obtain line where line: "json_format fr now rec = Inr line" "printable line"
    using json_format_total by blast
  moreover have "json_loads line = Inr (JObj (log_payload now rec))" if "clean_record rec"
    by (rule json_loads_dumps [OF _ _ plain_log_payload [OF that]])
      (use line(1) in \<open>simp_all only: json_format_def item_seps_def key_seps_def insert_iff simp_thms\<close>)
  ultimately show ?thesis unfolding log_payload_def by blast
qed

theorem log_lines_are_json_witness:
  "\<exists>line. json_format (\<lambda>_. []) 0 injected_record = Inr line \<and> printable line \<and>
    json_loads line = Inr (JObj
      [(lit ''timestamp'', JStr (isoformat 0)), (lit ''level'', JStr (lit ''INFO'')),
       (lit ''logger'', JStr (lit ''app.main'')),
       (lit ''message'', JStr (lit ''HTTP GET /'' @ [10, 0x1F600] @ lit ''{}''))])"
  using log_lines_are_json [of "\<lambda>_. []" 0 injected_record]
  by (auto simp: clean_record_def injected_record_def lit_def scalar_def)

section \<open>Set-up of logging\<close>

text \<open>\<open>logging.getLevelName\<close>'s table, as \<open>setLevel\<close> uses it for a text.\<close>

definition level_number :: "pystr \<Rightarrow> nat option" where
  "level_number s =
     map_of [(lit ''CRITICAL'', 50), (lit ''FATAL'', 50), (lit ''ERROR'', 40), (lit ''WARN'', 30),
       (lit ''WARNING'', 30), (lit ''INFO'', 20), (lit ''DEBUG'', 10), (lit ''NOTSET'', 0)] s"

definition chosen_formatter :: "settings \<Rightarrow> formatter" where
  "chosen_formatter c =
     (if json_logs c then JsonFormatter
      else Formatter (lit ''%(asctime)s | %(levelname)s | %(name)s | %(message)s'')
                     (lit ''%Y-%m-%d %H:%M:%S''))"

text \<open>The error's text quotes the level, here without the escapes that \<open>repr\<close> may add.\<close>

definition setup_logging :: "'x services \<Rightarrow> settings \<Rightarrow> ('x world, unit) io" where
  "setup_logging S c =
     (let wanted = str_upper S (log_level c)
      in case level_number wanted of
           None \<Rightarrow> io_raise (ValueError (lit ''Unknown level: '' @ [39] @ wanted @ [39]))
         | Some n \<Rightarrow>
             io_then (io_modify (\<lambda>w. w\<lparr>root_logger := (root_logger w)\<lparr>logger_level := n\<rparr>\<rparr>))
                     (io_modify (\<lambda>w. w\<lparr>root_logger := (root_logger w)\<lparr>logger_handlers := [chosen_formatter c]\<rparr>\<rparr>)))"

lemma keeps_setup_logging [keeps_rules]:
  "keeps table (setup_logging S c)" "keeps metrics (setup_logging S c)" "keeps qmod (setup_logging S c)"
  "keeps tasks (setup_logging S c)" "keeps trace (setup_logging S c)" "keeps ext (setup_logging S c)"
  by (auto simp: keeps_def setup_logging_def Let_def io_raise_def io_modify_def io_bind_def split: option.splits)

section \<open>Set-up of tracing\<close>

text \<open>The provider that is installed, if one is: its service name and the exporter's endpoint.\<close>

record tracer_provider =
  service_name :: pystr
  exporter_endpoint :: pystr

definition setup_tracing :: "settings \<Rightarrow> tracer_provider option" where
  "setup_tracing c =
     (if \<not> tracing_enabled c then None
      else Some \<lparr>service_name = otel_service_name c,
                 exporter_endpoint = otel_exporter_otlp_endpoint c @ lit ''/v1/traces''\<rparr>)"

end
