(* ===== verification/Worker.thy ===== *)
theory Worker
  imports Queue Processor Observability
begin

text \<open>app/worker.py: the loop that takes events from the queue, processes and settles them.\<close>

definition worker_iteration :: "'x services \<Rightarrow> settings \<Rightarrow> ('x world, unit) io" where
  "worker_iteration S c =
     io_bind (dequeue_event S c (worker_poll_timeout_seconds c)) (\<lambda>r.
       case r of
         None \<Rightarrow> io_return ()
       | Some envelope \<Rightarrow>
           let final_attempt = rabbitmq_max_delivery_attempts c \<le> env_attempt envelope
           in io_bind (process_event_by_id S (env_event_id envelope) final_attempt) (\<lambda>processed.
                if processed then complete_event S envelope
                else io_then (retry_or_dead_letter S c envelope) (io_return ())))"

text \<open>
  \<open>while True\<close>, observed for \<open>n\<close> iterations: a normal result means that the loop is still
  running, an exception that it has ended with it.
\<close>

fun worker_loop :: "'x services \<Rightarrow> settings \<Rightarrow> nat \<Rightarrow> ('x world, unit) io" where
  "worker_loop S c 0 = io_return ()"
| "worker_loop S c (Suc n) = io_then (worker_iteration S c) (worker_loop S c n)"

definition run_worker :: "'x services \<Rightarrow> settings \<Rightarrow> nat \<Rightarrow> ('x world, unit) io" where
  "run_worker S c n =
     (if \<not> is_queue_enabled c
      then io_raise (RuntimeError (lit ''Worker requires TASK_QUEUE_BACKEND=redis''))
      else worker_loop S c n)"

text \<open>\<open>_main\<close>: the worker, and on its way out the connections.\<close>

definition worker_main :: "'x services \<Rightarrow> settings \<Rightarrow> nat \<Rightarrow> ('x world, unit) io" where
  "worker_main S c n =
     io_then (setup_logging S c)
             (io_finally (run_worker S c n) (io_then (dispose_queue S) (dispose_db S)))"

section \<open>One iteration on RabbitMQ\<close>

lemma complete_event_run:
  "env_raw_message e = Some tag \<Longrightarrow> complete_event S e = broker S (Ack tag)"
  by (simp add: complete_event_def)

text \<open>
  The iterations that settle a message: it was malformed, or the event is done, or a copy went to
  the retry or the dead-letter queue. In every other iteration nothing is acknowledged.
\<close>

lemma worker_iteration_cases:
  assumes "task_queue_backend c = lit ''rabbitmq''" and "worker_iteration S c w = (r, w')"
  obtains (idle) pre where "r = Inr ()" "list_all preparing pre" "trace w' = trace w @ pre"
      "table w' = table w"
  | (malformed) tag body pre e where "r = Inr ()" "list_all preparing pre"
      "decode_payload body = Inl e" "table w' = table w"
      "trace w' = trace w @ pre @ [Took (event_queue_name c) tag body, Done (Ack tag)]"
  | (done_with) i n tag body pre w1 w2 where "r = Inr ()" "list_all preparing pre"
      "decode_payload body = Inr (i, n)" "table w1 = table w" "table w' = table w2"
      "process_event_by_id S i (rabbitmq_max_delivery_attempts c \<le> n) w1 = (Inr True, w2)"
      "trace w' = trace w @ pre @ [Took (event_queue_name c) tag body, Done (Ack tag)]"
  | (rerouted) i n tag body pre pre' p action rk m w1 w2 where "r = Inr ()" "list_all preparing pre"
      "decode_payload body = Inr (i, n)" "table w1 = table w" "table w' = table w2"
      "process_event_by_id S i (rabbitmq_max_delivery_attempts c \<le> n) w1 = (Inr False, w2)"
      "route c n = (action, rk, m)" "list_all preparing pre'" "published c rk i m p"
      "trace w' = trace w @ pre @ [Took (event_queue_name c) tag body] @ pre' @ [p, Done (Ack tag)]"
  | (error) e es where "r = Inl e" "never_acks es" "trace w' = trace w @ es"
proof -
  obtain r1 w1 where r1: "dequeue_event S c (worker_poll_timeout_seconds c) w = (r1, w1)" by fastforce
  have t1: "table w1 = table w"
    by (rule keepsD_run [OF table_view.keeps_dequeue_event r1])
  from assms(1) r1 show thesis
  proof (cases rule: dequeue_rabbitmq_cases)
    case (idle pre)
    with assms(2) r1 t1 show thesis by (intro that(1) [of pre]) (auto simp: worker_iteration_def)
  next
    case (malformed tag body pre e)
    with assms(2) r1 t1 show thesis
      by (intro that(2) [of pre body e tag]) (auto simp: worker_iteration_def)
  next
    case (failed e es)
    with assms(2) r1 show thesis by (intro that(5) [of e es]) (auto simp: worker_iteration_def)
  next
    case (got env tag body pre)
    let ?f = "rabbitmq_max_delivery_attempts c \<le> env_attempt env"
    let ?took = "Took (event_queue_name c) tag body"
    obtain r2 w2 where r2: "process_event_by_id S (env_event_id env) ?f w1 = (r2, w2)" by fastforce
    have tr2: "trace w2 = trace w @ pre @ [?took]"
      using keepsD_run [OF keeps_trace_process r2] got by simp
    have run: "(case r2 of
          Inl e \<Rightarrow> (Inl e, w2)
        | Inr handled \<Rightarrow>
            (if handled then complete_event S env
             else io_then (retry_or_dead_letter S c env) (io_return ())) w2) = (r, w')"
      using assms(2) r1 got r2 by (cases r2) (auto simp: worker_iteration_def Let_def)
    consider (exc) e where "r2 = Inl e" | (yes) "r2 = Inr True" | (no) "r2 = Inr False"
      by (cases r2) auto
    then show thesis
    proof cases
      case exc
      with run tr2 got show thesis by (intro that(5) [of e "pre @ [?took]"]) auto
    next
      case yes
      then have ack: "broker S (Ack tag) w2 = (r, w')"
        using run got by (simp add: complete_event_run)
      then show thesis
      proof (cases rule: ack_run)
        case acked
        moreover have "table w' = table w2" by (rule keepsD_run [OF table_view.keeps_broker ack])
        ultimately show thesis
          using got r2 yes t1 tr2 by (intro that(3) [of pre body _ _ w1 w2 tag]) auto
      next
        case (unacked e)
        with got tr2 show thesis by (intro that(5) [of e "pre @ [?took, Failed (Ack tag)]"]) auto
      qed
    next
      case no
      obtain r3 w3 where r3: "retry_or_dead_letter S c env w2 = (r3, w3)" by fastforce
      have t3: "table w3 = table w2"
        by (rule keepsD_run [OF table_frame.keeps_retry_or_dead_letter r3])
      have "task_queue_backend c \<noteq> lit ''redis''" using assms(1) by simp
      then show thesis
        using got(5) r3
      proof (cases rule: retry_or_dead_letter_cases)
        case (moved action rk n pre' p)
        have "r = Inr () \<and> w' = w3" using run no r3 moved by simp
        with moved got r2 no t1 t3 tr2 show thesis
          by (intro that(4) [of pre body "env_event_id env" "env_attempt env" w1 w2 action rk n pre' p tag])
            auto
      next
        case (kept e es)
        have "r = Inl e \<and> w' = w3" using run no r3 kept by simp
        with kept got tr2 show thesis by (intro that(5) [of e "pre @ ?took # es"]) auto
      qed
    qed
  qed
qed

section \<open>Properties\<close>

text \<open>
  When a message may be acknowledged: it is malformed, its event is processed or does not exist,
  or one of the effects \<open>rest\<close> has put a copy on the retry or the dead-letter queue.
\<close>

definition settled :: "settings \<Rightarrow> event list \<Rightarrow> bytes \<Rightarrow> effect list \<Rightarrow> bool" where
  "settled c t body rest \<longleftrightarrow>
     (case decode_payload body of
        Inl _ \<Rightarrow> True
      | Inr (i, n) \<Rightarrow>
          (case find_event t i of None \<Rightarrow> True | Some event \<Rightarrow> processing_status event = PROCESSED) \<or>
          (\<exists>p \<in> set rest. published c (retry_queue_name c) i (n + 1) p \<or>
             published c (dead_letter_queue_name c) i n p))"

text \<open>
  Effects that take one message from the main queue and end in its acknowledgement, with no other
  acknowledgement among them.
\<close>

definition acks_settled :: "settings \<Rightarrow> event list \<Rightarrow> effect list \<Rightarrow> bool" where
  "acks_settled c t es \<longleftrightarrow>
     (\<exists>pre tag body rest. es = pre @ [Took (event_queue_name c) tag body] @ rest @ [Done (Ack tag)] \<and>
       never_acks (pre @ rest) \<and> settled c t body rest)"

lemma acks_settledI:
  "trace w' = trace w @ pre @ [Took (event_queue_name c) tag body] @ rest @ [Done (Ack tag)] \<Longrightarrow>
    never_acks (pre @ rest) \<Longrightarrow> settled c t body rest \<Longrightarrow>
    \<exists>es. trace w' = trace w @ es \<and> (never_acks es \<or> acks_settled c t es)"
  unfolding acks_settled_def by blast

lemma processed_row:
  assumes "process_event_by_id S i final w = (Inr True, w')"
  shows "case find_event (table w') i of None \<Rightarrow> True | Some event \<Rightarrow> processing_status event = PROCESSED"
  using assms
proof (cases rule: process_event_by_id_cases)
  case (processed event now)
  then show ?thesis by (simp add: find_replaced completed_def)
qed simp_all

text \<open>
  C7: on RabbitMQ the worker loses no event. Whatever the broker and the database do, and
  wherever an iteration is cut short by an exception, an iteration acknowledges nothing, or
  exactly the message it took, as its last effect, when that message is settled: malformed, its
  event PROCESSED (or unknown) in the table, or copied to the retry or the dead-letter queue.
\<close>

theorem worker_acknowledges_only_settled:
  assumes "task_queue_backend c = lit ''rabbitmq''"
  shows "case worker_iteration S c w of (r, w') \<Rightarrow>
    \<exists>es. trace w' = trace w @ es \<and> (never_acks es \<or> acks_settled c (table w') es)"
proof -
  obtain r w' where run: "worker_iteration S c w = (r, w')" by fastforce
  from assms run have "\<exists>es. trace w' = trace w @ es \<and> (never_acks es \<or> acks_settled c (table w') es)"
  proof (cases rule: worker_iteration_cases)
    case (idle pre)
    then show ?thesis by (intro exI [of _ pre]) simp
  next
    case (malformed tag body pre e)
    then have "settled c (table w') body []" by (simp add: settled_def)
    with malformed show ?thesis by (intro acks_settledI [of w' w pre c tag body "[]"]) simp_all
  next
    case (done_with i n tag body pre w1 w2)
    then have "settled c (table w') body []"
      using processed_row [of S i _ w1 w2] by (simp add: settled_def)
    with done_with show ?thesis by (intro acks_settledI [of w' w pre c tag body "[]"]) simp_all
  next
    case (rerouted i n tag body pre pre' p action rk m w1 w2)
    have "settled c (table w') body (pre' @ [p])"
      using rerouted by (auto simp: settled_def route_def split: if_splits)
    moreover have "never_acks (pre @ pre' @ [p])"
      using rerouted by (auto dest: published_not_ack)
    ultimately show ?thesis using rerouted
      by (intro acks_settledI [of w' w pre c tag body "pre' @ [p]"]) simp_all
  next
    case (error e es)
    then show ?thesis by (intro exI [of _ es]) simp
  qed
  then show ?thesis unfolding run prod.case .
qed

theorem worker_acknowledges_only_settled_witness:
  "case worker_iteration calm rabbitmq_settings calm_start of (r, w') \<Rightarrow>
    \<exists>es. trace w' = trace calm_start @ es \<and>
      (never_acks es \<or> acks_settled rabbitmq_settings (table w') es)"
  by (rule worker_acknowledges_only_settled) simp

text \<open>
  C15: the database and the queues agree about an event after each completed iteration on
  RabbitMQ that took its message, delivered for the \<open>n\<close>-th time: one more attempt is
  counted, and the event is PROCESSED and no copy of its message is anywhere, or PENDING with
  \<open>n\<close> below the maximum and a copy for delivery \<open>n + 1\<close> on the retry queue, or FAILED with \<open>n\<close>
  at the maximum and a copy on the dead-letter queue. So an event is dead-lettered exactly when
  it is marked FAILED.
\<close>

theorem status_agrees_with_queues:
  assumes "task_queue_backend c = lit ''rabbitmq''"
    and "worker_iteration S c w = (Inr (), w')"
    and "trace w' = trace w @ es"
    and "Took (event_queue_name c) tag body \<in> set es"
    and "decode_payload body = Inr (i, n)"
    and "find_event (table w) i = Some event"
  shows "\<exists>event'. find_event (table w') i = Some event' \<and>
    processing_attempts event' = processing_attempts event + 1 \<and> Done (Ack tag) \<in> set es \<and>
    (case processing_status event' of
       PROCESSED \<Rightarrow> \<forall>ex rk b. Done (Publish ex rk b) \<notin> set es
     | PENDING \<Rightarrow> n < rabbitmq_max_delivery_attempts c \<and>
         (\<exists>p \<in> set es. published c (retry_queue_name c) i (n + 1) p)
     | FAILED \<Rightarrow> rabbitmq_max_delivery_attempts c \<le> n \<and>
         (\<exists>p \<in> set es. published c (dead_letter_queue_name c) i n p))"
proof -
  have none: "e \<notin> set pre" if "list_all preparing pre" "\<not> preparing e" for e pre
    using that by (auto simp: list_all_iff)
  from assms(1,2) show ?thesis
  proof (cases rule: worker_iteration_cases)
    case (idle pre)
    with assms(3,4) none show ?thesis by fastforce
  next
    case (malformed tag' body' pre e)
    with assms(3-5) none [of pre "Took (event_queue_name c) tag body"] show ?thesis by auto
  next
    case (done_with i' n' tag' body' pre w1 w2)
    have es: "es = pre @ [Took (event_queue_name c) tag' body', Done (Ack tag')]"
      using done_with assms(3) by simp
    then have [simp]: "tag' = tag" "body' = body" "i' = i" "n' = n"
      using assms(4,5) done_with none [of pre "Took (event_queue_name c) tag body"] by auto
    from done_with(6) obtain now where
      "table w2 = replace_row (table w1) (completed now (attempted event))"
      by (cases rule: process_event_by_id_cases) (use done_with assms(6) in auto)
    then have "find_event (table w') i = Some (completed now (attempted event))"
      using done_with assms(6) by (simp add: find_replaced)
    then show ?thesis
      using es done_with(2) none [of pre]
      by (auto simp: completed_def attempted_def)
  next
    case (rerouted i' n' tag' body' pre pre' p action rk m w1 w2)
    have es: "es = pre @ [Took (event_queue_name c) tag' body'] @ pre' @ [p, Done (Ack tag')]"
      using rerouted assms(3) by simp
    then have [simp]: "tag' = tag" "body' = body" "i' = i" "n' = n"
      using assms(4,5) rerouted none [of pre "Took (event_queue_name c) tag body"]
        none [of pre' "Took (event_queue_name c) tag body"] by (auto simp: published_def)
    from rerouted(6) obtain m data where
      "table w2 = replace_row (table w1)
        (rejected (rabbitmq_max_delivery_attempts c \<le> n) m ((attempted event)\<lparr>payload := data\<rparr>))"
    proof (cases rule: process_event_by_id_cases)
      case (failed event' data e)
      then show thesis using rerouted assms(6) that by auto
    next
      case (uncommitted event' x e x' now u x'')
      moreover have "attempted event = (attempted event)\<lparr>payload := payload event\<rparr>"
        by (simp add: attempted_def)
      ultimately show thesis using rerouted assms(6) that
        by (metis \<open>i' = i\<close> \<open>n' = n\<close> option.inject)
    qed simp_all
    then have "find_event (table w') i = Some
        (rejected (rabbitmq_max_delivery_attempts c \<le> n) m ((attempted event)\<lparr>payload := data\<rparr>))"
      using rerouted assms(6) by (simp add: find_replaced)
    then show ?thesis
      using es rerouted(7,9) by (auto simp: rejected_def attempted_def route_def split: if_splits)
  qed simp_all
qed

text \<open>A connected worker, the event \<open>flaky_event\<close> in the table and one message on the main queue.\<close>

definition one_message :: "bytes \<Rightarrow> calm_state world" where
  "one_message body = calm_start\<lparr>table := [flaky_event],
     qmod := \<lparr>redis_client = False, rabbitmq_connection = True, rabbitmq_channel = True,
       topology_ready = True\<rparr>,
     ext := \<lparr>ticks = 9, mailbox = [(event_queue_name rabbitmq_settings, 8, body)], redis_list = []\<rparr>\<rparr>"

lemma one_message_run:
  assumes "decode_payload body = Inr (5, 1)" and "queue_payload 5 2 = Inr copy"
  shows "\<exists>w'. worker_iteration calm rabbitmq_settings (one_message body) = (Inr (), w') \<and>
     trace w' = trace (one_message body) @
       [Took (event_queue_name rabbitmq_settings) 8 body,
        Done (GetExchange (rabbitmq_exchange_name rabbitmq_settings)),
        Done (Publish (rabbitmq_exchange_name rabbitmq_settings) (retry_queue_name rabbitmq_settings) copy),
        Done (Ack 8)]"
  using assms
  apply (simp add: worker_iteration_def dequeue_event_def ensure_rabbitmq_topology_def one_message_def
      calm_start_def init_world_def take_message_def call_def calm_def calm_get_def io_bind_def
      log_effect_def Let_def)
  apply (simp add: process_event_by_id_def open_session_def query_def call_def io_bind_def
      process_event_def ask_def calm_tick_def attempt_work_run flaky_event_def new_event_def
      remaining_failures_def dict_get_def process_failed_def Let_def commit_event_def commit_def
      constraints_def replace_row_def rejected_def record_outcome_def set_metrics_def
      rabbitmq_settings_def default_settings_def retry_or_dead_letter_def publish_to_rabbitmq_def
      broker_run ensure_rabbitmq_topology_def calm_do_def)
  done

theorem status_agrees_with_queues_witness:
  "\<exists>body w' es event'. worker_iteration calm rabbitmq_settings (one_message body) = (Inr (), w') \<and>
    trace w' = trace (one_message body) @ es \<and> find_event (table w') 5 = Some event' \<and>
    processing_attempts event' = processing_attempts flaky_event + 1 \<and> Done (Ack 8) \<in> set es \<and>
    (case processing_status event' of
       PROCESSED \<Rightarrow> \<forall>ex rk b. Done (Publish ex rk b) \<notin> set es
     | PENDING \<Rightarrow> 1 < rabbitmq_max_delivery_attempts rabbitmq_settings \<and>
         (\<exists>p \<in> set es. published rabbitmq_settings (retry_queue_name rabbitmq_settings) 5 (1 + 1) p)
     | FAILED \<Rightarrow> rabbitmq_max_delivery_attempts rabbitmq_settings \<le> 1 \<and>
         (\<exists>p \<in> set es. published rabbitmq_settings (dead_letter_queue_name rabbitmq_settings) 5 1 p))"
proof -
  obtain body where b: "decode_payload body = Inr (5, 1)"
    using queue_payload_total [OF small_attempt [of 1], of 5] by (auto dest: decode_queue_payload)
  obtain copy where cp: "queue_payload 5 2 = Inr copy"
    using queue_payload_total [OF small_attempt [of 2]] by auto
  define es where "es = [Took (event_queue_name rabbitmq_settings) 8 body,
        Done (GetExchange (rabbitmq_exchange_name rabbitmq_settings)),
        Done (Publish (rabbitmq_exchange_name rabbitmq_settings) (retry_queue_name rabbitmq_settings) copy),
        Done (Ack 8)]"
  obtain w' where w': "worker_iteration calm rabbitmq_settings (one_message body) = (Inr (), w')"
    "trace w' = trace (one_message body) @ es"
    using one_message_run [OF b cp] by (auto simp: es_def)
  have took: "Took (event_queue_name rabbitmq_settings) 8 body \<in> set es" by (simp add: es_def)
  have row: "find_event (table (one_message body)) 5 = Some flaky_event"
    by (simp add: one_message_def flaky_event_def new_event_def)
  show ?thesis
    using status_agrees_with_queues [OF rabbitmq_settings_backend w' took b row] w' by blast
qed

end
