(* ===== verification/App.thy ===== *)
theory App
  imports Webhooks Worker
begin

text \<open>
  app/main.py: the health endpoints, the metrics poller, the middleware around every request, the
  answers to exceptions, and start and stop of the application. The dispatch of a request to a
  handler is FastAPI's: a request comes with the endpoint its method and path name.
\<close>

section \<open>Requests and responses\<close>

text \<open>\<open>PostWebhook v\<close>: the body parsed as the JSON value \<open>v\<close>. \<open>NoRoute n\<close>: no endpoint, 404 or 405.\<close>

datatype endpoint =
    PostWebhook json
  | GetEvents int int "pystr option"
  | GetSummary
  | GetQueueStats
  | PostRetry uuid
  | PostRedrive int
  | GetHealth
  | GetReady
  | GetLive
  | GetMetrics
  | NoRoute nat pystr

record request =
  req_method :: pystr
  req_path :: pystr
  req_header :: "pystr \<Rightarrow> pystr option"
  req_body :: bytes
  req_endpoint :: endpoint

record health_out =
  health_status :: pystr
  health_database :: pystr
  health_queue :: pystr
  health_queue_depth :: "nat option"
  health_queue_backend :: pystr
  health_version :: pystr

datatype content =
    WebhookAccepted webhook_accepted
  | EventsListOut events_list_out
  | EventsSummaryOut events_summary_out
  | QueueStatsOut queue_stats_out
  | RetryAccepted retry_accepted
  | DLQRedriveOut dlq_redrive_out
  | HealthOut health_out
  | LiveOut
  | MetricsText metrics
  | Detail pystr
  | ValidationErrors

record response =
  status_code :: nat
  content :: content
  request_id_out :: "pystr option"

definition respond :: "nat \<Rightarrow> content \<Rightarrow> response" where
  "respond code body = \<lparr>status_code = code, content = body, request_id_out = None\<rparr>"

definition app_version :: pystr where
  "app_version = lit ''2.0.0''"

section \<open>Health\<close>

definition dependency_state :: "string \<Rightarrow> bool \<Rightarrow> ('x world, unit) io" where
  "dependency_state name ok = set_metrics (set_dependency_state (lit name) ok)"

text \<open>The queue's state, status text and depth, as \<open>health\<close> finds them after its ping.\<close>

definition health_of_queue ::
  "'x services \<Rightarrow> settings \<Rightarrow> bool option \<Rightarrow> ('x world, bool \<times> pystr \<times> nat option) io" where
  "health_of_queue S c ping =
     (if \<not> is_queue_enabled c then io_return (ping = Some True, lit ''disabled'', None)
      else if ping = Some True then
        io_catch
          (io_bind (get_queue_depth S c) (\<lambda>depth. io_return (True, lit ''ok'', depth)))
          (\<lambda>e. if is_queue_unavailable e then io_return (False, lit ''unavailable'', None)
               else io_raise e)
      else io_return (False, lit ''unavailable'', None))"

definition health :: "'x services \<Rightarrow> settings \<Rightarrow> ('x world, health_out) io" where
  "health S c =
     io_bind (ping_db S) (\<lambda>db_ok.
     io_bind (ping_queue S c) (\<lambda>ping.
     io_then (dependency_state ''database'' db_ok)
    (io_bind (health_of_queue S c ping) (\<lambda>(queue_ok, queue_status, depth).
     io_then (dependency_state ''queue'' (queue_ok \<or> \<not> is_queue_enabled c))
    (if \<not> db_ok \<or> (is_queue_enabled c \<and> \<not> queue_ok)
     then io_raise (HTTPException 503 (lit ''Dependency unavailable''))
     else io_return
       \<lparr>health_status = lit ''ok'', health_database = lit ''ok'', health_queue = queue_status,
        health_queue_depth = depth, health_queue_backend = task_queue_backend c,
        health_version = app_version\<rparr>)))))"

definition ready :: "'x services \<Rightarrow> settings \<Rightarrow> ('x world, health_out) io" where
  "ready S c = health S c"

text \<open>One round of \<open>_queue_metrics_poller\<close>; it swallows every exception.\<close>

definition poll_round :: "'x services \<Rightarrow> settings \<Rightarrow> ('x world, unit) io" where
  "poll_round S c =
     io_catch
       (io_then (get_queue_snapshot S c) (dependency_state ''queue'' True))
       (\<lambda>e. if is_queue_unavailable e then dependency_state ''queue'' False else io_return ())"

text \<open>
  \<open>_queue_metrics_poller\<close>: \<open>while True\<close>, observed for \<open>n\<close> rounds as the worker's loop is. \<open>sleep\<close> is what
  happens to the services during \<open>asyncio.sleep\<close>.
\<close>

definition queue_metrics_refresh_seconds :: int where
  "queue_metrics_refresh_seconds = 5"

fun queue_metrics_poller ::
  "'x services \<Rightarrow> settings \<Rightarrow> (int \<Rightarrow> 'x \<Rightarrow> 'x) \<Rightarrow> nat \<Rightarrow> ('x world, unit) io" where
  "queue_metrics_poller S c sleep 0 = io_return ()"
| "queue_metrics_poller S c sleep (Suc n) =
     io_then (poll_round S c)
    (io_then (io_modify (\<lambda>w. w\<lparr>ext := sleep queue_metrics_refresh_seconds (ext w)\<rparr>))
             (queue_metrics_poller S c sleep n))"

section \<open>Endpoints\<close>

text \<open>The dependencies of the routes of routers/webhooks.py: the API key, then a session.\<close>

definition guarded ::
  "'x services \<Rightarrow> settings \<Rightarrow> request \<Rightarrow> bool \<Rightarrow> ('x world, 'a) io \<Rightarrow> ('x world, 'a) io" where
  "guarded S c req with_session handler =
     io_then (io_lift (require_api_key c (req_header req (lit ''X-API-KEY''))))
             (if with_session then io_then (open_session S) handler else handler)"

definition run_endpoint ::
  "'x services \<Rightarrow> settings \<Rightarrow> request \<Rightarrow> pystr \<Rightarrow> ('x world, response) io" where
  "run_endpoint S c req rid =
     (case req_endpoint req of
        PostWebhook v \<Rightarrow> guarded S c req True
          (io_bind (io_lift (validate_webhook_in v)) (\<lambda>data.
           io_bind (receive_webhook S c (req_header req) (req_body req) (Some rid) data) (\<lambda>out.
           io_return (respond 202 (WebhookAccepted out)))))
      | GetEvents limit offset src \<Rightarrow> guarded S c req True
          (io_bind (get_events S limit offset src) (\<lambda>out. io_return (respond 200 (EventsListOut out))))
      | GetSummary \<Rightarrow> guarded S c req True
          (io_bind (get_events_summary_out S c) (\<lambda>out. io_return (respond 200 (EventsSummaryOut out))))
      | GetQueueStats \<Rightarrow> guarded S c req False
          (io_bind (get_queue_stats S c) (\<lambda>out. io_return (respond 200 (QueueStatsOut out))))
      | PostRetry i \<Rightarrow> guarded S c req True
          (io_bind (retry_event S c i) (\<lambda>out. io_return (respond 202 (RetryAccepted out))))
      | PostRedrive limit \<Rightarrow> guarded S c req True
          (io_bind (redrive_dlq S c limit) (\<lambda>out. io_return (respond 202 (DLQRedriveOut out))))
      | GetHealth \<Rightarrow> io_bind (health S c) (\<lambda>out. io_return (respond 200 (HealthOut out)))
      | GetReady \<Rightarrow> io_bind (ready S c) (\<lambda>out. io_return (respond 200 (HealthOut out)))
      | GetLive \<Rightarrow> io_return (respond 200 LiveOut)
      | GetMetrics \<Rightarrow> io_bind (io_gets metrics) (\<lambda>m. io_return (respond 200 (MetricsText m)))
      | NoRoute code detail \<Rightarrow> io_raise (HTTPException code detail))"

text \<open>FastAPI's handlers of its own exceptions; any other goes on to the middleware.\<close>

definition exceptions_answered :: "('x world, response) io \<Rightarrow> ('x world, response) io" where
  "exceptions_answered m =
     io_catch m (\<lambda>e. case e of
       HTTPException code detail \<Rightarrow> io_return (respond code (Detail detail))
     | RequestValidationError \<Rightarrow> io_return (respond 422 ValidationErrors)
     | _ \<Rightarrow> io_raise e)"

section \<open>The middleware\<close>

definition choose_request_id :: "'x services \<Rightarrow> settings \<Rightarrow> request \<Rightarrow> ('x world, pystr) io" where
  "choose_request_id S c req =
     (case req_header req (request_id_header c) of
        Some rid \<Rightarrow> if rid = [] then io_bind (ask (uuid4 S)) (\<lambda>u. io_return (uuid_str u))
                    else io_return rid
      | None \<Rightarrow> io_bind (ask (uuid4 S)) (\<lambda>u. io_return (uuid_str u)))"

definition count_request ::
  "'x services \<Rightarrow> request \<Rightarrow> nat \<Rightarrow> int \<Rightarrow> ('x world, unit) io" where
  "count_request S req code started =
     io_bind (ask (perf_counter S)) (\<lambda>now.
       set_metrics (record_http_request (req_method req) (req_path req) code (now - started)))"

definition log_requests ::
  "'x services \<Rightarrow> settings \<Rightarrow> request \<Rightarrow> (pystr \<Rightarrow> ('x world, response) io) \<Rightarrow> ('x world, response) io" where
  "log_requests S c req call_next =
     io_bind (choose_request_id S c req) (\<lambda>rid.
     io_bind (ask (perf_counter S)) (\<lambda>started.
     io_catch
       (io_bind (call_next rid) (\<lambda>response.
          let response = response\<lparr>request_id_out := Some rid\<rparr>
          in io_then (count_request S req (status_code response) started)
                     (io_return response)))
       (\<lambda>e. io_then (count_request S req 500 started) (io_raise e))))"

definition unhandled_exception_handler :: "exn \<Rightarrow> response" where
  "unhandled_exception_handler e = respond 500 (Detail (lit ''Internal Server Error''))"

text \<open>
  One request, from its arrival to its response. The background tasks it leaves in \<open>tasks\<close> run
  after the response was sent (\<open>background_tasks\<close>), and only if a handler returned it.
\<close>

definition serve :: "'x services \<Rightarrow> settings \<Rightarrow> request \<Rightarrow> ('x world, response) io" where
  "serve S c req =
     io_catch
       (log_requests S c req (\<lambda>rid. exceptions_answered (run_endpoint S c req rid)))
       (\<lambda>e. io_return (unhandled_exception_handler e))"

section \<open>Start and stop\<close>

definition startup :: "'x services \<Rightarrow> settings \<Rightarrow> ('x world, bool) io" where
  "startup S c =
     io_then (setup_logging S c)
    (io_then (if auto_create_tables c then init_db S else io_return ())
             (io_return (is_queue_enabled c)))"

definition shutdown :: "'x services \<Rightarrow> ('x world, unit) io" where
  "shutdown S = io_then (dispose_queue S) (dispose_db S)"

section \<open>Only the middleware counts requests\<close>

abbreviation request_counts :: "'x world \<Rightarrow> pystr \<times> pystr \<times> pystr \<Rightarrow> nat" where
  "request_counts w \<equiv> http_requests_total (metrics w)"

interpretation request_view: queue_blind request_counts
  by unfold_locales simp_all

lemma keeps_counts_set_metrics:
  "(\<And>m. http_requests_total (f m) = http_requests_total m) \<Longrightarrow> keeps request_counts (set_metrics f)"
  unfolding set_metrics_def by (rule keeps_modify) simp

lemma keeps_counts_recorders [keeps_rules]:
  "keeps request_counts (set_metrics record_signature_failure)"
  "keeps request_counts (set_metrics record_duplicate)"
  "keeps request_counts (set_metrics (record_webhook_intake src status))"
  "keeps request_counts (set_metrics (record_processing src status d))"
  "keeps request_counts (set_metrics record_retry)"
  "keeps request_counts (set_metrics (record_redrive n))"
  "keeps request_counts (set_metrics (set_queue_depths a b e))"
  "keeps request_counts (set_metrics (set_dependency_state name ok))"
  by (rule keeps_counts_set_metrics;
      simp add: record_signature_failure_def record_duplicate_def record_webhook_intake_def
        record_processing_def record_retry_def record_redrive_def set_queue_depths_def
        set_dependency_state_def Let_def)+

lemma keeps_counts_database [keeps_rules]:
  "keeps request_counts (query S f)" "keeps request_counts (commit S t)"
  "keeps request_counts (open_session S)"
  unfolding query_def commit_def open_session_def
  by (intro keeps_rules | rule keeps_modify; simp)+

lemma keeps_counts_crud [keeps_rules]:
  "keeps request_counts (create_event S dlv rid src etype data)"
  "keeps request_counts (get_event_by_delivery_id S d)" "keeps request_counts (get_event_by_id S i)"
  "keeps request_counts (list_events S limit offset src')" "keeps request_counts (get_events_summary S)"
  "keeps request_counts (mark_events_pending S ids)" "keeps request_counts (ping_db S)"
  unfolding create_event_def get_event_by_delivery_id_def get_event_by_id_def list_events_def
    get_events_summary_def mark_events_pending_def ping_db_def
  by (intro keeps_rules)+

lemma keeps_counts_snapshot [keeps_rules]:
  "keeps request_counts (get_queue_snapshot S c)" "keeps request_counts (get_queue_depth S c)"
  unfolding get_queue_depth_def get_queue_snapshot_def publish_depths_def by (intro keeps_rules)+

lemma keeps_counts_redrive [keeps_rules]: "keeps request_counts (redrive_dead_letter S c n)"
proof -
  have "keeps request_counts (redrive_loop S c m ids)" for m ids
    by (induction m arbitrary: ids) (auto intro!: keeps_rules)
  then show ?thesis unfolding redrive_dead_letter_def by (intro keeps_rules)
qed

lemma keeps_counts_verify [keeps_rules]:
  "keeps request_counts (verify_webhook_signature S c body ts sig)"
  unfolding verify_webhook_signature_def signature_failure_def by (intro keeps_rules)

lemma keeps_counts_schedule [keeps_rules]: "keeps request_counts (schedule_event S c i)"
proof -
  have "keeps request_counts (add_task i)" unfolding add_task_def by (rule keeps_modify) simp
  then show ?thesis unfolding schedule_event_def or_503_def by (intro keeps_rules)
qed

lemma keeps_counts_handlers [keeps_rules]:
  "keeps request_counts (receive_webhook S c hdrs body rid data)"
  "keeps request_counts (get_events S limit offset src)"
  "keeps request_counts (get_events_summary_out S c)"
  "keeps request_counts (get_queue_stats S c)"
  "keeps request_counts (retry_event S c i)"
  "keeps request_counts (redrive_dlq S c limit)"
  unfolding receive_webhook_def get_events_def get_events_summary_out_def get_queue_stats_def
    retry_event_def redrive_dlq_def get_queue_snapshot_or_raise_def or_503_def
  by (intro keeps_rules)+

lemma keeps_counts_health [keeps_rules]: "keeps request_counts (health S c)"
  unfolding health_def health_of_queue_def dependency_state_def by (intro keeps_rules)

lemma keeps_counts_endpoint [keeps_rules]: "keeps request_counts (run_endpoint S c req rid)"
  unfolding run_endpoint_def guarded_def ready_def
  by (cases "req_endpoint req") (simp_all, (intro keeps_rules)+)

lemma keeps_counts_request_id [keeps_rules]: "keeps request_counts (choose_request_id S c req)"
  unfolding choose_request_id_def by (intro keeps_rules)

section \<open>One request\<close>

text \<open>The status with which \<open>serve\<close> answers the outcome of an endpoint.\<close>

definition status_of :: "exn + response \<Rightarrow> nat" where
  "status_of r =
     (case r of
        Inr resp \<Rightarrow> status_code resp
      | Inl (HTTPException code _) \<Rightarrow> code
      | Inl RequestValidationError \<Rightarrow> 422
      | Inl _ \<Rightarrow> 500)"

definition unhandled :: "exn \<Rightarrow> bool" where
  "unhandled e \<longleftrightarrow> (case e of HTTPException _ _ \<Rightarrow> False | RequestValidationError \<Rightarrow> False | _ \<Rightarrow> True)"

lemma exceptions_answered_run:
  assumes "m w = (r, w')"
  shows "exceptions_answered m w =
    (case r of
       Inr resp \<Rightarrow> (Inr resp, w')
     | Inl e \<Rightarrow> if unhandled e then (Inl e, w')
         else (Inr (respond (status_of r) (case e of HTTPException _ d \<Rightarrow> Detail d | _ \<Rightarrow> ValidationErrors)), w'))"
  using assms
  by (auto simp: exceptions_answered_def io_catch_def unhandled_def status_of_def split: sum.splits exn.splits)

lemma unhandled_status: "unhandled e \<Longrightarrow> status_of (Inl e) = 500"
  by (cases e) (simp_all add: unhandled_def status_of_def)

lemma count_request_run:
  "\<exists>w' d. count_request S req code started w = (Inr (), w') \<and>
    request_counts w' = inc (req_method req, or_else (req_path req) (lit ''/''), status_code_text code)
      (request_counts w) \<and>
    table w' = table w \<and> trace w' = trace w \<and> tasks w' = tasks w \<and> qmod w' = qmod w"
  by (auto simp: count_request_def ask_def io_bind_def set_metrics_def record_http_request_def Let_def
      split: prod.splits)

lemma choose_request_id_run:
  "\<exists>rid w'. choose_request_id S c req w = (Inr rid, w') \<and>
    (if absent (req_header req (request_id_header c)) then \<exists>u. rid = uuid_str u
     else req_header req (request_id_header c) = Some rid) \<and>
    table w' = table w \<and> trace w' = trace w \<and> tasks w' = tasks w \<and> metrics w' = metrics w \<and>
    ext w' \<in> {ext w, snd (uuid4 S (ext w))}"
  by (cases "req_header req (request_id_header c)")
    (auto simp: choose_request_id_def ask_def io_bind_def absent_def split: prod.splits)

text \<open>The parts of \<open>serve\<close>: the request id, the endpoint, the count, the response.\<close>

lemma serve_cases:
  obtains rid w1 r w2 resp w' where
    "serve S c req w = (Inr resp, w')"
    "table w1 = table w" "trace w1 = trace w" "tasks w1 = tasks w" "request_counts w1 = request_counts w"
    "run_endpoint S c req rid w1 = (r, w2)"
    "table w' = table w2" "trace w' = trace w2" "tasks w' = tasks w2"
    "request_counts w' = inc (req_method req, or_else (req_path req) (lit ''/''),
       status_code_text (status_of r)) (request_counts w2)"
    "status_code resp = status_of r"
    "if absent (req_header req (request_id_header c)) then \<exists>u. rid = uuid_str u
     else req_header req (request_id_header c) = Some rid"
    "request_id_out resp = (case r of Inl e \<Rightarrow> if unhandled e then None else Some rid | Inr _ \<Rightarrow> Some rid)"
    "\<exists>x \<in> {ext w, snd (uuid4 S (ext w))}. ext w1 = snd (perf_counter S x)"
proof -
  obtain rid w0 where rid: "choose_request_id S c req w = (Inr rid, w0)"
    "if absent (req_header req (request_id_header c)) then \<exists>u. rid = uuid_str u
     else req_header req (request_id_header c) = Some rid"
    and f0: "table w0 = table w" "trace w0 = trace w" "tasks w0 = tasks w" "metrics w0 = metrics w"
    and x0: "ext w0 \<in> {ext w, snd (uuid4 S (ext w))}"
    using choose_request_id_run by metis
  obtain started x where st: "perf_counter S (ext w0) = (started, x)" by fastforce
  define w1 where "w1 = w0\<lparr>ext := x\<rparr>"
  obtain r w2 where r: "run_endpoint S c req rid w1 = (r, w2)" by fastforce
  note ans = exceptions_answered_run [of "run_endpoint S c req rid", OF r]
  obtain w' where w': "count_request S req (status_of r) started w2 = (Inr (), w')"
    "request_counts w' = inc (req_method req, or_else (req_path req) (lit ''/''),
       status_code_text (status_of r)) (request_counts w2)"
    "table w' = table w2" "trace w' = trace w2" "tasks w' = tasks w2"
    using count_request_run [of S req "status_of r" started w2] by metis
  have logged: "log_requests S c req (\<lambda>rid. exceptions_answered (run_endpoint S c req rid)) w =
      (case exceptions_answered (run_endpoint S c req rid) w1 of
         (Inr resp, w2) \<Rightarrow> (case count_request S req (status_code resp) started w2 of
            (Inr _, w3) \<Rightarrow> (Inr (resp\<lparr>request_id_out := Some rid\<rparr>), w3)
          | (Inl e, w3) \<Rightarrow> io_then (count_request S req 500 started) (io_raise e) w3)
       | (Inl e, w2) \<Rightarrow> io_then (count_request S req 500 started) (io_raise e) w2)"
    using rid(1) st
    by (simp add: log_requests_def io_bind_def io_catch_def ask_def w1_def Let_def
        split: prod.splits sum.splits)
  have x1: "\<exists>x \<in> {ext w, snd (uuid4 S (ext w))}. ext w1 = snd (perf_counter S x)"
    using x0 st by (intro bexI [of _ "ext w0"]) (simp_all add: w1_def)
  have f1: "table w1 = table w" "trace w1 = trace w" "tasks w1 = tasks w" "request_counts w1 = request_counts w"
    using f0 by (simp_all add: w1_def)
  show thesis
  proof (cases r)
    case (Inr resp)
    then have "serve S c req w = (Inr (resp\<lparr>request_id_out := Some rid\<rparr>), w')"
      using logged ans w'(1) by (simp add: serve_def io_catch_def status_of_def)
    with f1 r w' rid(2) x1 Inr show thesis
      by (intro that [of "resp\<lparr>request_id_out := Some rid\<rparr>" w' w1 rid r w2]) (simp_all add: status_of_def)
  next
    case (Inl e)
    show thesis
    proof (cases "unhandled e")
      case True
      then have "serve S c req w = (Inr (unhandled_exception_handler e), w')"
        using logged ans w'(1) Inl unhandled_status [OF True]
        by (simp add: serve_def io_catch_def io_bind_def)
      with f1 r w' rid(2) x1 Inl True unhandled_status [OF True] show thesis
        by (intro that [of "unhandled_exception_handler e" w' w1 rid r w2])
          (simp_all add: unhandled_exception_handler_def respond_def)
    next
      case False
      let ?resp = "respond (status_of r) (case e of HTTPException _ d \<Rightarrow> Detail d | _ \<Rightarrow> ValidationErrors)"
      have "serve S c req w = (Inr (?resp\<lparr>request_id_out := Some rid\<rparr>), w')"
        using logged ans w'(1) Inl False by (simp add: serve_def io_catch_def respond_def)
      with f1 r w' rid(2) x1 Inl False show thesis
        by (intro that [of "?resp\<lparr>request_id_out := Some rid\<rparr>" w' w1 rid r w2]) (simp_all add: respond_def)
    qed
  qed
qed

text \<open>
  C21: every request gets one response and is counted once. \<open>serve\<close> never raises; the request
  counter grows by one under the request's method and path and the status of the response, and
  under no other label; the response carries the request id (the client's, or a fresh one where
  the client sent none), except for the answer to an unhandled exception, which has none.
\<close>

theorem every_request_is_answered_and_counted_once:
  "\<exists>response w'. serve S c req w = (Inr response, w') \<and>
    request_counts w' = inc (req_method req, or_else (req_path req) (lit ''/''),
      status_code_text (status_code response)) (request_counts w) \<and>
    (case request_id_out response of
       None \<Rightarrow> status_code response = 500
     | Some rid \<Rightarrow>
         if absent (req_header req (request_id_header c)) then \<exists>u. rid = uuid_str u
         else req_header req (request_id_header c) = Some rid)"
proof -
  obtain rid w1 r w2 response w' where s: "serve S c req w = (Inr response, w')"
    and c1: "request_counts w1 = request_counts w" and run: "run_endpoint S c req rid w1 = (r, w2)"
    and count: "request_counts w' = inc (req_method req, or_else (req_path req) (lit ''/''),
       status_code_text (status_of r)) (request_counts w2)"
    and code: "status_code response = status_of r"
    and rid: "if absent (req_header req (request_id_header c)) then \<exists>u. rid = uuid_str u
     else req_header req (request_id_header c) = Some rid"
    and out: "request_id_out response = (case r of Inl e \<Rightarrow> if unhandled e then None else Some rid | Inr _ \<Rightarrow> Some rid)"
    by (rule serve_cases [of S c req w])
  have "request_counts w2 = request_counts w"
    using keepsD_run [OF keeps_counts_endpoint run] c1 by simp
  moreover have "request_id_out response = None \<and> status_of r = 500 \<or> request_id_out response = Some rid"
    using out unhandled_status by (auto split: sum.splits if_splits)
  ultimately show ?thesis using s count code rid by auto
qed

text \<open>The endpoints of routers/webhooks.py, all behind \<open>require_api_key\<close>.\<close>

definition needs_key :: "endpoint \<Rightarrow> bool" where
  "needs_key e \<longleftrightarrow>
     (case e of
        PostWebhook _ \<Rightarrow> True | GetEvents _ _ _ \<Rightarrow> True | GetSummary \<Rightarrow> True | GetQueueStats \<Rightarrow> True
      | PostRetry _ \<Rightarrow> True | PostRedrive _ \<Rightarrow> True | _ \<Rightarrow> False)"

text \<open>
  C22: requests without the API key change nothing. With a key configured, a request for any of
  the webhook, event and queue endpoints that does not carry exactly that key is answered 401 (500
  if a key has non-ASCII characters), and the table, the queues and the scheduled tasks are as
  before.
\<close>

theorem requests_without_key_change_nothing:
  assumes "api_key c \<noteq> []" and "req_header req (lit ''X-API-KEY'') \<noteq> Some (api_key c)"
    and "needs_key (req_endpoint req)"
  shows "\<exists>response w'. serve S c req w = (Inr response, w') \<and>
    table w' = table w \<and> trace w' = trace w \<and> tasks w' = tasks w \<and>
    (status_code response = 401 \<or>
     status_code response = 500 \<and>
       (\<exists>k. req_header req (lit ''X-API-KEY'') = Some k \<and> (\<exists>ch \<in> set k \<union> set (api_key c). 128 \<le> ch)))"
proof -
  let ?k = "req_header req (lit ''X-API-KEY'')"
  obtain rid w1 r w2 response w' where s: "serve S c req w = (Inr response, w')"
    and f1: "table w1 = table w" "trace w1 = trace w" "tasks w1 = tasks w"
    and run: "run_endpoint S c req rid w1 = (r, w2)"
    and f2: "table w' = table w2" "trace w' = trace w2" "tasks w' = tasks w2"
    and code: "status_code response = status_of r"
    by (rule serve_cases [of S c req w])
  obtain e where e: "require_api_key c ?k = Inl e"
    and st: "status_of (Inl e) = 401 \<or> status_of (Inl e) = 500 \<and>
       (\<exists>k. ?k = Some k \<and> (\<exists>ch \<in> set k \<union> set (api_key c). 128 \<le> ch))"
    using assms(1,2)
  proof (cases rule: require_api_key_refuses)
    case unauthorized
    then show thesis by (intro that [of "unauthorized ''Invalid API key''"]) (simp_all add: unauthorized_def status_of_def)
  next
    case (non_ascii k detail ch)
    then show thesis by (intro that [of "TypeError detail"]) (auto simp: status_of_def)
  qed
  have "guarded S c req b m w1 = (Inl e, w1)" for b and m :: "('a world, response) io"
    using e by (simp add: guarded_def)
  then have "r = Inl e \<and> w2 = w1"
    using run assms(3) by (cases "req_endpoint req") (auto simp: run_endpoint_def needs_key_def)
  then show ?thesis using s f1 f2 code st by auto
qed

definition keyless_request :: request where
  "keyless_request = \<lparr>req_method = lit ''POST'', req_path = lit ''/queue/dlq/redrive'',
     req_header = (\<lambda>_. None), req_body = [], req_endpoint = PostRedrive 10\<rparr>"

theorem requests_without_key_change_nothing_witness:
  "\<exists>response w'. serve calm (default_settings\<lparr>api_key := lit ''k''\<rparr>) keyless_request calm_start
      = (Inr response, w') \<and>
    table w' = table calm_start \<and> trace w' = trace calm_start \<and> tasks w' = tasks calm_start \<and>
    status_code response = 401"
  using requests_without_key_change_nothing [of "default_settings\<lparr>api_key := lit ''k''\<rparr>"
      keyless_request calm calm_start]
  by (simp add: keyless_request_def needs_key_def)

section \<open>Health\<close>

lemma snapshot_errors: "get_queue_snapshot S c w = (Inl e, w') \<Longrightarrow> is_queue_unavailable e"
proof -
  assume run: "get_queue_snapshot S c w = (Inl e, w')"
  have wrapped: "is_queue_unavailable e"
    if "io_catch m (\<lambda>_. io_raise (QueueUnavailableError msg)) w = (Inl e, w')" for m :: "('a world, queue_snapshot) io" and msg
    using that by (auto simp: io_catch_def split: prod.splits sum.splits)
  show ?thesis
    using run unfolding get_queue_snapshot_def
    by (auto simp: publish_depths_def set_metrics_run split: if_splits dest!: wrapped)
qed

lemma depth_errors: "get_queue_depth S c w = (Inl e, w') \<Longrightarrow> is_queue_unavailable e"
  by (auto simp: get_queue_depth_def io_bind_def dest: snapshot_errors split: prod.splits sum.splits)

lemma pings_return:
  "\<exists>b w'. ping_db S w = (Inr b, w')" "\<exists>p w'. ping_queue S c u = (Inr p, w')"
  "ping_queue S c u = (Inr p, u') \<Longrightarrow> p = None \<longleftrightarrow> \<not> is_queue_enabled c"
  by (auto simp: ping_db_def ping_queue_def io_catch_def io_bind_def split: prod.splits sum.splits if_splits)

abbreviation gauges :: "'x world \<Rightarrow> pystr \<rightharpoonup> int" where
  "gauges w \<equiv> dependency_up (metrics w)"

interpretation gauge_view: queue_blind gauges
  by unfold_locales simp_all

lemma keeps_gauges [keeps_rules]:
  "keeps gauges (get_queue_snapshot S c)" "keeps gauges (get_queue_depth S c)" "keeps gauges (ping_db S)"
proof -
  have "keeps gauges (set_metrics (set_queue_depths a b d))" for a b d
    unfolding set_metrics_def by (rule keeps_modify) (simp add: set_queue_depths_def Let_def)
  then show s: "keeps gauges (get_queue_snapshot S c)"
    unfolding get_queue_snapshot_def publish_depths_def by (intro keeps_rules)
  then show "keeps gauges (get_queue_depth S c)"
    unfolding get_queue_depth_def by (intro keeps_rules)
  show "keeps gauges (ping_db S)" unfolding ping_db_def by (intro keeps_rules)
qed

lemma dependency_state_run:
  "\<exists>w'. dependency_state name ok w = (Inr (), w') \<and>
    gauges w' = (gauges w)(lit name \<mapsto> (if ok then 1 else 0))"
  by (simp add: dependency_state_def set_metrics_run set_dependency_state_def)

lemma health_of_queue_returns:
  "\<exists>ok st depth w'. health_of_queue S c p w = (Inr (ok, st, depth), w') \<and> gauges w' = gauges w \<and>
    st = (if \<not> is_queue_enabled c then lit ''disabled'' else if ok then lit ''ok'' else lit ''unavailable'') \<and>
    (ok \<longrightarrow> p = Some True)"
proof (cases "is_queue_enabled c \<and> p = Some True")
  case False
  then show ?thesis by (auto simp: health_of_queue_def)
next
  case True
  obtain r w1 where r: "get_queue_depth S c w = (r, w1)" by fastforce
  have g: "gauges w1 = gauges w" by (rule keepsD_run [OF keeps_gauges(2) r])
  show ?thesis
  proof (cases r)
    case (Inl e)
    with r True g depth_errors [of S c w e w1] show ?thesis by (auto simp: health_of_queue_def)
  next
    case (Inr d)
    with r True g show ?thesis by (auto simp: health_of_queue_def)
  qed
qed

lemma ping_db_true: "ping_db S w = (Inr b, w') \<Longrightarrow> b \<longleftrightarrow> fst (db_query S (ext w)) = Inr ()"
  by (auto simp: ping_db_def io_catch_def io_bind_def call_def split: prod.splits sum.splits)

text \<open>
  C37: \<open>/health\<close> tells the truth about the gauges it sets. It never fails otherwise than with 503
  "Dependency unavailable"; after it both dependency gauges are 0 or 1, the database's is 1
  exactly when the database answered, \<open>health\<close> reports "ok" exactly when both are 1, and the queue's status is "disabled" without a queue and "ok" with one.
\<close>

theorem health_agrees_with_gauges:
  "case health S c w of (r, w') \<Rightarrow>
    \<exists>db_up queue_up. db_up \<in> {0, 1} \<and> queue_up \<in> {0, 1} \<and>
      (db_up = 1 \<longleftrightarrow> fst (db_query S (ext w)) = Inr ()) \<and>
      gauges w' = (gauges w)(lit ''database'' \<mapsto> db_up, lit ''queue'' \<mapsto> queue_up) \<and>
      (case r of
         Inr out \<Rightarrow> db_up = 1 \<and> queue_up = 1 \<and> health_status out = lit ''ok'' \<and>
           health_queue out = (if is_queue_enabled c then lit ''ok'' else lit ''disabled'')
       | Inl e \<Rightarrow> (db_up = 0 \<or> queue_up = 0 \<and> is_queue_enabled c) \<and>
           e = HTTPException 503 (lit ''Dependency unavailable''))"
proof -
  obtain db w1 where db: "ping_db S w = (Inr db, w1)" using pings_return(1) by metis
  obtain p w2 where p: "ping_queue S c w1 = (Inr p, w2)" using pings_return(2) by metis
  obtain w3 where w3: "dependency_state ''database'' db w2 = (Inr (), w3)"
    "gauges w3 = (gauges w2)(lit ''database'' \<mapsto> (if db then 1 else 0))"
    using dependency_state_run by metis
  obtain ok st depth w4 where w4: "health_of_queue S c p w3 = (Inr (ok, st, depth), w4)" "gauges w4 = gauges w3"
    "st = (if \<not> is_queue_enabled c then lit ''disabled'' else if ok then lit ''ok'' else lit ''unavailable'')"
    using health_of_queue_returns by metis
  let ?up = "ok \<or> \<not> is_queue_enabled c"
  obtain w5 where w5: "dependency_state ''queue'' ?up w4 = (Inr (), w5)"
    "gauges w5 = (gauges w4)(lit ''queue'' \<mapsto> (if ?up then 1 else 0))"
    using dependency_state_run by metis
  have "gauges w2 = gauges w"
    using keepsD_run [OF keeps_gauges(3) db] keepsD_run [OF gauge_view.keeps_ping_queue p] by simp
  then have g: "gauges w5 = (gauges w)(lit ''database'' \<mapsto> (if db then 1 else 0),
      lit ''queue'' \<mapsto> (if ?up then 1 else 0))"
    using w3 w4 w5 by simp
  have run: "health S c w =
      (if \<not> db \<or> is_queue_enabled c \<and> \<not> ok
       then (Inl (HTTPException 503 (lit ''Dependency unavailable'')), w5)
       else (Inr \<lparr>health_status = lit ''ok'', health_database = lit ''ok'', health_queue = st,
          health_queue_depth = depth, health_queue_backend = task_queue_backend c,
          health_version = app_version\<rparr>, w5))"
    using db p w3(1) w4(1) w5(1) by (simp add: health_def)
  show ?thesis
    unfolding run split_beta
    by (rule exI [of _ "if db then 1 else 0"], rule exI [of _ "if ?up then 1 else 0"])
      (use g w4(3) ping_db_true [OF db] in auto)
qed

text \<open>One round: it does not raise, and sets the gauge by whether the queues could be read.\<close>

lemma poll_round_reports:
  "case poll_round S c w of (r, w') \<Rightarrow> r = Inr () \<and>
    gauges w' = (gauges w)(lit ''queue'' \<mapsto>
      (case fst (get_queue_snapshot S c w) of Inr _ \<Rightarrow> 1 | Inl _ \<Rightarrow> 0))"
proof -
  obtain r1 w1 where r1: "get_queue_snapshot S c w = (r1, w1)" by fastforce
  have g: "gauges w1 = gauges w" by (rule keepsD_run [OF keeps_gauges(1) r1])
  obtain w2 where w2: "dependency_state ''queue'' (\<exists>s. r1 = Inr s) w1 = (Inr (), w2)"
    "gauges w2 = (gauges w1)(lit ''queue'' \<mapsto> (if \<exists>s. r1 = Inr s then 1 else 0))"
    using dependency_state_run by metis
  show ?thesis
  proof (cases r1)
    case (Inl e)
    with r1 w2 g snapshot_errors [of S c w e w1] show ?thesis by (simp add: poll_round_def)
  next
    case (Inr s)
    with r1 w2 g show ?thesis by (simp add: poll_round_def)
  qed
qed

lemma poll_round_table: "keeps table (poll_round S c)"
  unfolding poll_round_def dependency_state_def by (intro keeps_rules)

lemma poller_runs: "\<exists>w'. queue_metrics_poller S c sleep n w = (Inr (), w') \<and> table w' = table w"
proof (induction n arbitrary: w)
  case (Suc n)
  obtain w1 where w1: "poll_round S c w = (Inr (), w1)"
    using poll_round_reports [where S = S and c = c and w = w] by (auto split: prod.splits)
  have "table w1 = table w" by (rule keepsD_run [OF poll_round_table w1])
  moreover obtain w' where
    "queue_metrics_poller S c sleep n (w1\<lparr>ext := sleep queue_metrics_refresh_seconds (ext w1)\<rparr>) = (Inr (), w')"
    "table w' = table w1"
    using Suc.IH [of "w1\<lparr>ext := sleep queue_metrics_refresh_seconds (ext w1)\<rparr>"] by auto
  ultimately show ?case using w1 by simp
qed simp

lemma poller_last_round:
  "queue_metrics_poller S c sleep (Suc n) w =
     io_then (queue_metrics_poller S c sleep n) (queue_metrics_poller S c sleep 1) w"
proof (induction n arbitrary: w)
  case (Suc n)
  obtain w1 where w1: "poll_round S c w = (Inr (), w1)"
    using poll_round_reports [where S = S and c = c and w = w] by (auto split: prod.splits)
  let ?w = "w1\<lparr>ext := sleep queue_metrics_refresh_seconds (ext w1)\<rparr>"
  have "queue_metrics_poller S c sleep (Suc (Suc n)) w = queue_metrics_poller S c sleep (Suc n) ?w"
    by (subst queue_metrics_poller.simps(2)) (simp add: w1 del: queue_metrics_poller.simps)
  also have "\<dots> = io_then (queue_metrics_poller S c sleep n) (queue_metrics_poller S c sleep 1) ?w"
    by (rule Suc.IH)
  also have "\<dots> = io_then (queue_metrics_poller S c sleep (Suc n)) (queue_metrics_poller S c sleep 1) w"
    by (simp add: w1 io_bind_assoc)
  finally show ?case .
qed simp

text \<open>
  C38: the metrics poller never stops by itself. Whatever the queue's services answer or raise, it
  goes on for any number of rounds, never touches the table, and each round leaves the queue gauge
  at 1 or 0 according to whether the snapshot of the queues was read in that round.
\<close>

theorem poller_never_stops:
  "\<exists>u w'. queue_metrics_poller S c sleep n w = (Inr (), u) \<and>
    queue_metrics_poller S c sleep (Suc n) w = (Inr (), w') \<and> table w' = table w \<and>
    gauges w' = (gauges u)(lit ''queue'' \<mapsto>
      (case fst (get_queue_snapshot S c u) of Inr _ \<Rightarrow> 1 | Inl _ \<Rightarrow> 0))"
proof -
  obtain u where u: "queue_metrics_poller S c sleep n w = (Inr (), u)"
    using poller_runs by blast
  obtain w' where w': "queue_metrics_poller S c sleep (Suc n) w = (Inr (), w')" "table w' = table w"
    using poller_runs by blast
  obtain v where v: "poll_round S c u = (Inr (), v)" "gauges v = (gauges u)(lit ''queue'' \<mapsto>
      (case fst (get_queue_snapshot S c u) of Inr _ \<Rightarrow> 1 | Inl _ \<Rightarrow> 0))"
    using poll_round_reports [where S = S and c = c and w = u] by (auto split: prod.splits)
  have "queue_metrics_poller S c sleep 1 u = (Inr (), w')"
    using w'(1) u by (simp add: poller_last_round del: queue_metrics_poller.simps)
  then have "gauges w' = gauges v" using v(1) by (auto simp: One_nat_def)
  with u w' v(2) show ?thesis by auto
qed

text \<open>
  An orderly shutdown leaves no client, connection or channel behind, so that the next use
  of the queue connects afresh; and while shutting down the table does not change.
\<close>

lemma shutdown_releases_clients:
  "case shutdown S w of (r, w') \<Rightarrow> table w' = table w \<and>
    (case r of Inr _ \<Rightarrow> qmod w' = init_qmod | Inl _ \<Rightarrow> True)"
proof -
  obtain r1 w1 where r1: "dispose_queue S w = (r1, w1)" by fastforce
  obtain r2 w2 where r2: "dispose_db S w1 = (r2, w2)" by fastforce
  have t: "table w2 = table w1" "table w1 = table w" "qmod w2 = qmod w1"
    using keepsD_run [OF table_view.keeps_dispose_queue r1] r2
    by (auto simp: dispose_db_def call_def split: prod.splits)
  have "qmod w1 = init_qmod" if "r1 = Inr u" for u
    using r1 that
    by (auto simp: dispose_queue_def io_bind_def set_qmod_def init_qmod_def broker_run
        split: prod.splits sum.splits if_splits)
  then show ?thesis
    using r1 r2 t by (cases r1; cases r2) (auto simp: shutdown_def)
qed

section \<open>Start\<close>

text \<open>
  C39: the validators take any text as log level, and a level that \<open>logging\<close> does not know stops
  the program later: the API's start and the worker's both raise \<open>ValueError\<close> from
  \<open>setup_logging\<close> before they have done anything else.
\<close>

theorem unknown_log_level_stops_the_start:
  assumes "level_number (str_upper S (log_level c)) = None"
  shows "((\<exists>l. load_settings lower upper raw = Inr l) \<longleftrightarrow>
       (\<exists>l. load_settings lower upper (raw\<lparr>log_level := any_text\<rparr>) = Inr l)) \<and>
    (\<exists>e. is_value_error e \<and> startup S c w = (Inl e, w) \<and> worker_main S c n w = (Inl e, w))"
proof -
  have "setup_logging S c u = (Inl (ValueError (lit ''Unknown level: '' @ [39] @
      str_upper S (log_level c) @ [39])), u)" for u :: "'a world"
    using assms by (simp add: setup_logging_def)
  then show ?thesis
    by (simp add: startup_def worker_main_def io_bind_def load_settings_cases Let_def)
qed

theorem unknown_log_level_stops_the_start_witness:
  "\<exists>e. is_value_error e \<and>
    startup calm (default_settings\<lparr>log_level := lit ''LOUD''\<rparr>) calm_start = (Inl e, calm_start) \<and>
    worker_main calm (default_settings\<lparr>log_level := lit ''LOUD''\<rparr>) 3 calm_start = (Inl e, calm_start)"
proof -
  have "level_number (str_upper calm (log_level (default_settings\<lparr>log_level := lit ''LOUD''\<rparr>))) = None"
    by (simp add: level_number_def calm_def)
  from unknown_log_level_stops_the_start [OF this] show ?thesis by blast
qed

end
