(* ===== verification/Lifecycle.thy ===== *)
theory Lifecycle
  imports App
begin

text \<open>
  The service as a whole: the ways in which an event's row can change, as a specification; the
  steps of the running service; the proof that every step only makes such changes; and the
  invariants that follow for every reachable state.
\<close>

section \<open>What one operation does to the table\<close>

text \<open>
  The writes of the code, one by one, with what is known at the call: a row is inserted when the
  lookup found no row with its delivery id (an absent or empty one is not looked up), rows are
  marked only by the redrive of RabbitMQ's dead letters, and whether a failing attempt is the final
  one depends on who runs it. \<open>may_be_final c final\<close>: the background tasks run final attempts
  only, the worker decides by the attempt number of the message, which on Redis is always 1.
\<close>

definition unseen :: "event list \<Rightarrow> pystr option \<Rightarrow> bool" where
  "unseen t dlv \<longleftrightarrow> absent dlv \<or> dlv \<notin> delivery_id ` set t"

definition may_be_final :: "settings \<Rightarrow> bool \<Rightarrow> bool" where
  "may_be_final c final \<longleftrightarrow>
     (if task_queue_backend c = lit ''rabbitmq'' then True
      else if task_queue_backend c = lit ''redis'' then final = (rabbitmq_max_delivery_attempts c \<le> 1)
      else final)"

inductive row_step :: "'x services \<Rightarrow> settings \<Rightarrow> event list \<Rightarrow> event list \<Rightarrow> bool" for S c where
  stored: "committed S (insert_row t (new_event i now dlv rid src etype data)) \<Longrightarrow> unseen t dlv \<Longrightarrow>
    row_step S c t (insert_row t (new_event i now dlv rid src etype data))"
| processed: "find_event t i = Some event \<Longrightarrow> will_pass (payload event) \<Longrightarrow>
    row_step S c t (replace_row t (completed now (attempted event)))"
| failed: "find_event t i = Some event \<Longrightarrow> \<not> will_pass (payload event) \<Longrightarrow>
    attempt_failure (payload event) data e \<Longrightarrow> may_be_final c final \<Longrightarrow>
    row_step S c t (replace_row t (rejected final (exn_text S e) ((attempted event)\<lparr>payload := data\<rparr>)))"
| uncommitted: "find_event t i = Some event \<Longrightarrow> will_pass (payload event) \<Longrightarrow>
    db_commit S (replace_row t (completed now (attempted event))) x = (Inl e, x') \<Longrightarrow>
    db_commit S (replace_row t (rejected final message (attempted event))) x' = (Inr u, x'') \<Longrightarrow>
    row_step S c t (replace_row t (rejected final message (attempted event)))"
| redriven: "task_queue_backend c = lit ''rabbitmq'' \<Longrightarrow> row_step S c t (mark_rows ids t)"

section \<open>Steps of the service\<close>

text \<open>
  \<open>outside\<close>: the broker, the database server, the clock move on by themselves. \<open>restart\<close>: the
  process dies, anywhere between two steps, and comes up again with its module state initial;
  what it did to the services stands.
\<close>

definition restarted :: "'x world \<Rightarrow> 'x world" where
  "restarted w = w\<lparr>metrics := init_metrics, qmod := init_qmod, tasks := [],
     root_logger := init_logger\<rparr>"

inductive step :: "'x services \<Rightarrow> settings \<Rightarrow> 'x world \<Rightarrow> 'x world \<Rightarrow> bool" for S c where
  request: "step S c w (snd (serve S c req w))"
| background: "step S c w (snd (background_tasks S w))"
| worker: "step S c w (snd (worker_iteration S c w))"
| poll: "step S c w (snd (poll_round S c w))"
| start: "step S c w (snd (startup S c w))"
| stop: "step S c w (snd (shutdown S w))"
| outside: "step S c w (w\<lparr>ext := x\<rparr>)"
| restart: "step S c w (restarted w)"

definition reachable :: "'x services \<Rightarrow> settings \<Rightarrow> 'x world \<Rightarrow> bool" where
  "reachable S c w \<longleftrightarrow> (\<exists>x. (step S c)\<^sup>*\<^sup>* (init_world x) w)"

lemma reachable_init: "reachable S c (init_world x)"
  by (auto simp: reachable_def)

lemma reachable_step: "reachable S c w \<Longrightarrow> step S c w w' \<Longrightarrow> reachable S c w'"
  unfolding reachable_def by (meson rtranclp.rtrancl_into_rtrancl)

section \<open>Every step is made of these writes\<close>

text \<open>
  Background tasks are final attempts, and a service with a queue leaves none: this is known of
  every state the service reaches, and the writes of a step depend on it.
\<close>

definition tasks_fit :: "settings \<Rightarrow> 'x world \<Rightarrow> bool" where
  "tasks_fit c w \<longleftrightarrow> list_all snd (tasks w) \<and> (is_queue_enabled c \<longrightarrow> tasks w = [])"

definition table_evolves :: "'x services \<Rightarrow> settings \<Rightarrow> 'x world \<Rightarrow> 'x world \<Rightarrow> bool" where
  "table_evolves S c w w' \<longleftrightarrow>
     (tasks_fit c w \<longrightarrow> tasks_fit c w' \<and> (row_step S c)\<^sup>*\<^sup>* (table w) (table w'))"

interpretation evolution: io_preorder "table_evolves S c" for S c
  by unfold_locales (auto simp: table_evolves_def)

lemma evolves_keeps: "keeps table m \<Longrightarrow> keeps tasks m \<Longrightarrow> moves (table_evolves S c) m"
  by (simp add: moves_def table_evolves_def keeps_def tasks_fit_def)

lemma evolves_once: "row_step S c (table w) (table w') \<Longrightarrow> tasks w' = tasks w \<Longrightarrow> table_evolves S c w w'"
  by (auto simp: table_evolves_def tasks_fit_def)

lemma evolves_none: "table w' = table w \<Longrightarrow> tasks w' = tasks w \<Longrightarrow> table_evolves S c w w'"
  by (simp add: table_evolves_def tasks_fit_def)

lemma evolves_trans: "table_evolves S c u v \<Longrightarrow> table_evolves S c v w \<Longrightarrow> table_evolves S c u w"
  by (rule evolution.R_trans)

lemma tasks_lookups:
  "keeps tasks (query S f)" "keeps tasks (commit S t)" "keeps tasks (list_events S limit offset src)"
  "keeps tasks (get_events_summary S)" "keeps tasks (mark_events_pending S ids)" "keeps tasks (ping_db S)"
  "keeps tasks (init_db S)" "keeps tasks (dispose_db S)" "keeps tasks (setup_logging S c)"
  unfolding query_def commit_def list_events_def get_events_summary_def mark_events_pending_def
    ping_db_def init_db_def dispose_db_def setup_logging_def
  by (intro keeps_rules | rule keeps_modify; simp)+

lemma evolves_create_event:
  assumes "unseen (table w) dlv"
  shows "table_evolves S c w (snd (create_event S dlv rid src etype data w))"
proof -
  obtain r w' where run: "create_event S dlv rid src etype data w = (r, w')" by fastforce
  have t: "tasks w' = tasks w" by (rule keepsD_run [OF keeps_create_event(2) run])
  from run have "table_evolves S c w w'"
  proof (cases rule: create_event_cases)
    case (created event)
    then show ?thesis using assms
      by (intro evolves_once [OF _ t]) (metis row_step.stored committed_def)
  next
    case (refused e)
    then show ?thesis using t by (simp add: evolves_none)
  next
    case (unread e event)
    then show ?thesis using assms
      by (intro evolves_once [OF _ t]) (metis row_step.stored committed_def)
  qed
  then show ?thesis by (simp add: run)
qed

lemma evolves_process:
  assumes "may_be_final c final"
  shows "moves (table_evolves S c) (process_event_by_id S i final)"
  unfolding moves_def
proof
  fix w :: "'a world"
  obtain r w' where run: "process_event_by_id S i final w = (r, w')" by fastforce
  have t: "tasks w' = tasks w" by (rule keepsD_run [OF keeps_tasks_process run])
  from run have "table_evolves S c w w'"
  proof (cases rule: process_event_by_id_cases)
    case missing
    then show ?thesis using t by (simp add: evolves_none)
  next
    case (processed event now)
    then show ?thesis by (intro evolves_once [OF _ t]) (simp add: row_step.processed)
  next
    case (failed event data e)
    then show ?thesis using assms by (intro evolves_once [OF _ t]) (simp add: row_step.failed)
  next
    case (uncommitted event x e x' now u x'')
    then show ?thesis by (intro evolves_once [OF _ t]) (simp add: row_step.uncommitted)
  next
    case (unread e x x')
    then show ?thesis using t by (simp add: evolves_none)
  next
    case (error e event row x x')
    then show ?thesis using t by (simp add: evolves_none)
  qed
  then show "table_evolves S c w (snd (process_event_by_id S i final w))" by (simp add: run)
qed

lemma evolves_mark:
  assumes "task_queue_backend c = lit ''rabbitmq''"
  shows "moves (table_evolves S c) (mark_events_pending S ids)"
  unfolding moves_def
proof
  fix w :: "'a world"
  obtain r w' where run: "mark_events_pending S ids w = (r, w')" by fastforce
  have t: "tasks w' = tasks w" by (rule keepsD_run [OF tasks_lookups(5) run])
  from mark_events_pending_cases [OF run] have "table_evolves S c w w'"
  proof (elim disjE conjE exE)
    assume "table w' = mark_rows ids (table w)"
    then show ?thesis using assms by (intro evolves_once [OF _ t]) (simp add: row_step.redriven)
  next
    assume "table w' = table w"
    then show ?thesis using t by (simp add: evolves_none)
  qed
  then show "table_evolves S c w (snd (mark_events_pending S ids w))" by (simp add: run)
qed

lemma evolves_schedule [moves_rules]: "moves (table_evolves S c) (schedule_event S c i)"
proof (cases "is_queue_enabled c")
  case True
  have "keeps tasks (schedule_event S c i)"
    using True unfolding schedule_event_def or_503_def by simp (intro keeps_rules)
  then show ?thesis by (intro evolves_keeps keeps_rules)
next
  case False
  then show ?thesis
    by (simp add: moves_def schedule_event_def add_task_def table_evolves_def tasks_fit_def)
qed

lemma evolves_quiet [moves_rules]:
  "moves (table_evolves S c) (ask f)" "moves (table_evolves S c) (set_metrics g)"
  "moves (table_evolves S c) (open_session S)"
  "moves (table_evolves S c) (verify_webhook_signature S c' body ts sig)"
  "moves (table_evolves S c) (get_event_by_delivery_id S d)" "moves (table_evolves S c) (get_event_by_id S i)"
  "moves (table_evolves S c) (list_events S limit offset src)" "moves (table_evolves S c) (get_events_summary S)"
  "moves (table_evolves S c) (ping_db S)"
  "moves (table_evolves S c) (get_queue_snapshot S c')" "moves (table_evolves S c) (get_queue_snapshot_or_raise S c')"
  "moves (table_evolves S c) (get_queue_depth S c')" "moves (table_evolves S c) (ping_queue S c')"
  "moves (table_evolves S c) (redrive_dead_letter S c' n)" "moves (table_evolves S c) (dispose_queue S)"
  "moves (table_evolves S c) (call h)" "moves (table_evolves S c) (setup_logging S c')"
  "moves (table_evolves S c) (dequeue_event S c' t)"
  "moves (table_evolves S c) (complete_event S e)" "moves (table_evolves S c) (retry_or_dead_letter S c' e)"
  by (rule evolves_keeps; (intro keeps_rules tasks_lookups))+

text \<open>Where what follows depends on the result of what came before.\<close>

lemma evolves_bind_when:
  assumes "table_evolves S c w (snd (m w))"
    and "\<And>x w1. m w = (Inr x, w1) \<Longrightarrow> table_evolves S c w1 (snd (f x w1))"
  shows "table_evolves S c w (snd (io_bind m f w))"
proof -
  obtain r w1 where run: "m w = (r, w1)" by fastforce
  show ?thesis
  proof (cases r)
    case (Inl e)
    then show ?thesis using assms(1) run by (simp add: io_bind_def)
  next
    case (Inr x)
    then show ?thesis using evolves_trans assms run by (fastforce simp: io_bind_def)
  qed
qed

lemma evolves_intake_new:
  assumes "unseen (table w) dlv"
  shows "table_evolves S c w (snd (intake_new S c dlv rid data w))"
  unfolding intake_new_def
proof (rule evolves_bind_when)
  show "table_evolves S c w
      (snd (create_event S dlv rid (in_source data) (in_event_type data) (in_payload data) w))"
    using assms by (rule evolves_create_event)
qed (rule movesD, intro moves_rules)

lemma lookup_unseen:
  assumes "(if absent dlv then io_return None else get_event_by_delivery_id S (the dlv)) w = (Inr None, w')"
  shows "table w' = table w \<and> unseen (table w) dlv"
proof (cases "absent dlv")
  case True
  then show ?thesis using assms by (simp add: unseen_def)
next
  case False
  then obtain d where d: "dlv = Some d" by (auto simp: absent_def)
  have run: "get_event_by_delivery_id S d w = (Inr None, w')" using assms False d by simp
  have "rows_by_delivery (table w) d = []"
    using run by (auto simp: get_event_by_delivery_id_def io_bind_def query_run scalar_one_or_none_def
        split: prod.splits sum.splits list.splits)
  then show ?thesis
    using keepsD_run [OF keeps_lookups(2) run] d
    by (force simp: unseen_def rows_by_delivery_def filter_empty_conv)
qed

lemma evolves_receive [moves_rules]:
  "moves (table_evolves S c) (receive_webhook S c hdrs body rid data)"
  unfolding moves_def receive_webhook_alt Let_def
proof
  fix w :: "'a world"
  let ?dlv = "hdrs (webhook_id_header c)"
  let ?look = "if absent ?dlv then io_return None else get_event_by_delivery_id S (the ?dlv)"
  let ?answer = "\<lambda>found. case found of
      Some existing \<Rightarrow>
        io_then (set_metrics record_duplicate)
       (io_then (set_metrics (record_webhook_intake (in_source data) (lit ''duplicate'')))
                (io_return (intake_out ''duplicate'' existing)))
    | None \<Rightarrow> intake_new S c ?dlv rid data"
  let ?verify = "verify_webhook_signature S c body (hdrs (webhook_timestamp_header c))
    (hdrs (webhook_signature_header c))"
  have look: "moves (table_evolves S c) ?look" by (intro moves_rules)
  have "table_evolves S c w1 (snd (io_bind ?look ?answer w1))" for w1
  proof (rule evolves_bind_when)
    show "table_evolves S c w1 (snd (?look w1))" using look by (rule movesD)
  next
    fix found w2 assume run: "?look w1 = (Inr found, w2)"
    show "table_evolves S c w2 (snd (?answer found w2))"
    proof (cases found)
      case None
      then have "unseen (table w2) ?dlv" using run lookup_unseen by metis
      then show ?thesis using None by (simp add: evolves_intake_new)
    next
      case (Some existing)
      have "moves (table_evolves S c) (?answer (Some existing))"
        by (simp only: option.case) (intro moves_rules)
      then show ?thesis using Some by (simp add: movesD)
    qed
  qed
  then show "table_evolves S c w (snd (io_then ?verify (io_bind ?look ?answer) w))"
    by (rule evolves_bind_when [rotated]) (rule movesD [OF evolves_quiet(4)])
qed

lemma evolves_redrive_dlq [moves_rules]: "moves (table_evolves S c) (redrive_dlq S c limit)"
proof (cases "task_queue_backend c = lit ''rabbitmq''")
  case True
  show ?thesis unfolding redrive_dlq_def by (intro moves_rules evolves_mark [OF True])
next
  case False
  then show ?thesis
    by (simp add: moves_def redrive_dlq_def redrive_dead_letter_def io_bind_def evolution.R_refl)
qed

lemma evolves_handlers [moves_rules]:
  "moves (table_evolves S c) (get_events S limit offset src)"
  "moves (table_evolves S c) (get_events_summary_out S c)"
  "moves (table_evolves S c) (get_queue_stats S c)"
  "moves (table_evolves S c) (retry_event S c i)"
  "moves (table_evolves S c) (health S c)" "moves (table_evolves S c) (poll_round S c)"
  unfolding get_events_def get_events_summary_out_def get_queue_stats_def
    retry_event_def health_def health_of_queue_def dependency_state_def poll_round_def
  by (intro moves_rules)+

lemma evolves_endpoint [moves_rules]: "moves (table_evolves S c) (run_endpoint S c req rid)"
  unfolding run_endpoint_def guarded_def ready_def
  by (cases "req_endpoint req") (simp_all, (intro moves_rules)+)

lemma evolves_serve: "moves (table_evolves S c) (serve S c req)"
proof -
  have "moves (table_evolves S c) (exceptions_answered (run_endpoint S c req rid))" for rid
    unfolding exceptions_answered_def
    by (intro moves_rules) (auto split: exn.splits intro: moves_rules)
  then show ?thesis
    unfolding serve_def log_requests_def choose_request_id_def count_request_def
    by (intro moves_rules)
qed

lemma evolves_tasks:
  "may_be_final c True \<Longrightarrow> list_all snd ts \<Longrightarrow> moves (table_evolves S c) (run_tasks S ts)"
proof (induction ts)
  case Nil
  show ?case by (simp only: run_tasks.simps) (rule evolution.moves_basic)
next
  case (Cons a ts)
  obtain i where a: "a = (i, True)" using Cons.prems(2) by (cases a) simp
  have "moves (table_evolves S c) (run_tasks S ts)" using Cons by simp
  then show ?case
    unfolding a run_tasks.simps by (intro moves_rules evolves_process [OF Cons.prems(1)])
qed

lemma evolves_background: "table_evolves S c w (snd (background_tasks S w))"
proof (cases "tasks_fit c w \<and> tasks w \<noteq> []")
  case True
  then have final: "may_be_final c True" "list_all snd (tasks w)"
    by (auto simp: tasks_fit_def may_be_final_def is_queue_enabled_def)
  let ?w = "w\<lparr>tasks := []\<rparr>"
  have "table_evolves S c w ?w" using True by (simp add: table_evolves_def tasks_fit_def)
  moreover have "table_evolves S c ?w (snd (run_tasks S (tasks w) ?w))"
    using evolves_tasks [OF final] by (rule movesD)
  ultimately show ?thesis
    using evolves_trans by (fastforce simp: background_tasks_def io_bind_def)
next
  case False
  then show ?thesis
    by (auto simp: table_evolves_def background_tasks_def io_bind_def tasks_fit_def)
qed

lemma dequeued_final:
  assumes "dequeue_event S c t w = (Inr (Some env), w')"
  shows "may_be_final c (rabbitmq_max_delivery_attempts c \<le> env_attempt env)"
proof (cases "task_queue_backend c = lit ''redis''")
  case True
  have "env_attempt env = 1"
    using assms True by (auto simp: dequeue_event_def io_bind_def
        split: prod.splits sum.splits option.splits if_splits)
  then show ?thesis using True by (simp add: may_be_final_def)
next
  case False
  then show ?thesis using assms by (auto simp: dequeue_event_def may_be_final_def split: if_splits)
qed

lemma evolves_worker: "moves (table_evolves S c) (worker_iteration S c)"
  unfolding moves_def worker_iteration_def
proof
  fix w :: "'a world"
  let ?handle = "\<lambda>r. case r of
      None \<Rightarrow> io_return ()
    | Some envelope \<Rightarrow>
        let final_attempt = rabbitmq_max_delivery_attempts c \<le> env_attempt envelope
        in io_bind (process_event_by_id S (env_event_id envelope) final_attempt) (\<lambda>processed.
             if processed then complete_event S envelope
             else io_then (retry_or_dead_letter S c envelope) (io_return ()))"
  show "table_evolves S c w
      (snd (io_bind (dequeue_event S c (worker_poll_timeout_seconds c)) ?handle w))"
  proof (rule evolves_bind_when)
    show "table_evolves S c w (snd (dequeue_event S c (worker_poll_timeout_seconds c) w))"
      by (rule movesD [OF evolves_quiet(18)])
  next
    fix r w1 assume run: "dequeue_event S c (worker_poll_timeout_seconds c) w = (Inr r, w1)"
    have "moves (table_evolves S c) (?handle r)"
    proof (cases r)
      case None
      then show ?thesis by (simp add: evolution.moves_basic)
    next
      case (Some env)
      have "may_be_final c (rabbitmq_max_delivery_attempts c \<le> env_attempt env)"
        using run Some dequeued_final by blast
      then show ?thesis
        unfolding Some option.case Let_def by (intro moves_rules evolves_process)
    qed
    then show "table_evolves S c w1 (snd (?handle r w1))" by (rule movesD)
  qed
qed

lemma evolves_start_stop:
  "moves (table_evolves S c) (startup S c)" "moves (table_evolves S c) (shutdown S)"
  unfolding startup_def shutdown_def init_db_def dispose_db_def by (intro moves_rules)+

lemma step_evolves: "step S c w w' \<Longrightarrow> table_evolves S c w w'"
proof (induction rule: step.induct)
  case (request w req)
  show ?case by (rule movesD [OF evolves_serve])
next
  case (background w)
  show ?case by (rule evolves_background)
next
  case (worker w)
  show ?case by (rule movesD [OF evolves_worker])
next
  case (poll w)
  show ?case by (rule movesD [OF evolves_handlers(6)])
next
  case (start w)
  show ?case by (rule movesD [OF evolves_start_stop(1)])
next
  case (stop w)
  show ?case by (rule movesD [OF evolves_start_stop(2)])
qed (simp_all add: restarted_def table_evolves_def tasks_fit_def)

lemma steps_evolve: "(step S c)\<^sup>*\<^sup>* w w' \<Longrightarrow> table_evolves S c w w'"
  by (induction rule: rtranclp_induct) (auto intro: evolution.R_refl evolves_trans step_evolves)

lemma reachable_tasks_fit: "reachable S c w \<Longrightarrow> tasks_fit c w"
  using steps_evolve by (fastforce simp: reachable_def table_evolves_def tasks_fit_def init_world_def)

lemma reachable_rows: "reachable S c w \<Longrightarrow> (row_step S c)\<^sup>*\<^sup>* [] (table w)"
  using steps_evolve by (fastforce simp: reachable_def table_evolves_def tasks_fit_def init_world_def)

lemma steps_rows:
  "reachable S c w \<Longrightarrow> (step S c)\<^sup>*\<^sup>* w w' \<Longrightarrow> (row_step S c)\<^sup>*\<^sup>* (table w) (table w')"
  using steps_evolve reachable_tasks_fit by (fastforce simp: table_evolves_def)

text \<open>
  An invariant of the table: what holds of the empty table and is kept by every row step, for
  services the invariant may restrict, holds in every reachable state.
\<close>

locale table_invariant =
  fixes law :: "'x services \<Rightarrow> bool" and I :: "event list \<Rightarrow> bool"
  assumes initially: "I []"
    and kept: "law S \<Longrightarrow> row_step S c t t' \<Longrightarrow> I t \<Longrightarrow> I t'"
begin

lemma kept_steps: "law S \<Longrightarrow> (row_step S c)\<^sup>*\<^sup>* t t' \<Longrightarrow> I t \<Longrightarrow> I t'"
  by (rotate_tac, induction rule: rtranclp_induct) (auto intro: kept)

lemma holds_reachable: "law S \<Longrightarrow> reachable S c w \<Longrightarrow> I (table w)"
  using kept_steps [OF _ reachable_rows] initially by blast

end

text \<open>
  SQLAlchemy's session after a failed commit: until it is rolled back or closed, every further
  commit in it is refused.
\<close>

definition failed_session_refuses :: "'x services \<Rightarrow> bool" where
  "failed_session_refuses S \<longleftrightarrow>
     (\<forall>t x e x' t'. db_commit S t x = (Inl e, x') \<longrightarrow> fst (db_commit S t' x') \<noteq> Inr ())"

section \<open>An example run\<close>

text \<open>
  A database that enforces its constraints and refuses everything in a failed session; an order
  is received inline and processed.
\<close>

definition strict_db :: "calm_state services" where
  "strict_db = calm\<lparr>db_open := (\<lambda>x. x\<lparr>ticks := ticks x + 1\<rparr>),
     db_commit := (\<lambda>t x. if 0 < ticks x \<and> constraints t then (Inr (), x)
       else (Inl (External []), x\<lparr>ticks := 0\<rparr>))\<rparr>"

definition order_request :: request where
  "order_request = \<lparr>req_method = lit ''POST'', req_path = lit ''/webhook'', req_header = (\<lambda>_. None),
     req_body = [], req_endpoint = PostWebhook (JObj [(lit ''source'', JStr (lit ''shop'')),
       (lit ''event_type'', JStr (lit ''order'')), (lit ''payload'', JObj [])])\<rparr>"

definition ordered :: event where
  "ordered = new_event 3 4 None (Some (uuid_str 0)) (lit ''shop'') (lit ''order'') []"

lemma order_valid: "validate_webhook_in (JObj [(lit ''source'', JStr (lit ''shop'')),
    (lit ''event_type'', JStr (lit ''order'')), (lit ''payload'', JObj [])]) =
  Inr \<lparr>in_source = lit ''shop'', in_event_type = lit ''order'', in_payload = []\<rparr>"
  by (simp add: validate_webhook_in_def name_field_def dict_get_def)

lemma order_served:
  "\<exists>m. snd (serve strict_db default_settings order_request calm_start) =
    calm_start\<lparr>table := [ordered], tasks := [(3, True)], metrics := m,
      ext := \<lparr>ticks = 6, mailbox = [], redis_list = []\<rparr>\<rparr>"
  by (simp add: serve_def log_requests_def choose_request_id_def order_request_def ask_def io_bind_def
      io_catch_def strict_db_def calm_def calm_start_def init_world_def calm_tick_def exceptions_answered_def
      run_endpoint_def guarded_def require_api_key_def default_settings_def open_session_def
      order_valid receive_webhook_def Let_def verify_webhook_signature_def absent_def create_event_def
      commit_def call_def constraints_def insert_row_def new_event_def schedule_event_def
      is_queue_enabled_def add_task_def set_metrics_def count_request_def ordered_def)

lemma order_processed:
  "\<exists>m. snd (background_tasks strict_db (calm_start\<lparr>table := [ordered], tasks := [(3, True)], metrics := m0,
      ext := \<lparr>ticks = 6, mailbox = [], redis_list = []\<rparr>\<rparr>)) =
    calm_start\<lparr>table := [completed 8 (attempted ordered)], metrics := m,
      ext := \<lparr>ticks = 10, mailbox = [], redis_list = []\<rparr>\<rparr>"
  by (simp add: background_tasks_def process_event_by_id_def open_session_def io_bind_def query_def call_def
      strict_db_def calm_def calm_start_def init_world_def ordered_def new_event_def process_event_def
      ask_def calm_tick_def attempt_work_run remaining_failures_def dict_get_def force_failure_def
      commit_event_def commit_def replace_row_def completed_def attempted_def constraints_def
      io_catch_def record_outcome_def set_metrics_def Let_def)
definition served_world :: "calm_state world" where
  "served_world = snd (background_tasks strict_db (snd (serve strict_db default_settings order_request calm_start)))"

lemma served_table: "table served_world = [completed 8 (attempted ordered)]"
proof -
  obtain m where "snd (serve strict_db default_settings order_request calm_start) =
    calm_start\<lparr>table := [ordered], tasks := [(3, True)], metrics := m,
      ext := \<lparr>ticks = 6, mailbox = [], redis_list = []\<rparr>\<rparr>"
    using order_served by blast
  then show ?thesis using order_processed [of m] by (auto simp: served_world_def)
qed

lemma served_reachable: "reachable strict_db default_settings served_world"
proof -
  have "reachable strict_db default_settings calm_start"
    unfolding calm_start_def by (rule reachable_init)
  then show ?thesis
    unfolding served_world_def by (intro reachable_step [OF _ step.background] reachable_step [OF _ step.request])
qed

lemma served_again:
  "(step strict_db default_settings)\<^sup>*\<^sup>* served_world
    (snd (serve strict_db default_settings order_request served_world))"
  by (intro r_into_rtranclp step.request)

lemma enforces_strict: "enforces strict_db"
  by (simp add: enforces_def strict_db_def)

lemma strict_refuses: "failed_session_refuses strict_db"
  by (auto simp: failed_session_refuses_def strict_db_def split: if_splits)

section \<open>Invariants of every reachable state\<close>

lemma row_wf_completed: "row_wf r \<Longrightarrow> row_wf (completed now (attempted r))"
  by (auto simp: row_wf_def completed_def attempted_def)

lemma row_wf_rejected: "row_wf r \<Longrightarrow> row_wf (rejected final m ((attempted r)\<lparr>payload := data\<rparr>))"
  by (auto simp: row_wf_def rejected_def attempted_def)

lemma row_wf_rejected': "row_wf r \<Longrightarrow> row_wf (rejected final m (attempted r))"
  by (auto simp: row_wf_def rejected_def attempted_def)

lemma row_wf_mark: "row_wf r \<Longrightarrow> row_wf (mark_row ids r)"
  by (auto simp: row_wf_def mark_row_def split: processing_status.splits)

lemma all_replace: "(\<forall>x \<in> set t. P x) \<Longrightarrow> P r \<Longrightarrow> \<forall>x \<in> set (replace_row t r). P x"
  by (auto simp: replace_row_def)

lemma found_wf: "\<forall>x \<in> set t. P x \<Longrightarrow> find_event t i = Some r \<Longrightarrow> P r"
  using find_event_Some_ev_id by blast

interpretation rows_wf: table_invariant "\<lambda>_ :: 'x services. True" "\<lambda>t. \<forall>r \<in> set t. row_wf r"
proof unfold_locales
  fix S :: "'x services" and c t t'
  assume step: "row_step S c t t'" and wf: "\<forall>r \<in> set t. row_wf r"
  have found: "row_wf r" if "find_event t i = Some r" for i r
    using wf that by (rule found_wf)
  from step show "\<forall>r \<in> set t'. row_wf r"
  proof (cases rule: row_step.cases)
    case (stored i now dlv rid src etype data)
    then show ?thesis using wf
      by (auto simp: insert_row_def row_wf_def new_event_def)
  next
    case (redriven ids)
    then show ?thesis using wf by (auto simp: mark_rows_def row_wf_mark)
  next
    case (processed i event now)
    then show ?thesis using all_replace [OF wf row_wf_completed [OF found]] by simp
  next
    case (failed i event data e final)
    then show ?thesis using all_replace [OF wf row_wf_rejected [OF found]] by simp
  next
    case (uncommitted i event now x e x' final message u x'')
    then show ?thesis using all_replace [OF wf row_wf_rejected' [OF found]] by simp
  qed
qed simp

interpretation constrained: table_invariant enforces constraints
proof unfold_locales
  show "constraints []" by (simp add: constraints_def)
next
  fix S :: "'x services" and c t t'
  assume S: "enforces S" and step: "row_step S c t t'" and c: "constraints t"
  from step show "constraints t'"
  proof (cases rule: row_step.cases)
    case (stored i now dlv rid src etype data)
    then show ?thesis using committed_constraints [OF S] by simp
  next
    case (redriven ids)
    then show ?thesis using c by (simp add: constraints_mark)
  next
    case (failed i event data e final)
    then show ?thesis
      using c by (auto intro!: constraints_update [of t i event] simp: rejected_def attempted_def)
  qed (use c in \<open>auto intro: constraints_update\<close>)
qed

definition passing :: "event list \<Rightarrow> bool" where
  "passing t \<longleftrightarrow> (\<forall>r \<in> set t. processing_status r = PROCESSED \<longrightarrow> will_pass (payload r))"

interpretation processed_pass: table_invariant "\<lambda>_ :: 'x services. True" passing
proof unfold_locales
  fix S :: "'x services" and c t t'
  assume step: "row_step S c t t'" and p: "passing t"
  have replace: "passing (replace_row t r)" if "processing_status r = PROCESSED \<longrightarrow> will_pass (payload r)" for r
    using p that unfolding passing_def by (rule all_replace)
  from step show "passing t'"
  proof (cases rule: row_step.cases)
    case (stored i now dlv rid src etype data)
    then show ?thesis using p by (auto simp: passing_def insert_row_def new_event_def)
  next
    case (redriven ids)
    then show ?thesis using p by (auto simp: passing_def mark_rows_def mark_row_def)
  next
    case (processed i event now)
    then show ?thesis using replace by (simp add: completed_def attempted_def)
  next
    case (failed i event data e final)
    then show ?thesis using replace by (simp add: rejected_def)
  next
    case (uncommitted i event now x e x' final message u x'')
    then show ?thesis using replace by (simp add: rejected_def)
  qed
qed (simp add: passing_def)

text \<open>
  C18: the rows are well-formed in every reachable state, whatever the database, the broker and
  the requests do and wherever the process restarts: a PROCESSED event has its time and no error,
  a FAILED one an error and no time, a PENDING one no time, no attempt count is negative, and
  every PROCESSED event is one whose payload lets an attempt through.
\<close>

theorem reachable_rows_are_well_formed:
  assumes "reachable S c w"
  shows "\<forall>event \<in> set (table w). row_wf event \<and>
    (processing_status event = PROCESSED \<longrightarrow> will_pass (payload event))"
  using rows_wf.holds_reachable [OF TrueI assms] processed_pass.holds_reachable [OF TrueI assms]
  by (simp add: passing_def)

theorem reachable_rows_are_well_formed_witness:
  "table served_world = [completed 8 (attempted ordered)] \<and>
    processing_status (completed 8 (attempted ordered)) = PROCESSED \<and>
    row_wf (completed 8 (attempted ordered)) \<and> will_pass (payload (completed 8 (attempted ordered)))"
proof -
  have "processing_status (completed 8 (attempted ordered)) = PROCESSED" by (simp add: completed_def)
  then show ?thesis using reachable_rows_are_well_formed [OF served_reachable] by (simp add: served_table)
qed

text \<open>
  What the lookup of \<open>receive_webhook\<close> is worth by itself: a database that enforces the primary
  key only, as a table created before the delivery id was declared unique (\<open>create_all\<close> alters
  no existing table).
\<close>

definition enforces_key :: "'x services \<Rightarrow> bool" where
  "enforces_key S \<longleftrightarrow> (\<forall>t x. fst (db_commit S t x) = Inr () \<longrightarrow> distinct (map ev_id t))"

definition given_ids :: "event list \<Rightarrow> pystr list" where
  "given_ids t = filter (\<lambda>d. d \<noteq> []) (delivery_ids t)"

lemma given_ids_mem: "d \<in> set (given_ids t) \<longleftrightarrow> d \<noteq> [] \<and> Some d \<in> delivery_id ` set t"
  by (force simp: given_ids_def delivery_ids_mem image_def)

lemma given_ids_update:
  assumes "distinct (map ev_id t)" and "find_event t i = Some event"
    and "ev_id r = ev_id event" and "delivery_id r = delivery_id event"
  shows "map ev_id (replace_row t r) = map ev_id t \<and> given_ids (replace_row t r) = given_ids t"
proof -
  have "delivery_id x = delivery_id r" if "x \<in> set t" "ev_id x = ev_id r" for x
    using find_event_mem [OF assms(1) that(1)] assms(2-4) that(2) rows.find_ev_id [OF assms(2)] by simp
  then have "map delivery_id (replace_row t r) = map delivery_id t"
    by (auto simp: replace_row_def)
  moreover have "map ev_id (replace_row t r) = map ev_id t" by (auto simp: replace_row_def)
  ultimately show ?thesis
    by (simp add: given_ids_def delivery_ids_cong [of "replace_row t r" t])
qed

interpretation looked_up: table_invariant enforces_key
  "\<lambda>t. distinct (map ev_id t) \<and> distinct (given_ids t)"
proof unfold_locales
  fix S :: "'x services" and c t t'
  assume S: "enforces_key S" and step: "row_step S c t t'"
    and c: "distinct (map ev_id t) \<and> distinct (given_ids t)"
  have upd: "distinct (map ev_id t') \<and> distinct (given_ids t')" if "t' = replace_row t r" "find_event t i = Some event"
    "ev_id r = ev_id event" "delivery_id r = delivery_id event" for r i event
    using given_ids_update [OF _ that(2-4)] c that(1) by simp
  from step show "distinct (map ev_id t') \<and> distinct (given_ids t')"
  proof (cases rule: row_step.cases)
    case (stored i now dlv rid src etype data)
    have "distinct (map ev_id t')"
      using S stored(2) unfolding enforces_key_def committed_def stored(1) by blast
    moreover have "given_ids t' = given_ids t @ (case dlv of None \<Rightarrow> [] | Some d \<Rightarrow> if d = [] then [] else [d])"
      using stored(1) by (auto simp: given_ids_def insert_row_def new_event_def
          split: option.splits)
    moreover have "d \<notin> set (given_ids t)" if "dlv = Some d" "d \<noteq> []" for d
      using stored(3) that by (simp add: unseen_def absent_def given_ids_mem)
    ultimately show ?thesis using c by (auto split: option.splits)
  next
    case (redriven ids)
    have "map ev_id t' = map ev_id t" "map delivery_id t' = map delivery_id t"
      unfolding redriven(1) by (auto simp: mark_rows_def)
    then show ?thesis using c by (simp add: given_ids_def delivery_ids_cong [of t' t])
  next
    case (processed i event now)
    show ?thesis by (rule upd [OF processed(1,2)]) (simp_all add: completed_def attempted_def)
  next
    case (failed i event data e final)
    show ?thesis by (rule upd [OF failed(1,2)]) (simp_all add: rejected_def attempted_def)
  next
    case (uncommitted i event now x e x' final message u x'')
    show ?thesis by (rule upd [OF uncommitted(1,2)]) (simp_all add: rejected_def attempted_def)
  qed
qed (simp add: given_ids_def)

text \<open>
  C16: the lookup before the insert keeps delivery ids unique as long as requests do not overlap.
  Even with a database that enforces only the primary key, in no reachable state do two events have
  the same non-empty delivery id, so that the lookup by it finds one row or none and never fails on
  several. (With overlapping requests the unique constraint is needed: Races. Empty delivery ids
  are not looked up and may repeat.)
\<close>

theorem lookup_keeps_delivery_ids_unique:
  assumes "enforces_key S" and "reachable S c w" and "d \<noteq> []"
  shows "length (rows_by_delivery (table w) d) \<le> 1 \<and>
    (\<forall>a \<in> set (table w). \<forall>b \<in> set (table w).
       delivery_id a = Some d \<and> delivery_id b = Some d \<longrightarrow> a = b)"
proof -
  have one: "distinct (given_ids t) \<Longrightarrow> length (rows_by_delivery t d) \<le> 1" for t
  proof (induction t)
    case (Cons r t)
    show ?case
    proof (cases "delivery_id r = Some d")
      case True
      then have "d \<notin> set (given_ids t)"
        using Cons.prems assms(3) by (simp add: given_ids_def)
      then have "rows_by_delivery t d = []"
        using assms(3) by (force simp: given_ids_mem rows_by_delivery_def filter_empty_conv)
      then show ?thesis by (simp add: rows_by_delivery_def)
    next
      case False
      have "distinct (given_ids t)"
        using Cons.prems by (auto simp: given_ids_def split: option.splits if_splits)
      then show ?thesis using Cons.IH False by (simp add: rows_by_delivery_def)
    qed
  qed (simp add: rows_by_delivery_def)
  have len: "length (rows_by_delivery (table w) d) \<le> 1"
    using looked_up.holds_reachable [OF assms(1,2)] one by blast
  moreover have "a = b" if "a \<in> set (rows_by_delivery (table w) d)" "b \<in> set (rows_by_delivery (table w) d)" for a b
    using that len by (cases "rows_by_delivery (table w) d") auto
  ultimately show ?thesis by (auto simp: rows_by_delivery_def)
qed

text \<open>A database with the primary key only, and the same delivery twice, one request after the other.\<close>

definition loose_db :: "calm_state services" where
  "loose_db = calm\<lparr>db_commit := (\<lambda>t x. (if distinct (map ev_id t) then Inr () else Inl (External []), x))\<rparr>"

definition delivery_request :: request where
  "delivery_request = order_request\<lparr>req_header := delivery_header default_settings [100]\<rparr>"

definition delivered :: event where
  "delivered = new_event 2 3 (Some [100]) (Some (uuid_str 0)) (lit ''shop'') (lit ''order'') []"

lemma delivered_once:
  "\<exists>m. snd (serve loose_db default_settings delivery_request calm_start) =
    calm_start\<lparr>table := [delivered], tasks := [(2, True)], metrics := m,
      ext := \<lparr>ticks = 5, mailbox = [], redis_list = []\<rparr>\<rparr>"
  by (simp add: serve_def log_requests_def choose_request_id_def delivery_request_def order_request_def ask_def io_bind_def
      io_catch_def loose_db_def calm_def calm_start_def init_world_def calm_tick_def exceptions_answered_def
      run_endpoint_def guarded_def require_api_key_def default_settings_def open_session_def
      order_valid receive_webhook_def Let_def verify_webhook_signature_def absent_def create_event_def
      commit_def call_def insert_row_def new_event_def schedule_event_def
      is_queue_enabled_def add_task_def set_metrics_def count_request_def delivered_def delivery_header_def
      get_event_by_delivery_id_def query_def rows_by_delivery_def scalar_one_or_none_def)

lemma delivered_again:
  "table (snd (serve loose_db default_settings delivery_request (calm_start\<lparr>table := [delivered],
      tasks := [(2, True)], metrics := m, ext := \<lparr>ticks = 5, mailbox = [], redis_list = []\<rparr>\<rparr>))) = [delivered]"
  by (simp add: serve_def log_requests_def choose_request_id_def delivery_request_def order_request_def ask_def io_bind_def
      io_catch_def loose_db_def calm_def calm_start_def init_world_def calm_tick_def exceptions_answered_def
      run_endpoint_def guarded_def require_api_key_def default_settings_def open_session_def
      order_valid receive_webhook_def Let_def verify_webhook_signature_def absent_def
      call_def set_metrics_def count_request_def delivered_def delivery_header_def new_event_def
      get_event_by_delivery_id_def query_def rows_by_delivery_def scalar_one_or_none_def)

definition delivered_twice :: "calm_state world" where
  "delivered_twice = snd (serve loose_db default_settings delivery_request
     (snd (serve loose_db default_settings delivery_request calm_start)))"

theorem lookup_keeps_delivery_ids_unique_witness:
  "enforces_key loose_db \<and> \<not> enforces loose_db \<and> table delivered_twice = [delivered] \<and>
    delivery_id delivered = Some [100] \<and> length (rows_by_delivery (table delivered_twice) [100]) \<le> 1"
proof (intro conjI)
  show key: "enforces_key loose_db" by (simp add: enforces_key_def loose_db_def)
  show "table delivered_twice = [delivered]"
    using delivered_once delivered_again by (auto simp: delivered_twice_def)
  show "\<not> enforces loose_db"
  proof
    assume "enforces loose_db"
    then have "constraints [delivered, delivered\<lparr>ev_id := 0\<rparr>]"
      by (simp add: enforces_def loose_db_def calm_def delivered_def new_event_def)
    then show False by (simp add: constraints_def delivered_def new_event_def)
  qed
  show "delivery_id delivered = Some [100]" by (simp add: delivered_def new_event_def)
  have "reachable loose_db default_settings calm_start"
    unfolding calm_start_def by (rule reachable_init)
  then have "reachable loose_db default_settings delivered_twice"
    unfolding delivered_twice_def
    by (intro reachable_step [OF _ step.request])
  then show "length (rows_by_delivery (table delivered_twice) [100]) \<le> 1"
    using lookup_keeps_delivery_ids_unique [OF key] by blast
qed

section \<open>The lifecycle of an event, as a specification\<close>

text \<open>
  What may happen to the events, said in terms of the rows' fields alone. An attempt at a payload is
  decided by its countdown (\<open>int(... or 0)\<close> of \<open>fail_attempts_remaining\<close>) and its force flag.
\<close>

definition countdown :: "dict \<Rightarrow> exn + int" where
  "countdown data =
     (case dict_get data (lit ''fail_attempts_remaining'') of
        None \<Rightarrow> Inr 0
      | Some v \<Rightarrow> if truthy v then json_int v else Inr 0)"

definition forced :: "dict \<Rightarrow> bool" where
  "forced data \<longleftrightarrow> dict_get data (lit ''force_failure'') = Some (JBool True)"

text \<open>
  What a failing attempt makes of the payload and writes as the error. With a countdown that
  cannot be read as a number the text of the error is the interpreter's.
\<close>

inductive attempt_fails :: "dict \<Rightarrow> dict \<Rightarrow> pystr \<Rightarrow> bool" where
  transient: "countdown data = Inr n \<Longrightarrow> 0 < n \<Longrightarrow>
    attempt_fails data (dict_set data (lit ''fail_attempts_remaining'') (JInt (n - 1)))
      (lit ''Synthetic transient processing failure requested by payload'')"
| on_demand: "countdown data = Inr n \<Longrightarrow> n \<le> 0 \<Longrightarrow> forced data \<Longrightarrow>
    attempt_fails data data (lit ''Synthetic processing failure requested by payload'')"
| unreadable: "countdown data = Inl e \<Longrightarrow> attempt_fails data data message"

text \<open>
  The state after a failing attempt number \<open>n\<close>: PENDING while a queue is configured that will
  deliver it again, FAILED otherwise.
\<close>

definition after_failure :: "settings \<Rightarrow> int \<Rightarrow> processing_status" where
  "after_failure c n =
     (if (task_queue_backend c = lit ''redis'' \<or> task_queue_backend c = lit ''rabbitmq'') \<and>
         n < rabbitmq_max_delivery_attempts c
      then PENDING else FAILED)"

text \<open>
  The four things that may happen: an event with an id and a delivery id of its own is received; an
  attempt at one event goes through; an attempt at one event fails (only RabbitMQ's messages carry
  an attempt number other than 1); one event that is not PROCESSED is redriven, from RabbitMQ's
  dead letters. Everything not mentioned in an update stays.
\<close>

inductive lifecycle :: "settings \<Rightarrow> event list \<Rightarrow> event list \<Rightarrow> bool" for c where
  receive: "processing_status r = PENDING \<Longrightarrow> processing_attempts r = 0 \<Longrightarrow>
    processed_at r = None \<Longrightarrow> error_message r = None \<Longrightarrow> ev_id r \<notin> ev_id ` set t \<Longrightarrow>
    delivery_id r = None \<or> delivery_id r \<notin> delivery_id ` set t \<Longrightarrow>
    lifecycle c t (t @ [r])"
| process: "k < length t \<Longrightarrow> countdown (payload (t ! k)) = Inr n \<Longrightarrow> n \<le> 0 \<Longrightarrow>
    \<not> forced (payload (t ! k)) \<Longrightarrow>
    lifecycle c t (t[k := (t ! k)\<lparr>processing_status := PROCESSED,
      processing_attempts := processing_attempts (t ! k) + 1,
      processed_at := Some now, error_message := None\<rparr>])"
| fail: "k < length t \<Longrightarrow> attempt_fails (payload (t ! k)) data message \<Longrightarrow>
    task_queue_backend c = lit ''rabbitmq'' \<or> n = 1 \<Longrightarrow>
    lifecycle c t (t[k := (t ! k)\<lparr>payload := data, processing_status := after_failure c n,
      processing_attempts := processing_attempts (t ! k) + 1,
      processed_at := None, error_message := Some message\<rparr>])"
| redrive: "k < length t \<Longrightarrow> processing_status (t ! k) \<noteq> PROCESSED \<Longrightarrow>
    task_queue_backend c = lit ''rabbitmq'' \<Longrightarrow>
    lifecycle c t (t[k := (t ! k)\<lparr>processing_status := PENDING, processed_at := None,
      error_message := None\<rparr>])"

text \<open>The code's reading of a payload is the specification's.\<close>

lemma remaining_failures_countdown: "remaining_failures data = countdown data"
  by (simp add: remaining_failures_def countdown_def Let_def split: option.splits)

lemma will_pass_countdown: "will_pass data \<longleftrightarrow> (\<exists>n \<le> 0. countdown data = Inr n) \<and> \<not> forced data"
  by (simp add: will_pass_def remaining_failures_countdown force_failure_def forced_def)

lemma attempt_failure_fails:
  assumes "attempt_failure data data' e"
  shows "attempt_fails data data' (exn_text S e)"
  using assms
  by (auto simp: attempt_failure_def remaining_failures_countdown force_failure_def forced_def
      exn_text_def split: sum.splits if_splits
      intro: attempt_fails.intros attempt_fails.on_demand [unfolded forced_def])

lemma may_be_final_attempt:
  assumes "may_be_final c final"
  obtains n where "task_queue_backend c = lit ''rabbitmq'' \<or> n = 1"
    "(if final then FAILED else PENDING) = after_failure c n"
proof -
  show thesis
  proof (cases "task_queue_backend c = lit ''rabbitmq''")
    case True
    show thesis
    proof (cases final)
      case True
      then show thesis using \<open>task_queue_backend c = _\<close>
        by (intro that [of "rabbitmq_max_delivery_attempts c"]) (simp_all add: after_failure_def)
    next
      case False
      then show thesis using \<open>task_queue_backend c = _\<close>
        by (intro that [of "rabbitmq_max_delivery_attempts c - 1"]) (simp_all add: after_failure_def)
    qed
  next
    case False
    then show thesis using assms
      by (intro that [of 1]) (auto simp: after_failure_def may_be_final_def split: if_splits)
  qed
qed

lemma replace_at:
  assumes "constraints t" and "find_event t i = Some event"
  obtains k where "k < length t" "t ! k = event" "\<And>r. ev_id r = i \<Longrightarrow> replace_row t r = t[k := r]"
proof -
  have id: "ev_id event = i" "event \<in> set t" using find_event_Some_ev_id [OF assms(2)] by simp_all
  then obtain k where k: "k < length t" "t ! k = event" by (auto simp: in_set_conv_nth)
  have "replace_row t r = t[k := r]" if r: "ev_id r = i" for r
  proof (rule nth_equalityI)
    fix j assume j: "j < length (replace_row t r)"
    have "ev_id (t ! j) = i \<longleftrightarrow> j = k"
      using assms(1) k j id nth_eq_iff_index_eq [of "map ev_id t" j k]
      by (auto simp: constraints_def replace_row_def)
    then show "replace_row t r ! j = t[k := r] ! j"
      using j k r by (auto simp: replace_row_def nth_list_update)
  qed (simp add: replace_row_def)
  with k show thesis by (rule that)
qed

text \<open>Marking rows is redriving them one after the other.\<close>

lemma lifecycle_mark:
  assumes "task_queue_backend c = lit ''rabbitmq''"
  shows "(lifecycle c)\<^sup>*\<^sup>* t (mark_rows ids t)"
proof -
  let ?m = "mark_rows ids t"
  have len: "length ?m = length t" by (simp add: mark_rows_def)
  have "n \<le> length t \<Longrightarrow> (lifecycle c)\<^sup>*\<^sup>* t (take n ?m @ drop n t)" for n
  proof (induction n)
    case (Suc n)
    let ?u = "take n ?m @ drop n t"
    have n: "n < length t" and nth: "?u ! n = t ! n" "n < length ?u" "?m ! n = mark_row ids (t ! n)"
      using Suc.prems len by (simp_all add: nth_append mark_rows_def)
    have next_eq: "take (Suc n) ?m @ drop (Suc n) t = ?u[n := mark_row ids (t ! n)]"
      using n len nth(3) by (simp add: take_Suc_conv_app_nth list_update_append
          Cons_nth_drop_Suc [symmetric])
    have "(lifecycle c)\<^sup>*\<^sup>* ?u (?u[n := mark_row ids (t ! n)])"
    proof (cases "ev_id (t ! n) \<in> set ids \<and> processing_status (t ! n) \<noteq> PROCESSED")
      case True
      then have "mark_row ids (t ! n) = (?u ! n)\<lparr>processing_status := PENDING, processed_at := None,
          error_message := None\<rparr>"
        by (simp add: mark_row_def nth)
      then show ?thesis
        using lifecycle.redrive [of n ?u c] True nth(1,2) assms by (simp add: r_into_rtranclp)
    next
      case False
      then have "?u[n := mark_row ids (t ! n)] = ?u"
        using nth(1) by (metis list_update_id mark_row_def)
      then show ?thesis by simp
    qed
    moreover have "(lifecycle c)\<^sup>*\<^sup>* t ?u" using Suc by simp
    ultimately show ?case unfolding next_eq by (rule rtranclp_trans [rotated])
  qed simp
  from this [of "length t"] show ?thesis using len by simp
qed

lemma completed_row:
  "completed now (attempted r) = r\<lparr>processing_status := PROCESSED,
     processing_attempts := processing_attempts r + 1, processed_at := Some now, error_message := None\<rparr>"
  by (cases r) (simp add: completed_def attempted_def)

lemma rejected_row:
  "rejected final m ((attempted r)\<lparr>payload := data\<rparr>) = r\<lparr>payload := data,
     processing_status := (if final then FAILED else PENDING),
     processing_attempts := processing_attempts r + 1, processed_at := None, error_message := Some m\<rparr>"
  by (cases r) (simp add: rejected_def attempted_def)

lemma row_step_lifecycle:
  assumes "enforces S" and "failed_session_refuses S" and "constraints t" and "row_step S c t t'"
  shows "(lifecycle c)\<^sup>*\<^sup>* t t'"
  using assms(4)
proof (cases rule: row_step.cases)
  case (stored i now dlv rid src etype data)
  let ?r = "new_event i now dlv rid src etype data"
  have ids: "distinct (map ev_id (t @ [?r]))" "distinct (delivery_ids (t @ [?r]))"
    using committed_constraints [OF assms(1) stored(2)]
    by (simp_all only: constraints_def insert_row_def)
  have "dlv = None \<or> dlv \<notin> delivery_id ` set t"
    using ids(2) by (auto simp: new_event_def delivery_ids_mem image_iff split: option.splits)
  moreover have "i \<notin> ev_id ` set t" using ids(1) by (simp add: new_event_def)
  ultimately have "lifecycle c t (t @ [?r])"
    by (intro lifecycle.receive) (simp_all add: new_event_def)
  then show ?thesis using stored(1) by (auto simp: insert_row_def)
next
  case (processed i event now)
  obtain k where k: "k < length t" "t ! k = event" "\<And>r. ev_id r = i \<Longrightarrow> replace_row t r = t[k := r]"
    by (rule replace_at [OF assms(3) processed(2)]) (rule that)
  obtain n where n: "countdown (payload event) = Inr n" "n \<le> 0" "\<not> forced (payload event)"
    using processed(3) by (auto simp: will_pass_countdown)
  have "t' = t[k := (t ! k)\<lparr>processing_status := PROCESSED,
      processing_attempts := processing_attempts (t ! k) + 1,
      processed_at := Some now, error_message := None\<rparr>]"
    unfolding processed(1) using k find_event_Some_ev_id [OF processed(2)]
    by (simp add: completed_row)
  then show ?thesis
    using lifecycle.process [of k t n c now] k(1,2) n by (simp add: r_into_rtranclp)
next
  case (failed i event data e final)
  obtain k where k: "k < length t" "t ! k = event" "\<And>r. ev_id r = i \<Longrightarrow> replace_row t r = t[k := r]"
    by (rule replace_at [OF assms(3) failed(2)]) (rule that)
  obtain n where n: "task_queue_backend c = lit ''rabbitmq'' \<or> n = 1"
    "(if final then FAILED else PENDING) = after_failure c n"
    by (rule may_be_final_attempt [OF failed(5)])
  have fails: "attempt_fails (payload event) data (exn_text S e)"
    using failed(4) by (rule attempt_failure_fails)
  have "t' = t[k := (t ! k)\<lparr>payload := data, processing_status := after_failure c n,
      processing_attempts := processing_attempts (t ! k) + 1,
      processed_at := None, error_message := Some (exn_text S e)\<rparr>]"
    unfolding failed(1) using k find_event_Some_ev_id [OF failed(2)] n(2)
    by (simp add: rejected_row)
  then show ?thesis
    using lifecycle.fail [of k t data "exn_text S e" c n] k(1,2) fails n(1) by (simp add: r_into_rtranclp)
next
  case (uncommitted i event now x e x' final message u x'')
  then show ?thesis using assms(2) unfolding failed_session_refuses_def by (metis fst_conv unit.exhaust)
next
  case (redriven ids)
  then show ?thesis using lifecycle_mark by simp
qed

text \<open>
  C5: the service refines the lifecycle of its events. With a database that enforces its constraints
  and, as SQLAlchemy's sessions do, refuses every commit after a failed one, whatever requests, worker
  iterations, background tasks, poller rounds, starts, stops, crashes and outside events happen
  after a reachable state, one at a time, the table changes only as \<open>lifecycle\<close> says: events are
  received as new, processed when their payload lets them, rejected with the status, payload and
  error that the backend, the attempt and the payload determine, or redriven when not PROCESSED;
  each change concerns one event and leaves all else of the table as it was.
\<close>

theorem service_refines_lifecycle:
  assumes "enforces S" and "failed_session_refuses S" and "reachable S c w" and "(step S c)\<^sup>*\<^sup>* w w'"
  shows "(lifecycle c)\<^sup>*\<^sup>* (table w) (table w')"
proof -
  have "(row_step S c)\<^sup>*\<^sup>* (table w) (table w')" using assms(3,4) by (rule steps_rows)
  then have "(lifecycle c)\<^sup>*\<^sup>* (table w) (table w') \<and> constraints (table w')"
  proof (induction rule: rtranclp_induct)
    case base
    show ?case using constrained.holds_reachable [OF assms(1,3)] by simp
  next
    case (step t t')
    then have c: "constraints t" and l: "(lifecycle c)\<^sup>*\<^sup>* (table w) t" by simp_all
    have "(lifecycle c)\<^sup>*\<^sup>* t t'" by (rule row_step_lifecycle [OF assms(1,2) c step(2)])
    with l have "(lifecycle c)\<^sup>*\<^sup>* (table w) t'" by (rule rtranclp_trans)
    with constrained.kept [OF assms(1) step(2) c] show ?case by blast
  qed
  then show ?thesis by blast
qed

theorem service_refines_lifecycle_witness:
  "(lifecycle default_settings)\<^sup>*\<^sup>* [] [completed 8 (attempted ordered)]"
proof -
  have start: "reachable strict_db default_settings calm_start" "table calm_start = []"
    unfolding calm_start_def by (rule reachable_init) (simp add: init_world_def)
  have "(step strict_db default_settings)\<^sup>*\<^sup>* calm_start served_world"
    unfolding served_world_def
    by (rule rtranclp.rtrancl_into_rtrancl [OF r_into_rtranclp [of "step strict_db default_settings"]])
      (rule step.request, rule step.background)
  from service_refines_lifecycle [OF enforces_strict strict_refuses start(1) this] show ?thesis
    by (simp only: start(2) served_table)
qed

section \<open>History\<close>

text \<open>What no step changes of an event, and what only grows.\<close>

definition same_event :: "event \<Rightarrow> event \<Rightarrow> bool" where
  "same_event r r' \<longleftrightarrow>
     ev_id r' = ev_id r \<and> delivery_id r' = delivery_id r \<and> request_id r' = request_id r \<and>
     source r' = source r \<and> event_type r' = event_type r \<and> received_at r' = received_at r \<and>
     processing_attempts r \<le> processing_attempts r'"

definition extends :: "event list \<Rightarrow> event list \<Rightarrow> bool" where
  "extends t t' \<longleftrightarrow> (\<exists>old new. t' = old @ new \<and> list_all2 same_event t old)"

lemma same_event_refl: "same_event r r"
  by (simp add: same_event_def)

lemma same_event_trans: "same_event a b \<Longrightarrow> same_event b c \<Longrightarrow> same_event a c"
  by (auto simp: same_event_def)

lemma extends_refl: "extends t t"
  by (force simp: extends_def intro: list_all2_refl same_event_refl)

lemma extends_trans:
  assumes "extends t u" and "extends u v"
  shows "extends t v"
proof -
  obtain o1 n1 where 1: "u = o1 @ n1" "list_all2 same_event t o1" using assms(1) by (auto simp: extends_def)
  obtain o2 n2 where 2: "v = o2 @ n2" "list_all2 same_event u o2" using assms(2) by (auto simp: extends_def)
  then obtain a b where ab: "o2 = a @ b" "list_all2 same_event o1 a"
    using 1 by (auto simp: list_all2_append1)
  have "list_all2 same_event t a"
    by (rule list_all2_trans [OF same_event_trans 1(2) ab(2)])
  then show ?thesis using 2(1) ab(1) by (auto simp: extends_def)
qed

lemma extends_replace:
  assumes "constraints t" and "find_event t i = Some event" and "same_event event r"
  shows "extends t (replace_row t r)"
proof -
  have "same_event x (if ev_id x = ev_id r then r else x)" if "x \<in> set t" for x
  proof (cases "ev_id x = ev_id r")
    case True
    have "find_event t (ev_id x) = Some x"
      using assms(1) that by (intro find_event_mem) (simp_all add: constraints_def)
    moreover have "ev_id x = i"
      using True assms(3) rows.find_ev_id [OF assms(2)] by (simp add: same_event_def)
    ultimately show ?thesis using True assms(2,3) by simp
  qed (simp add: same_event_refl)
  then have "list_all2 same_event t (replace_row t r)"
    by (simp add: replace_row_def list_all2_map2 list.rel_refl_strong)
  then show ?thesis by (auto simp: extends_def)
qed

lemma row_step_extends:
  assumes "row_step S c t t'" and "constraints t"
  shows "extends t t'"
  using assms(1)
proof (cases rule: row_step.cases)
  case (stored i now dlv rid src etype data)
  then show ?thesis by (force simp: extends_def insert_row_def intro: list_all2_refl same_event_refl)
next
  case (processed i event now)
  then show ?thesis using assms(2)
    by (auto intro!: extends_replace simp: same_event_def completed_def attempted_def)
next
  case (failed i event data e final)
  then show ?thesis using assms(2)
    by (auto intro!: extends_replace simp: same_event_def rejected_def attempted_def)
next
  case (uncommitted i event now x e x' final message u x'')
  then show ?thesis using assms(2)
    by (auto intro!: extends_replace simp: same_event_def rejected_def attempted_def)
next
  case (redriven ids)
  have "list_all2 same_event t (mark_rows ids t)"
    by (simp add: mark_rows_def list_all2_map2 list.rel_refl_strong mark_row_def same_event_def)
  then show ?thesis using redriven by (auto simp: extends_def)
qed

text \<open>
  C1: no event is ever lost. With a database that enforces its constraints, from any reachable
  state on the events keep their place in the table, their id, delivery id, request id, source,
  type and time of receipt, and their count of attempts never decreases; new events are only
  appended.
\<close>

theorem events_are_never_lost:
  assumes "enforces S" and "reachable S c w" and "(step S c)\<^sup>*\<^sup>* w w'"
  shows "\<exists>old new. table w' = old @ new \<and> list_all2 same_event (table w) old"
proof -
  have "(row_step S c)\<^sup>*\<^sup>* (table w) (table w')" using assms(2,3) by (rule steps_rows)
  then have "extends (table w) (table w') \<and> constraints (table w')"
  proof (induction rule: rtranclp_induct)
    case base
    show ?case using constrained.holds_reachable [OF assms(1,2)] by (simp add: extends_refl)
  next
    case (step t t')
    then show ?case
      using row_step_extends extends_trans constrained.kept [OF assms(1)] by blast
  qed
  then show ?thesis by (simp add: extends_def)
qed

theorem events_are_never_lost_witness:
  "\<exists>old new. table (snd (serve strict_db default_settings order_request served_world)) = old @ new \<and>
    list_all2 same_event (table served_world) old"
  by (rule events_are_never_lost [OF enforces_strict served_reachable served_again])

section \<open>PROCESSED is final\<close>

text \<open>What one more attempt at a PROCESSED event changes: its count and its time.\<close>

definition processed_anew :: "event \<Rightarrow> event \<Rightarrow> bool" where
  "processed_anew r r' \<longleftrightarrow> (\<exists>n t. processing_attempts r < n \<and>
     r' = r\<lparr>processing_attempts := n, processed_at := Some t\<rparr>)"

lemma processed_anewI:
  "processing_attempts r < n \<Longrightarrow> processed_anew r (r\<lparr>processing_attempts := n, processed_at := Some t\<rparr>)"
  unfolding processed_anew_def by blast

lemma processed_anew_trans:
  assumes "processed_anew a b" and "processed_anew b c"
  shows "processed_anew a c"
proof -
  obtain n t n' t' where "processing_attempts a < n" "b = a\<lparr>processing_attempts := n, processed_at := Some t\<rparr>"
    "processing_attempts b < n'" "c = b\<lparr>processing_attempts := n', processed_at := Some t'\<rparr>"
    using assms by (auto simp only: processed_anew_def)
  then show ?thesis using processed_anewI [of a n' t'] by simp
qed

lemma processed_stays:
  assumes "row_step S c t t'" and "failed_session_refuses S" and "passing t"
    and "find_event t i = Some r" and "processing_status r = PROCESSED" and "error_message r = None"
  shows "\<exists>r'. find_event t' i = Some r' \<and> (r' = r \<or> processed_anew r r')"
  using assms(1)
proof (cases rule: row_step.cases)
  case (stored i' now dlv rid src etype data)
  then show ?thesis using assms(4) by (simp add: insert_row_def find_event_append)
next
  case (processed i' event now)
  show ?thesis
  proof (cases "i' = i")
    case True
    have "completed now (attempted r)
        = r\<lparr>processing_attempts := processing_attempts r + 1, processed_at := Some now\<rparr>"
      using assms(5,6) by (cases r) (simp add: completed_def attempted_def)
    then have "processed_anew r (completed now (attempted r))"
      using processed_anewI [of r "processing_attempts r + 1" now] by simp
    then show ?thesis using True processed assms(4) find_replaced [of t i r]
      by (simp add: completed_def attempted_def)
  next
    case False
    then show ?thesis using processed assms(4) find_replaced [of t i' event]
      by (simp add: completed_def attempted_def)
  qed
next
  case (failed i' event data e final)
  have "i' \<noteq> i"
    using failed(2,3) assms(3-5) find_event_Some_ev_id [of t i r] by (auto simp: passing_def)
  then show ?thesis using failed assms(4) find_replaced [of t i' event]
    by (auto simp: rejected_def attempted_def)
next
  case (uncommitted i' event now x e x' final message u x'')
  then show ?thesis using assms(2) unfolding failed_session_refuses_def by (metis fst_conv unit.exhaust)
next
  case (redriven ids)
  then show ?thesis using assms(4,5) rows.mark_keeps_processed by simp
qed

text \<open>
  C2: PROCESSED is final, as long as the steps of the service do not overlap. However often its
  message is delivered again, retried or redriven, and whatever else the service does, an event
  that is PROCESSED in a reachable state is PROCESSED ever after, with a time of processing and no
  error. Nothing of its row ever changes but the count of attempts and that time, and these two
  only together: the time changes only if the event was processed anew and the count has grown.
  (Attempts that overlap can undo PROCESSED: Overlap.)
\<close>

theorem processed_is_final:
  assumes "failed_session_refuses S" and "reachable S c w" and "(step S c)\<^sup>*\<^sup>* w w'"
    and "find_event (table w) i = Some event" and "processing_status event = PROCESSED"
  shows "\<exists>event'. find_event (table w') i = Some event' \<and> processing_status event' = PROCESSED \<and>
    error_message event' = None \<and> processed_at event' \<noteq> None \<and>
    (event' = event \<or> (\<exists>n t. processing_attempts event < n \<and>
       event' = event\<lparr>processing_attempts := n, processed_at := Some t\<rparr>))"
proof -
  have wf: "row_wf event"
    using found_wf [OF rows_wf.holds_reachable [OF TrueI assms(2)] assms(4)] .
  have fin: "processing_status r = PROCESSED \<and> error_message r = None \<and> processed_at r \<noteq> None"
    if "r = event \<or> processed_anew event r" for r
    using that wf assms(5) by (auto simp: row_wf_def processed_anew_def)
  have "(row_step S c)\<^sup>*\<^sup>* (table w) (table w')" using assms(2,3) by (rule steps_rows)
  then have "passing (table w') \<and> (\<exists>event'. find_event (table w') i = Some event' \<and>
      (event' = event \<or> processed_anew event event'))"
  proof (induction rule: rtranclp_induct)
    case base
    show ?case using processed_pass.holds_reachable [OF TrueI assms(2)] assms(4) by blast
  next
    case (step t t')
    then obtain r where r: "find_event t i = Some r" "r = event \<or> processed_anew event r" "passing t"
      by blast
    have "processing_status r = PROCESSED" "error_message r = None" using fin [OF r(2)] by simp_all
    then obtain r' where "find_event t' i = Some r'" "r' = r \<or> processed_anew r r'"
      using processed_stays [OF step(2) assms(1) r(3,1)] by blast
    then show ?case
      using r(2) processed_anew_trans processed_pass.kept [OF TrueI step(2) r(3)] by blast
  qed
  then obtain event' where e: "find_event (table w') i = Some event'"
    "event' = event \<or> processed_anew event event'" by blast
  have "processing_status event' = PROCESSED" "error_message event' = None" "processed_at event' \<noteq> None"
    using fin [OF e(2)] by simp_all
  with e(1) e(2) [unfolded processed_anew_def] show ?thesis by (intro exI [of _ event'] conjI)
qed

theorem processed_is_final_witness:
  "\<exists>event'. find_event (table (snd (serve strict_db default_settings order_request served_world))) 3
      = Some event' \<and> processing_status event' = PROCESSED \<and>
    error_message event' = None \<and> processed_at event' \<noteq> None \<and>
    (event' = completed 8 (attempted ordered) \<or>
     (\<exists>n t. processing_attempts (completed 8 (attempted ordered)) < n \<and>
       event' = (completed 8 (attempted ordered))\<lparr>processing_attempts := n, processed_at := Some t\<rparr>))"
proof (rule processed_is_final [OF strict_refuses served_reachable served_again])
  show "find_event (table served_world) 3 = Some (completed 8 (attempted ordered))"
    by (simp add: served_table) (simp add: ordered_def new_event_def)
  show "processing_status (completed 8 (attempted ordered)) = PROCESSED"
    by (simp add: completed_def)
qed

end
