(* ===== verification/Flow.thy ===== *)
theory Flow
  imports Lifecycle
begin

text \<open>
  Queue, database and worker together, with services in which nothing fails: where the message of
  every event is, that none is stranded, and that the worker empties the queues.
\<close>

section \<open>Services without faults\<close>

text \<open>
  \<open>shelf x q\<close> are the bodies of the messages waiting on queue \<open>q\<close> when the services are in
  state \<open>x\<close>, oldest first. A published message is appended to the queue bound under its routing
  key, a consumer gets the oldest; nothing else the program calls moves a message.
\<close>

type_synonym stock = "pystr \<Rightarrow> bytes list"

fun after_command :: "cmd \<Rightarrow> stock \<Rightarrow> stock" where
  "after_command (Publish ex rk b) s = s(rk := s rk @ [b])"
| "after_command _ s = s"

definition leaves :: "('x \<Rightarrow> 'v) \<Rightarrow> ('x \<Rightarrow> 'a \<times> 'x) \<Rightarrow> bool" where
  "leaves shelf f \<longleftrightarrow> (\<forall>x. shelf (snd (f x)) = shelf x)"

definition broker_works :: "'x services \<Rightarrow> ('x \<Rightarrow> stock) \<Rightarrow> bool" where
  "broker_works S shelf \<longleftrightarrow>
     aio_pika_installed S \<and>
     (\<forall>cmd x. \<exists>x'. broker_do S cmd x = (Inr (), x') \<and> shelf x' = after_command cmd (shelf x)) \<and>
     (\<forall>q x. \<exists>n x'. broker_count S q x = (Inr n, x') \<and> shelf x' = shelf x) \<and>
     (\<forall>q t x. case shelf x q of
        [] \<Rightarrow> \<exists>x'. broker_get S q t x = (Inr None, x') \<and> shelf x' = shelf x
      | b # bs \<Rightarrow> \<exists>tag x'. broker_get S q t x = (Inr (Some (tag, b)), x') \<and>
          shelf x' = (shelf x)(q := bs))"

definition others_leave :: "'x services \<Rightarrow> ('x \<Rightarrow> stock) \<Rightarrow> bool" where
  "others_leave S shelf \<longleftrightarrow>
     leaves shelf (time_now S) \<and> leaves shelf (perf_counter S) \<and> leaves shelf (utc_now S) \<and>
     leaves shelf (uuid4 S) \<and> leaves shelf (db_now S) \<and> leaves shelf (db_query S) \<and>
     (\<forall>t. leaves shelf (db_commit S t)) \<and> leaves shelf (db_rollback S) \<and>
     leaves shelf (db_create_all S) \<and> leaves shelf (db_dispose S) \<and>
     (\<forall>x. shelf (db_open S x) = shelf x) \<and> leaves shelf (redis_ping S) \<and>
     (\<forall>q. leaves shelf (redis_llen S q)) \<and> (\<forall>q t. leaves shelf (redis_blpop S q t))"

text \<open>The three queues are different, RabbitMQ is configured, and the settings passed their validators.\<close>

definition queues_configured :: "settings \<Rightarrow> bool" where
  "queues_configured c \<longleftrightarrow>
     task_queue_backend c = lit ''rabbitmq'' \<and> valid_settings c \<and>
     rabbitmq_max_delivery_attempts c < 10 ^ int_max_str_digits \<and>
     distinct [event_queue_name c, retry_queue_name c, dead_letter_queue_name c]"

definition fault_free :: "'x services \<Rightarrow> ('x \<Rightarrow> stock) \<Rightarrow> bool" where
  "fault_free S shelf \<longleftrightarrow>
     broker_works S shelf \<and> others_leave S shelf \<and> reliable_db S \<and> enforces S"

section \<open>What leaves table and queues alone\<close>

abbreviation stock :: "('x \<Rightarrow> stock) \<Rightarrow> 'x world \<Rightarrow> event list \<times> stock" where
  "stock shelf w \<equiv> (table w, shelf (ext w))"

lemma keeps_stock_call: "leaves shelf f \<Longrightarrow> keeps (stock shelf) (call f)"
  by (auto simp: keeps_def leaves_def call_def split: prod.splits) (metis snd_conv)

lemma keeps_stock_ask: "leaves shelf f \<Longrightarrow> keeps (stock shelf) (ask f)"
  by (auto simp: keeps_def leaves_def ask_def split: prod.splits) (metis snd_conv)

lemma keeps_stock_modify [keeps_rules]:
  "keeps (stock shelf) (set_metrics f)" "keeps (stock shelf) (set_qmod g)"
  "keeps (stock shelf) (log_effect e)" "keeps (stock shelf) (add_task i)"
  unfolding set_metrics_def set_qmod_def log_effect_def add_task_def by (rule keeps_modify; simp)+

lemma quiet_services:
  assumes "fault_free S shelf"
  shows "keeps (stock shelf) (ask (time_now S))" "keeps (stock shelf) (ask (perf_counter S))"
    "keeps (stock shelf) (ask (utc_now S))" "keeps (stock shelf) (ask (uuid4 S))"
    "keeps (stock shelf) (ask (db_now S))" "keeps (stock shelf) (call (db_query S))"
    "keeps (stock shelf) (call (db_commit S t))" "keeps (stock shelf) (call (db_rollback S))"
    "keeps (stock shelf) (call (db_create_all S))" "keeps (stock shelf) (call (db_dispose S))"
    "keeps (stock shelf) (call (redis_ping S))" "keeps (stock shelf) (call (redis_llen S q))"
    "keeps (stock shelf) (call (redis_blpop S q tm))" "keeps (stock shelf) (open_session S)"
proof -
  have o: "others_leave S shelf" using assms by (simp add: fault_free_def)
  note l = o [unfolded others_leave_def]
  show "keeps (stock shelf) (ask (time_now S))" "keeps (stock shelf) (ask (perf_counter S))"
    "keeps (stock shelf) (ask (utc_now S))" "keeps (stock shelf) (ask (uuid4 S))"
    "keeps (stock shelf) (ask (db_now S))"
    by (rule keeps_stock_ask, simp add: l)+
  show "keeps (stock shelf) (call (db_query S))"
    "keeps (stock shelf) (call (db_commit S t))" "keeps (stock shelf) (call (db_rollback S))"
    "keeps (stock shelf) (call (db_create_all S))" "keeps (stock shelf) (call (db_dispose S))"
    "keeps (stock shelf) (call (redis_ping S))" "keeps (stock shelf) (call (redis_llen S q))"
    "keeps (stock shelf) (call (redis_blpop S q tm))"
    by (rule keeps_stock_call, simp add: l)+
  show "keeps (stock shelf) (open_session S)"
    unfolding open_session_def by (rule keeps_modify) (simp add: l)
qed

lemma broker_done_stock:
  assumes "fault_free S shelf"
  shows "\<exists>w'. broker S cmd w = (Inr (), w') \<and> table w' = table w \<and>
    shelf (ext w') = after_command cmd (shelf (ext w))"
proof -
  obtain x' where "broker_do S cmd (ext w) = (Inr (), x')" "shelf x' = after_command cmd (shelf (ext w))"
    using assms unfolding fault_free_def broker_works_def by blast
  then show ?thesis by (simp add: broker_run)
qed

lemma quiet_broker:
  assumes "fault_free S shelf" and "\<And>s. after_command cmd s = s"
  shows "keeps (stock shelf) (broker S cmd)"
  unfolding keeps_def
proof
  fix w
  show "stock shelf (snd (broker S cmd w)) = stock shelf w"
    using broker_done_stock [OF assms(1), of cmd w] assms(2) by auto
qed

lemma quiet_count:
  assumes "fault_free S shelf"
  shows "keeps (stock shelf) (call (broker_count S q))"
proof (rule keeps_stock_call)
  show "leaves shelf (broker_count S q)"
    unfolding leaves_def
  proof
    fix x
    obtain n x' where "broker_count S q x = (Inr n, x')" "shelf x' = shelf x"
      using assms unfolding fault_free_def broker_works_def by blast
    then show "shelf (snd (broker_count S q x)) = shelf x" by simp
  qed
qed

lemma never_fails:
  assumes "fault_free S shelf"
  shows "raises_only (\<lambda>_. False) (broker S cmd)" "raises_only (\<lambda>_. False) (call (broker_count S q))"
    "raises_only (\<lambda>_. False) (call (db_query S))"
proof -
  show "raises_only (\<lambda>_. False) (broker S cmd)"
    unfolding raises_only_def
  proof (intro allI impI)
    fix w e w'
    assume "broker S cmd w = (Inl e, w')"
    then show False using broker_done_stock [OF assms, of cmd w] by auto
  qed
  show "raises_only (\<lambda>_. False) (call (broker_count S q))"
  proof (rule raises_only_call)
    fix x e
    obtain n x' where "broker_count S q x = (Inr n, x')"
      using assms unfolding fault_free_def broker_works_def by blast
    then show "fst (broker_count S q x) = Inl e \<Longrightarrow> False" by simp
  qed
  show "raises_only (\<lambda>_. False) (call (db_query S))"
  proof (rule raises_only_call)
    fix x e
    obtain x' where "db_query S x = (Inr (), x')"
      using assms unfolding fault_free_def reliable_db_def by blast
    then show "fst (db_query S x) = Inl e \<Longrightarrow> False" by simp
  qed
qed

lemma quiet_connection:
  assumes "fault_free S shelf"
  shows "keeps (stock shelf) (ensure_rabbitmq_topology S c)"
    "keeps (stock shelf) (get_queue_client S c)" "keeps (stock shelf) (dispose_queue S)"
    "keeps (stock shelf) (complete_event S env)" "keeps (stock shelf) (ping_queue S c)"
    "keeps (stock shelf) (get_queue_snapshot S c)"
  unfolding ensure_rabbitmq_topology_def declare_and_bind_def get_queue_client_def dispose_queue_def
    complete_event_def ping_queue_def get_queue_snapshot_def publish_depths_def
  by ((intro keeps_rules quiet_services [OF assms] quiet_count [OF assms] quiet_broker [OF assms])?;
    simp)+

lemma quiet_database:
  assumes "fault_free S shelf"
  shows "keeps (stock shelf) (query S f)" "keeps (stock shelf) (get_event_by_delivery_id S d)"
    "keeps (stock shelf) (get_event_by_id S i)" "keeps (stock shelf) (list_events S limit offset src)"
    "keeps (stock shelf) (get_events_summary S)" "keeps (stock shelf) (ping_db S)"
    "keeps (stock shelf) (init_db S)" "keeps (stock shelf) (dispose_db S)"
  unfolding query_def get_event_by_delivery_id_def get_event_by_id_def list_events_def
    get_events_summary_def ping_db_def init_db_def dispose_db_def
  by (intro keeps_rules quiet_services [OF assms])+

lemma quiet_handlers:
  assumes "fault_free S shelf"
  shows "keeps (stock shelf) (verify_webhook_signature S c body ts sig)"
    "keeps (stock shelf) (get_events S limit offset src)"
    "keeps (stock shelf) (get_events_summary_out S c)" "keeps (stock shelf) (get_queue_stats S c)"
    "keeps (stock shelf) (health S c)" "keeps (stock shelf) (poll_round S c)"
  unfolding verify_webhook_signature_def signature_failure_def get_events_def get_events_summary_out_def
    get_queue_stats_def get_queue_snapshot_or_raise_def or_503_def health_def health_of_queue_def
    dependency_state_def poll_round_def get_queue_depth_def
  by (intro keeps_rules quiet_services [OF assms] quiet_connection [OF assms] quiet_database [OF assms])+

lemma quiet_middleware:
  assumes "fault_free S shelf"
  shows "keeps (stock shelf) (choose_request_id S c req)" "keeps (stock shelf) (count_request S req code t)"
    "keeps (stock shelf) (startup S c)" "keeps (stock shelf) (shutdown S)"
proof -
  have "keeps (stock shelf) (setup_logging S c)"
    unfolding setup_logging_def by (intro keeps_rules keeps_modify) simp_all
  then show "keeps (stock shelf) (choose_request_id S c req)" "keeps (stock shelf) (count_request S req code t)"
    "keeps (stock shelf) (startup S c)" "keeps (stock shelf) (shutdown S)"
    unfolding choose_request_id_def count_request_def startup_def shutdown_def
    by (intro keeps_rules quiet_services [OF assms] quiet_connection [OF assms] quiet_database [OF assms]
      | assumption)+
qed

section \<open>What moves messages\<close>

lemma topology_done:
  assumes "fault_free S shelf" and "task_queue_backend c = lit ''rabbitmq''"
  shows "\<exists>w'. ensure_rabbitmq_topology S c w = (Inr (), w') \<and> stock shelf w' = stock shelf w"
proof -
  have "aio_pika_installed S" using assms(1) by (simp add: fault_free_def broker_works_def)
  then have "raises_only (\<lambda>_. False) (ensure_rabbitmq_topology S c)"
    using assms(2) unfolding ensure_rabbitmq_topology_def declare_and_bind_def set_qmod_def
    by (intro raises_rules never_fails [OF assms(1)]) simp_all
  then obtain w' where run: "ensure_rabbitmq_topology S c w = (Inr (), w')"
    by (rule never_raises [where w = w]) simp
  then show ?thesis
    using keepsD_run [OF quiet_connection(1) [OF assms(1)] run] by simp
qed

lemma publish_done:
  assumes "fault_free S shelf" and "task_queue_backend c = lit ''rabbitmq''"
    and "\<bar>n\<bar> < 10 ^ int_max_str_digits"
  obtains b w' where "publish_to_rabbitmq S c u rk n w = (Inr (), w')" "decode_payload b = Inr (u, n)"
    "table w' = table w" "shelf (ext w') = (shelf (ext w))(rk := shelf (ext w) rk @ [b])"
proof -
  let ?ex = "rabbitmq_exchange_name c"
  obtain w1 where w1: "ensure_rabbitmq_topology S c w = (Inr (), w1)" "stock shelf w1 = stock shelf w"
    using topology_done [OF assms(1,2)] by blast
  obtain w2 where w2: "broker S (GetExchange ?ex) w1 = (Inr (), w2)" "stock shelf w2 = stock shelf w1"
    using broker_done_stock [OF assms(1), of "GetExchange ?ex" w1] by auto
  obtain b where b: "queue_payload u n = Inr b" using queue_payload_total [OF assms(3)] by blast
  obtain w3 where w3: "broker S (Publish ?ex rk b) w2 = (Inr (), w3)" "table w3 = table w2"
    "shelf (ext w3) = (shelf (ext w2))(rk := shelf (ext w2) rk @ [b])"
    using broker_done_stock [OF assms(1), of "Publish ?ex rk b" w2] by auto
  have "aio_pika_installed S" using assms(1) by (simp add: fault_free_def broker_works_def)
  then have "publish_to_rabbitmq S c u rk n w = (Inr (), w3)"
    using w1(1) w2(1) b w3(1) by (simp add: publish_to_rabbitmq_def)
  then show thesis
    using decode_queue_payload [OF b] w1(2) w2(2) w3(2,3) by (intro that [of w3 b]) simp_all
qed

lemma ack_done:
  assumes "fault_free S shelf"
  obtains w' where "broker S (Ack tag) w = (Inr (), w')" "stock shelf w' = stock shelf w"
  using broker_done_stock [OF assms, of "Ack tag" w] by auto

lemma take_done:
  assumes "fault_free S shelf"
  obtains (nothing) w' where "shelf (ext w) q = []" "take_message S q t w = (Inr None, w')"
      "stock shelf w' = stock shelf w"
  | (taken) b bs tag w' where "shelf (ext w) q = b # bs"
      "take_message S q t w = (Inr (Some (tag, b)), w')" "table w' = table w"
      "shelf (ext w') = (shelf (ext w))(q := bs)"
proof -
  have get: "case shelf (ext w) q of
      [] \<Rightarrow> \<exists>x'. broker_get S q t (ext w) = (Inr None, x') \<and> shelf x' = shelf (ext w)
    | b # bs \<Rightarrow> \<exists>tag x'. broker_get S q t (ext w) = (Inr (Some (tag, b)), x') \<and>
        shelf x' = (shelf (ext w))(q := bs)"
    using assms unfolding fault_free_def broker_works_def by blast
  show thesis
  proof (cases "shelf (ext w) q")
    case Nil
    with get obtain x' where "broker_get S q t (ext w) = (Inr None, x')" "shelf x' = shelf (ext w)"
      by auto
    with Nil show thesis
      by (intro that(1) [of "w\<lparr>ext := x'\<rparr>"]) (simp_all add: take_message_def call_def io_bind_def)
  next
    case (Cons b bs)
    with get obtain tag x' where x': "broker_get S q t (ext w) = (Inr (Some (tag, b)), x')"
      "shelf x' = (shelf (ext w))(q := bs)"
      by auto
    let ?w = "w\<lparr>ext := x', trace := trace w @ [Took q tag b]\<rparr>"
    have "take_message S q t w = (Inr (Some (tag, b)), ?w)"
      using x'(1) by (simp add: take_message_def call_def log_effect_def io_bind_def)
    with Cons x'(2) show thesis by (intro taken [of b bs tag ?w]) simp_all
  qed
qed

lemma dequeue_done:
  assumes "fault_free S shelf" and "task_queue_backend c = lit ''rabbitmq''"
  obtains (idle) w' where "shelf (ext w) (event_queue_name c) = []"
      "dequeue_event S c t w = (Inr None, w')" "stock shelf w' = stock shelf w"
  | (malformed) b bs e w' where "shelf (ext w) (event_queue_name c) = b # bs"
      "decode_payload b = Inl e" "dequeue_event S c t w = (Inr None, w')" "table w' = table w"
      "shelf (ext w') = (shelf (ext w))(event_queue_name c := bs)"
  | (got) b bs i n tag w' where "shelf (ext w) (event_queue_name c) = b # bs"
      "decode_payload b = Inr (i, n)" "dequeue_event S c t w = (Inr (Some
        \<lparr>env_event_id = i, env_attempt = n, env_raw_message = Some tag\<rparr>), w')" "table w' = table w"
      "shelf (ext w') = (shelf (ext w))(event_queue_name c := bs)"
proof -
  let ?q = "event_queue_name c"
  obtain w1 where w1: "ensure_rabbitmq_topology S c w = (Inr (), w1)" "stock shelf w1 = stock shelf w"
    using topology_done [OF assms] by blast
  obtain k w2 where k: "call (broker_count S ?q) w1 = (Inr k, w2)"
    using never_raises [OF never_fails(2) [OF assms(1)]] by metis
  have w2: "stock shelf w2 = stock shelf w"
    using keepsD_run [OF quiet_count [OF assms(1)] k] w1(2) by simp
  note run = dequeue_event_def assms(2) w1(1) k
  show thesis
  proof (rule take_done [OF assms(1), of w2 ?q t])
    fix w3 assume "shelf (ext w2) ?q = []" "take_message S ?q t w2 = (Inr None, w3)"
      "stock shelf w3 = stock shelf w2"
    with w2 show thesis by (intro idle [of w3]) (simp_all add: run)
  next
    fix b bs tag w3 assume got3: "shelf (ext w2) ?q = b # bs"
      "take_message S ?q t w2 = (Inr (Some (tag, b)), w3)" "table w3 = table w2"
      "shelf (ext w3) = (shelf (ext w2))(?q := bs)"
    show thesis
    proof (cases "decode_payload b")
      case (Inl e)
      obtain w4 where "broker S (Ack tag) w3 = (Inr (), w4)" "stock shelf w4 = stock shelf w3"
        using ack_done [OF assms(1)] by blast
      with Inl got3 w2 show thesis by (intro malformed [of b bs e w4]) (simp_all add: run)
    next
      case (Inr m)
      obtain i n where "m = (i, n)" by fastforce
      with Inr got3 w2 show thesis by (intro got [of b bs i n tag w3]) (simp_all add: run)
    qed
  qed
qed

text \<open>The calls of an attempt do not reach whatever \<open>f\<close> reads of the outside, so neither does it.\<close>

definition processing_leaves :: "'x services \<Rightarrow> ('x \<Rightarrow> 'v) \<Rightarrow> bool" where
  "processing_leaves S f \<longleftrightarrow>
     leaves f (perf_counter S) \<and> leaves f (utc_now S) \<and> leaves f (db_query S) \<and>
     (\<forall>t. leaves f (db_commit S t)) \<and> (\<forall>x. f (db_open S x) = f x)"

lemma keeps_outside:
  assumes "leaves f g"
  shows "keeps (\<lambda>w. f (ext w)) (call g)"
  using assms by (auto simp: keeps_def leaves_def call_def split: prod.splits) (metis snd_conv)

lemma keeps_outside_ask:
  assumes "leaves f g"
  shows "keeps (\<lambda>w. f (ext w)) (ask g)"
  using assms by (auto simp: keeps_def leaves_def ask_def split: prod.splits) (metis snd_conv)

lemma keeps_processing:
  assumes "processing_leaves S f"
  shows "keeps (\<lambda>w. f (ext w)) (process_event_by_id S i final)"
proof -
  have "keeps (\<lambda>w. f (ext w)) (commit S t)" "keeps (\<lambda>w. f (ext w)) (query S g)" for t g
    unfolding commit_def query_def
    by (intro keeps_rules keeps_outside keeps_modify, use assms in \<open>simp_all add: processing_leaves_def\<close>)+
  moreover have "keeps (\<lambda>w. f (ext w)) (set_metrics h)" "keeps (\<lambda>w. f (ext w)) (open_session S)" for h
    unfolding set_metrics_def open_session_def
    by (rule keeps_modify, use assms in \<open>simp add: processing_leaves_def\<close>)+
  moreover have "keeps (\<lambda>w. f (ext w)) (ask (perf_counter S))" "keeps (\<lambda>w. f (ext w)) (ask (utc_now S))"
    by (rule keeps_outside_ask, use assms in \<open>simp add: processing_leaves_def\<close>)+
  ultimately show ?thesis
    unfolding process_event_by_id_def process_event_def process_failed_def commit_event_def
      record_outcome_def
    by (intro keeps_rules)
qed

lemma stock_process:
  assumes "fault_free S shelf"
  shows "keeps (\<lambda>w. shelf (ext w)) (process_event_by_id S i final)"
  by (rule keeps_processing) (use assms in \<open>simp add: fault_free_def others_leave_def processing_leaves_def\<close>)

text \<open>Where \<open>retry_or_dead_letter\<close> puts the next copy of a message.\<close>

lemma reroute_done:
  assumes "fault_free S shelf" and "queues_configured c"
    and "env = \<lparr>env_event_id = i, env_attempt = n, env_raw_message = Some tag\<rparr>"
    and "1 \<le> n" and "n \<le> rabbitmq_max_delivery_attempts c"
  obtains b w' action where "retry_or_dead_letter S c env w = (Inr action, w')" "table w' = table w"
    "if n < rabbitmq_max_delivery_attempts c
     then decode_payload b = Inr (i, n + 1) \<and>
       shelf (ext w') = (shelf (ext w))(retry_queue_name c := shelf (ext w) (retry_queue_name c) @ [b])
     else decode_payload b = Inr (i, n) \<and>
       shelf (ext w') = (shelf (ext w))(dead_letter_queue_name c := shelf (ext w) (dead_letter_queue_name c) @ [b])"
proof -
  let ?more = "n < rabbitmq_max_delivery_attempts c"
  let ?rk = "if ?more then retry_queue_name c else dead_letter_queue_name c"
  let ?n = "if ?more then n + 1 else n"
  have be: "task_queue_backend c = lit ''rabbitmq''" using assms(2) by (simp add: queues_configured_def)
  have "\<bar>?n\<bar> < 10 ^ int_max_str_digits" using assms(2,4,5) by (auto simp: queues_configured_def)
  then obtain b w1 where p: "publish_to_rabbitmq S c i ?rk ?n w = (Inr (), w1)"
    "decode_payload b = Inr (i, ?n)" "table w1 = table w"
    "shelf (ext w1) = (shelf (ext w))(?rk := shelf (ext w) ?rk @ [b])"
    using publish_done [OF assms(1) be] by metis
  define w2 where "w2 = (if ?more then w1\<lparr>metrics := record_retry (metrics w1)\<rparr> else w1)"
  have w2: "stock shelf w2 = stock shelf w1" by (simp add: w2_def)
  obtain w3 where w3: "broker S (Ack tag) w2 = (Inr (), w3)" "stock shelf w3 = stock shelf w2"
    using ack_done [OF assms(1)] by blast
  have "retry_or_dead_letter S c env w = (Inr (if ?more then lit ''retry'' else lit ''dead_letter''), w3)"
    using be assms(3) p(1) w3(1)
    by (auto simp: retry_or_dead_letter_def w2_def set_metrics_run split: if_splits)
  then show thesis
    using p w2 w3(2) by (intro that [of _ w3 b]) auto
qed

section \<open>Every event is accounted for\<close>

text \<open>
  A PENDING event has a message on the main or the retry queue, a FAILED one on the dead-letter
  queue. Besides, the constraints hold and every message on the three queues that can be decoded
  carries an attempt between 1 and the maximum.
\<close>

definition message_for :: "uuid \<Rightarrow> bytes list \<Rightarrow> bool" where
  "message_for i bs \<longleftrightarrow> (\<exists>b \<in> set bs. \<exists>n. decode_payload b = Inr (i, n))"

definition accounted :: "settings \<Rightarrow> stock \<Rightarrow> event \<Rightarrow> bool" where
  "accounted c s event \<longleftrightarrow>
     (case processing_status event of
        PENDING \<Rightarrow> message_for (ev_id event) (s (event_queue_name c) @ s (retry_queue_name c))
      | FAILED \<Rightarrow> message_for (ev_id event) (s (dead_letter_queue_name c))
      | PROCESSED \<Rightarrow> True)"

definition attempts_ok :: "settings \<Rightarrow> bytes \<Rightarrow> bool" where
  "attempts_ok c b \<longleftrightarrow>
     (\<forall>i n. decode_payload b = Inr (i, n) \<longrightarrow> 1 \<le> n \<and> n \<le> rabbitmq_max_delivery_attempts c)"

definition books_balance :: "settings \<Rightarrow> event list \<times> stock \<Rightarrow> bool" where
  "books_balance c ts \<longleftrightarrow> (case ts of (t, s) \<Rightarrow>
     constraints t \<and> list_all (accounted c s) t \<and>
     list_all (attempts_ok c)
       (s (event_queue_name c) @ s (retry_queue_name c) @ s (dead_letter_queue_name c)))"

lemma message_for_simps [simp]:
  "\<not> message_for i []"
  "message_for i (b # bs) \<longleftrightarrow> (\<exists>n. decode_payload b = Inr (i, n)) \<or> message_for i bs"
  "message_for i (bs @ bs') \<longleftrightarrow> message_for i bs \<or> message_for i bs'"
  by (auto simp: message_for_def)

lemma accounted_cong:
  "ev_id event' = ev_id event \<Longrightarrow> processing_status event' = processing_status event \<Longrightarrow>
    accounted c s event' = accounted c s event"
  by (simp add: accounted_def split: processing_status.splits)

lemma accounted_mono:
  assumes "accounted c s event"
    and "\<And>i. message_for i (s (event_queue_name c) @ s (retry_queue_name c)) \<Longrightarrow>
      message_for i (s' (event_queue_name c) @ s' (retry_queue_name c))"
    and "\<And>i. message_for i (s (dead_letter_queue_name c)) \<Longrightarrow> message_for i (s' (dead_letter_queue_name c))"
  shows "accounted c s' event"
  using assms by (auto simp: accounted_def split: processing_status.splits)

lemma queue_names:
  assumes "queues_configured c"
  shows "event_queue_name c \<noteq> retry_queue_name c" "event_queue_name c \<noteq> dead_letter_queue_name c"
    "retry_queue_name c \<noteq> dead_letter_queue_name c" "task_queue_backend c = lit ''rabbitmq''"
    "1 \<le> rabbitmq_max_delivery_attempts c"
  using assms by (auto simp: queues_configured_def valid_settings_def)

lemma accounted_add: "accounted c s event \<Longrightarrow> accounted c (s(q := s q @ [b])) event"
  by (erule accounted_mono) (auto split: if_splits)

text \<open>Nothing happened to the queues, or one sound message was added.\<close>

definition adds :: "settings \<Rightarrow> stock \<Rightarrow> stock \<Rightarrow> bool" where
  "adds c s s' \<longleftrightarrow> s' = s \<or>
     (\<exists>q b. s' = s(q := s q @ [b]) \<and> attempts_ok c b \<and>
       q \<in> {event_queue_name c, retry_queue_name c, dead_letter_queue_name c})"

lemma adds_accounted: "adds c s s' \<Longrightarrow> accounted c s event \<Longrightarrow> accounted c s' event"
  by (auto simp: adds_def intro: accounted_add)

lemma adds_attempts:
  assumes "queues_configured c" and "adds c s s'"
    and "list_all (attempts_ok c)
      (s (event_queue_name c) @ s (retry_queue_name c) @ s (dead_letter_queue_name c))"
  shows "list_all (attempts_ok c)
    (s' (event_queue_name c) @ s' (retry_queue_name c) @ s' (dead_letter_queue_name c))"
  using assms queue_names(1-3) [OF assms(1)] by (auto simp: adds_def)

text \<open>Adding messages keeps the books; so does dropping one from the main queue for all other events.\<close>

lemma put_back:
  assumes "queues_configured c" and "books_balance c (t, s)" and "adds c s s'"
  shows "books_balance c (t, s')"
  using assms adds_attempts [OF assms(1,3)] adds_accounted [OF assms(3)]
  by (simp add: books_balance_def list_all_iff)

lemma taken_others:
  assumes "queues_configured c" and "accounted c s event" and "s (event_queue_name c) = b # bs"
    and "\<And>n. decode_payload b \<noteq> Inr (ev_id event, n)"
  shows "accounted c (s(event_queue_name c := bs)) event"
  using assms queue_names(1-3) [OF assms(1)]
  by (auto simp: accounted_def split: processing_status.splits)

lemma taken_attempts:
  assumes "queues_configured c" and "books_balance c (t, s)" and "s (event_queue_name c) = b # bs"
  shows "attempts_ok c b" and "list_all (attempts_ok c)
    (bs @ s (retry_queue_name c) @ s (dead_letter_queue_name c))"
  using assms by (simp_all add: books_balance_def)

lemma taken_unused:
  assumes "queues_configured c" and "books_balance c (t, s)" and "s (event_queue_name c) = b # bs"
    and "\<And>x n. x \<in> set t \<Longrightarrow> decode_payload b \<noteq> Inr (ev_id x, n)"
  shows "books_balance c (t, s(event_queue_name c := bs))"
  using assms(2,4) taken_others [where s = s, OF assms(1) _ assms(3)] taken_attempts(2) [OF assms(1-3)]
    queue_names(1-3) [OF assms(1)]
  by (auto simp: books_balance_def list_all_iff)

lemma replaced_rows:
  assumes "x \<in> set (replace_row t row)"
  shows "x = row \<or> x \<in> set t \<and> ev_id x \<noteq> ev_id row"
  using assms by (auto simp: replace_row_def)

text \<open>The books after a message was taken from the main queue and its event's row rewritten.\<close>

lemma taken_and_rewritten:
  assumes "queues_configured c" and "books_balance c (t, s)" and "s (event_queue_name c) = b # bs"
    and "decode_payload b = Inr (i, n)" and "find_event t i = Some event"
    and "ev_id row = ev_id event" and "delivery_id row = delivery_id event"
    and "adds c (s(event_queue_name c := bs)) s'"
    and "accounted c s' row"
  shows "books_balance c (replace_row t row, s')"
proof -
  let ?s = "s(event_queue_name c := bs)"
  note names = queue_names(1-3) [OF assms(1)]
  have i: "ev_id event = i" using find_event_Some_ev_id [OF assms(5)] by simp
  have "constraints (replace_row t row)"
    using assms(2,5-7) by (intro constraints_update) (simp_all add: books_balance_def)
  moreover have "accounted c s' x" if "x \<in> set t" "ev_id x \<noteq> ev_id row" for x
  proof -
    have "accounted c s x" using that assms(2) by (simp add: books_balance_def list_all_iff)
    then have "accounted c ?s x"
      using that assms(1,3,4,6) i by (intro taken_others) auto
    then show ?thesis by (rule adds_accounted [OF assms(8)])
  qed
  then have "list_all (accounted c s') (replace_row t row)"
    using assms(9) by (auto simp: list_all_iff dest!: replaced_rows)
  moreover have "list_all (attempts_ok c)
      (s' (event_queue_name c) @ s' (retry_queue_name c) @ s' (dead_letter_queue_name c))"
    using taken_attempts(2) [OF assms(1-3)] names by (intro adds_attempts [OF assms(1,8)]) auto
  ultimately show ?thesis by (simp add: books_balance_def)
qed

section \<open>One iteration of the worker\<close>

text \<open>
  How many iterations a message may still cost: one for each attempt left, and one more if it
  is already the last.
\<close>

definition weight :: "settings \<Rightarrow> bytes \<Rightarrow> nat" where
  "weight c b =
     (case decode_payload b of
        Inl _ \<Rightarrow> 1
      | Inr (i, n) \<Rightarrow> nat (rabbitmq_max_delivery_attempts c - n) + 1)"

definition load :: "settings \<Rightarrow> stock \<Rightarrow> nat" where
  "load c s = sum_list (map (weight c) (s (event_queue_name c) @ s (retry_queue_name c)))"

lemma weight_positive: "1 \<le> weight c b"
  by (simp add: weight_def split: sum.split)

lemma load_0: "load c s = 0 \<longleftrightarrow> s (event_queue_name c) = [] \<and> s (retry_queue_name c) = []"
proof -
  have "weight c b \<noteq> 0" for b using weight_positive [of c b] by simp
  then show ?thesis by (cases "s (event_queue_name c)"; cases "s (retry_queue_name c)") (simp_all add: load_def)
qed

text \<open>What one attempt does when nothing fails: the row, and the copy of the message if it failed.\<close>

lemma attempt_done:
  assumes "fault_free S shelf" and "queues_configured c" and "constraints (table w)"
    and "find_event (table w) i = Some event"
    and "1 \<le> n" and "n \<le> rabbitmq_max_delivery_attempts c"
  obtains row w1 w2 s where
    "process_event_by_id S i (rabbitmq_max_delivery_attempts c \<le> n) w = (Inr (processing_status row = PROCESSED), w1)"
    "(if processing_status row = PROCESSED then complete_event S \<lparr>env_event_id = i, env_attempt = n, env_raw_message = Some tag\<rparr>
      else io_then (retry_or_dead_letter S c \<lparr>env_event_id = i, env_attempt = n, env_raw_message = Some tag\<rparr>) (io_return ())) w1 = (Inr (), w2)"
    "table w2 = replace_row (table w) row" "ev_id row = ev_id event" "delivery_id row = delivery_id event"
    "adds c (shelf (ext w)) (shelf (ext w2))" "accounted c (shelf (ext w2)) row"
    "load c (shelf (ext w2)) \<le> load c (shelf (ext w)) + nat (rabbitmq_max_delivery_attempts c - n)"
proof -
  let ?max = "rabbitmq_max_delivery_attempts c"
  let ?env = "\<lparr>env_event_id = i, env_attempt = n, env_raw_message = Some tag\<rparr>"
  note names = queue_names(1-3) [OF assms(2)]
  have db: "reliable_db S" using assms(1) by (simp add: fault_free_def)
  have i: "ev_id event = i" using find_event_Some_ev_id [OF assms(4)] by simp
  obtain r w1 where run: "process_event_by_id S i (?max \<le> n) w = (r, w1)" by fastforce
  have s1: "shelf (ext w1) = shelf (ext w)" by (rule keepsD_run [OF stock_process [OF assms(1)] run])
  from db assms(3,4) run show thesis
  proof (cases rule: reliable_process_cases)
    case (processed now)
    let ?row = "completed now (attempted event)"
    obtain w2 where w2: "broker S (Ack tag) w1 = (Inr (), w2)" "stock shelf w2 = stock shelf w1"
      using ack_done [OF assms(1)] by blast
    show thesis
      by (rule that [of ?row w1 w2])
        (use processed run w2 s1 in \<open>simp_all add: completed_def attempted_def complete_event_def adds_def accounted_def\<close>)
  next
    case (failed data e)
    let ?row = "rejected (?max \<le> n) (exn_text S e) ((attempted event)\<lparr>payload := data\<rparr>)"
    have st: "processing_status ?row = (if n < ?max then PENDING else FAILED)" "ev_id ?row = i"
      using i by (simp_all add: rejected_def attempted_def)
    obtain b w2 action where re: "retry_or_dead_letter S c ?env w1 = (Inr action, w2)" "table w2 = table w1"
      "if n < ?max
       then decode_payload b = Inr (i, n + 1) \<and>
         shelf (ext w2) = (shelf (ext w1))(retry_queue_name c := shelf (ext w1) (retry_queue_name c) @ [b])
       else decode_payload b = Inr (i, n) \<and>
         shelf (ext w2) = (shelf (ext w1))(dead_letter_queue_name c := shelf (ext w1) (dead_letter_queue_name c) @ [b])"
      by (rule reroute_done [OF assms(1,2) refl assms(5,6)])
    have ok: "attempts_ok c b" using re(3) assms(5,6) by (auto simp: attempts_ok_def split: if_splits)
    have "adds c (shelf (ext w)) (shelf (ext w2))"
      using re(3) ok s1 by (auto simp: adds_def split: if_splits)
    moreover have "accounted c (shelf (ext w2)) ?row"
      using re(3) st names by (auto simp: accounted_def split: if_splits)
    moreover have "load c (shelf (ext w2)) \<le> load c (shelf (ext w)) + nat (?max - n)"
      using re(3) s1 names by (auto simp: load_def weight_def split: if_splits)
    ultimately show thesis
      using failed run re(1,2) st i
      by (intro that [of ?row w1 w2]) (simp_all add: rejected_def attempted_def split: if_splits)
  qed
qed

lemma missing_done:
  assumes "fault_free S shelf" and "find_event (table w) i = None"
  obtains w' where "process_event_by_id S i final w = (Inr True, w')" "stock shelf w' = stock shelf w"
proof -
  obtain x where x: "db_query S (db_open S (ext w)) = (Inr (), x)"
    using assms(1) unfolding fault_free_def reliable_db_def by blast
  have "process_event_by_id S i final w = (Inr True, w\<lparr>ext := x\<rparr>)"
    using x assms(2) by (simp add: process_event_by_id_run)
  moreover from this have "shelf x = shelf (ext w)"
    using keepsD_run [OF stock_process [OF assms(1)]] by fastforce
  ultimately show thesis by (intro that [of "w\<lparr>ext := x\<rparr>"]) simp_all
qed

text \<open>The iteration once the message of delivery \<open>n\<close> of event \<open>i\<close> was taken, up to its settlement.\<close>

definition settle :: "'x services \<Rightarrow> settings \<Rightarrow> queue_envelope \<Rightarrow> ('x world, unit) io" where
  "settle S c env =
     io_bind (process_event_by_id S (env_event_id env) (rabbitmq_max_delivery_attempts c \<le> env_attempt env))
       (\<lambda>handled. if handled then complete_event S env
          else io_then (retry_or_dead_letter S c env) (io_return ()))"

lemma worker_iteration_alt:
  "worker_iteration S c = io_bind (dequeue_event S c (worker_poll_timeout_seconds c))
     (\<lambda>r. case r of None \<Rightarrow> io_return () | Some env \<Rightarrow> settle S c env)"
  unfolding worker_iteration_def settle_def Let_def by (rule refl)

lemma settle_done:
  assumes "fault_free S shelf" and "queues_configured c" and "books_balance c (t, s)"
    and "s (event_queue_name c) = b # bs" and "decode_payload b = Inr (i, n)"
    and "table w = t" and "shelf (ext w) = s(event_queue_name c := bs)"
  obtains w' where
    "settle S c \<lparr>env_event_id = i, env_attempt = n, env_raw_message = Some tag\<rparr> w = (Inr (), w')"
    "books_balance c (stock shelf w')" "map ev_id (table w') = map ev_id t"
    "load c (shelf (ext w')) < load c s"
proof -
  let ?env = "\<lparr>env_event_id = i, env_attempt = n, env_raw_message = Some tag\<rparr>"
  let ?final = "rabbitmq_max_delivery_attempts c \<le> n"
  have n: "1 \<le> n" "n \<le> rabbitmq_max_delivery_attempts c"
    using taken_attempts(1) [OF assms(2-4)] assms(5) by (auto simp: attempts_ok_def)
  have load: "load c s = load c (shelf (ext w)) + nat (rabbitmq_max_delivery_attempts c - n) + 1"
    using assms(4,5,7) queue_names(1-3) [OF assms(2)] by (simp add: load_def weight_def)
  show thesis
  proof (cases "find_event t i")
    case None
    obtain w2 where p: "process_event_by_id S i ?final w = (Inr True, w2)" "stock shelf w2 = stock shelf w"
      using missing_done [OF assms(1)] None assms(6) by metis
    obtain w3 where w3: "broker S (Ack tag) w2 = (Inr (), w3)" "stock shelf w3 = stock shelf w2"
      using ack_done [OF assms(1)] by blast
    have "books_balance c (stock shelf w)"
      using taken_unused [OF assms(2-4)] None assms(5-7) by (auto simp: find_event_None)
    then show thesis
      using p w3 load assms(6) by (intro that [of w3]) (simp_all add: settle_def complete_event_def)
  next
    case (Some event)
    have "constraints (table w)" using assms(3,6) by (simp add: books_balance_def)
    from attempt_done [OF assms(1,2) this Some [folded assms(6)] n, of tag]
    obtain row w2 w3 where step:
      "process_event_by_id S i ?final w = (Inr (processing_status row = PROCESSED), w2)"
      "(if processing_status row = PROCESSED then complete_event S ?env
        else io_then (retry_or_dead_letter S c ?env) (io_return ())) w2 = (Inr (), w3)"
      "table w3 = replace_row (table w) row" "ev_id row = ev_id event" "delivery_id row = delivery_id event"
      "adds c (shelf (ext w)) (shelf (ext w3))" "accounted c (shelf (ext w3)) row"
      "load c (shelf (ext w3)) \<le> load c (shelf (ext w)) + nat (rabbitmq_max_delivery_attempts c - n)"
      by blast
    have "books_balance c (stock shelf w3)"
      using taken_and_rewritten [OF assms(2-5) Some step(4,5)] step(3,6,7) assms(6,7) by simp
    moreover have "map ev_id (table w3) = map ev_id t"
      using step(3,4) assms(6) by (simp add: replace_row_def)
    ultimately show thesis
      using step(1,2,8) load by (intro that [of w3]) (simp_all add: settle_def)
  qed
qed

lemma iteration_done:
  assumes "fault_free S shelf" and "queues_configured c" and "books_balance c (stock shelf w)"
  obtains w' where "worker_iteration S c w = (Inr (), w')" "books_balance c (stock shelf w')"
    "map ev_id (table w') = map ev_id (table w)"
    "load c (shelf (ext w')) < load c (shelf (ext w)) \<or>
     shelf (ext w) (event_queue_name c) = [] \<and> shelf (ext w') = shelf (ext w)"
proof (rule dequeue_done [OF assms(1) queue_names(4) [OF assms(2)],
    where w = w and t = "worker_poll_timeout_seconds c"])
  fix w1
  assume "shelf (ext w) (event_queue_name c) = []" "stock shelf w1 = stock shelf w"
    "dequeue_event S c (worker_poll_timeout_seconds c) w = (Inr None, w1)"
  with assms(3) show thesis by (intro that [of w1]) (simp_all add: worker_iteration_alt)
next
  fix b bs e w1
  assume bad: "shelf (ext w) (event_queue_name c) = b # bs" "decode_payload b = Inl e" "table w1 = table w"
    "shelf (ext w1) = (shelf (ext w))(event_queue_name c := bs)"
    "dequeue_event S c (worker_poll_timeout_seconds c) w = (Inr None, w1)"
  have "books_balance c (stock shelf w1)"
    using taken_unused [OF assms(2,3) bad(1)] bad(2-4) by simp
  moreover have "load c (shelf (ext w1)) < load c (shelf (ext w))"
    using bad queue_names(1) [OF assms(2)] by (simp add: load_def weight_def)
  ultimately show thesis using bad by (intro that [of w1]) (simp_all add: worker_iteration_alt)
next
  fix b bs i n tag w1
  let ?env = "\<lparr>env_event_id = i, env_attempt = n, env_raw_message = Some tag\<rparr>"
  assume got: "shelf (ext w) (event_queue_name c) = b # bs" "decode_payload b = Inr (i, n)"
    "table w1 = table w" "shelf (ext w1) = (shelf (ext w))(event_queue_name c := bs)"
    "dequeue_event S c (worker_poll_timeout_seconds c) w = (Inr (Some ?env), w1)"
  obtain w' where "settle S c ?env w1 = (Inr (), w')" "books_balance c (stock shelf w')"
    "map ev_id (table w') = map ev_id (table w)" "load c (shelf (ext w')) < load c (shelf (ext w))"
    by (rule settle_done [OF assms got(1-4)])
  with got(5) show thesis by (intro that [of w']) (simp_all add: worker_iteration_alt)
qed

section \<open>Requests\<close>

abbreviation balanced :: "settings \<Rightarrow> ('x \<Rightarrow> stock) \<Rightarrow> 'x world \<Rightarrow> bool" where
  "balanced c shelf w \<equiv> books_balance c (stock shelf w)"

lemma balanced_quiet: "keeps (stock shelf) m \<Longrightarrow> preserves (balanced c shelf) m"
  by (rule keeps_preserves)

lemma adds_first:
  assumes "queues_configured c" and "decode_payload b = Inr (i, 1)"
  shows "adds c s (s(event_queue_name c := s (event_queue_name c) @ [b]))"
proof -
  have "attempts_ok c b" using assms queue_names(5) [OF assms(1)] by (simp add: attempts_ok_def)
  then show ?thesis unfolding adds_def by blast
qed

lemma ask_returns:
  obtains v w' where "ask f w = (Inr v, w')"
  by (cases "f (ext w)") (simp add: ask_def)

lemma schedule_done:
  assumes "fault_free S shelf" and "queues_configured c"
  obtains b w' where "schedule_event S c i w = (Inr (), w')" "decode_payload b = Inr (i, 1)"
    "table w' = table w"
    "shelf (ext w') = (shelf (ext w))(event_queue_name c := shelf (ext w) (event_queue_name c) @ [b])"
proof -
  note names = queue_names [OF assms(2)]
  have "\<bar>1 :: int\<bar> < 10 ^ int_max_str_digits" by (rule small_attempt) simp
  then obtain b w' where "publish_to_rabbitmq S c i (event_queue_name c) 1 w = (Inr (), w')"
    "decode_payload b = Inr (i, 1)" "table w' = table w"
    "shelf (ext w') = (shelf (ext w))(event_queue_name c := shelf (ext w) (event_queue_name c) @ [b])"
    using publish_done [OF assms(1) names(4)] by metis
  with names(4) show thesis
    by (intro that [of w' b]) (simp_all add: schedule_event_def is_queue_enabled_def or_503_def enqueue_event_def)
qed

lemma balanced_schedule:
  assumes "fault_free S shelf" and "queues_configured c"
  shows "preserves (balanced c shelf) (schedule_event S c i)"
  unfolding preserves_def
proof (intro allI impI)
  fix w
  assume w: "balanced c shelf w"
  obtain b w' where "schedule_event S c i w = (Inr (), w')" "decode_payload b = Inr (i, 1)"
    "table w' = table w"
    "shelf (ext w') = (shelf (ext w))(event_queue_name c := shelf (ext w) (event_queue_name c) @ [b])"
    by (rule schedule_done [OF assms])
  moreover from this have "adds c (shelf (ext w)) (shelf (ext w'))"
    by (simp add: adds_first [OF assms(2)])
  ultimately show "balanced c shelf (snd (schedule_event S c i w))"
    using put_back [OF assms(2) w] by simp
qed

text \<open>Storing a new event either fails and changes nothing or adds a PENDING row and returns it.\<close>

lemma create_done:
  assumes "fault_free S shelf"
  obtains (refused) e w' where "create_event S dlv rid src etype data w = (Inl e, w')"
      "stock shelf w' = stock shelf w"
  | (created) event w' where "create_event S dlv rid src etype data w = (Inr event, w')"
      "table w' = table w @ [event]" "shelf (ext w') = shelf (ext w)" "constraints (table w')"
      "processing_status event = PENDING"
proof -
  obtain uid w1 where w1: "ask (uuid4 S) w = (Inr uid, w1)" by (rule ask_returns)
  obtain now w2 where w2: "ask (db_now S) w1 = (Inr now, w2)" by (rule ask_returns)
  have s2: "stock shelf w2 = stock shelf w"
    using keepsD_run [OF quiet_services(4) [OF assms] w1] keepsD_run [OF quiet_services(5) [OF assms] w2] by simp
  define event where "event = new_event uid now dlv rid src etype data"
  obtain r w3 where w3: "call (db_commit S (table w2 @ [event])) w2 = (r, w3)" by fastforce
  have s3: "stock shelf w3 = stock shelf w2" by (rule keepsD_run [OF quiet_services(7) [OF assms] w3])
  note run = create_event_def w1 w2 event_def [symmetric] Let_def insert_row_def commit_def w3
  show thesis
  proof (cases r)
    case (Inl e)
    obtain r4 w4 where w4: "call (db_rollback S) w3 = (r4, w4)" by fastforce
    have s4: "stock shelf w4 = stock shelf w3" by (rule keepsD_run [OF quiet_services(8) [OF assms] w4])
    obtain e' where "create_event S dlv rid src etype data w = (Inl e', w4)"
      using w4 Inl by (cases r4) (simp_all add: run io_bind_def io_catch_def)
    with s2 s3 s4 show thesis by (intro refused [of e' w4]) simp_all
  next
    case (Inr u)
    define w4 where "w4 = w3\<lparr>table := table w2 @ [event]\<rparr>"
    obtain x5 where q: "call (db_query S) w4 = (Inr (), x5)"
      by (rule never_raises [OF never_fails(3) [OF assms], where w = w4]) auto
    have s5: "stock shelf x5 = stock shelf w4" by (rule keepsD_run [OF quiet_services(6) [OF assms] q])
    have "create_event S dlv rid src etype data w = (Inr event, x5)"
      using q Inr by (simp add: run io_bind_def io_catch_def w4_def)
    moreover have "constraints (table w2 @ [event])"
    proof -
      have "fst (db_commit S (table w2 @ [event]) (ext w2)) = Inr ()"
        using w3 Inr by (auto simp: call_def split: prod.splits)
      then show ?thesis using assms by (auto simp: fault_free_def enforces_def)
    qed
    ultimately show thesis
      using s2 s3 s5 by (intro created [of event x5]) (simp_all add: w4_def event_def new_event_def)
  qed
qed

lemma balanced_intake:
  assumes "fault_free S shelf" and "queues_configured c"
  shows "preserves (balanced c shelf) (intake_new S c dlv rid data)"
  unfolding preserves_def
proof (intro allI impI)
  fix w
  assume w: "balanced c shelf w"
  let ?create = "create_event S dlv rid (in_source data) (in_event_type data) (in_payload data)"
  show "balanced c shelf (snd (intake_new S c dlv rid data w))"
  proof (rule create_done [OF assms(1), of dlv rid "in_source data" "in_event_type data" "in_payload data" w])
    fix e w1 assume "?create w = (Inl e, w1)" "stock shelf w1 = stock shelf w"
    with w show ?thesis by (simp add: intake_new_def)
  next
    fix event w1
    assume new: "?create w = (Inr event, w1)" "table w1 = table w @ [event]"
      "shelf (ext w1) = shelf (ext w)" "constraints (table w1)" "processing_status event = PENDING"
    obtain b w2 where sched: "schedule_event S c (ev_id event) w1 = (Inr (), w2)"
      "decode_payload b = Inr (ev_id event, 1)" "table w2 = table w1"
      "shelf (ext w2) = (shelf (ext w1))(event_queue_name c := shelf (ext w1) (event_queue_name c) @ [b])"
      by (rule schedule_done [OF assms])
    have adds: "adds c (shelf (ext w)) (shelf (ext w2))"
      using adds_first [OF assms(2) sched(2)] sched(4) new(3) by simp
    have "accounted c (shelf (ext w2)) event"
      using sched(2,4) new(5) by (simp add: accounted_def)
    then have "balanced c shelf w2"
      using put_back [OF assms(2) w adds] new(2,4) sched(3) by (simp add: books_balance_def)
    then show ?thesis using new(1) sched(1) by (simp add: intake_new_def set_metrics_run)
  qed
qed

section \<open>Redriving\<close>

text \<open>
  What the loop moves: the messages \<open>bs\<close> leave the dead-letter queue, and a first attempt goes to
  the main queue for each event they name, in order.
\<close>

fun named :: "bytes list \<Rightarrow> uuid list" where
  "named [] = []"
| "named (b # bs) = (case decode_payload b of Inl _ \<Rightarrow> named bs | Inr (i, n) \<Rightarrow> i # named bs)"

lemma message_for_named: "message_for i bs \<longleftrightarrow> i \<in> set (named bs)"
  by (induction bs) (auto split: sum.split)

definition first_attempts :: "bytes list \<Rightarrow> uuid list \<Rightarrow> bool" where
  "first_attempts bs ids \<longleftrightarrow> list_all2 (\<lambda>b i. decode_payload b = Inr (i, 1)) bs ids"

lemma first_attempts_named: "first_attempts bs ids \<Longrightarrow> named bs = ids"
  unfolding first_attempts_def by (induction rule: list_all2_induct) simp_all

lemma first_attempts_ok:
  assumes "queues_configured c" and "first_attempts bs ids"
  shows "list_all (attempts_ok c) bs"
  using assms(2) queue_names(5) [OF assms(1)] unfolding first_attempts_def
  by (induction rule: list_all2_induct) (simp_all add: attempts_ok_def)

definition moved :: "settings \<Rightarrow> bytes list \<Rightarrow> stock \<Rightarrow> stock \<Rightarrow> bool" where
  "moved c bs s s' \<longleftrightarrow> (\<exists>rest new.
     s (dead_letter_queue_name c) = bs @ rest \<and> first_attempts new (named bs) \<and>
     s' = s(dead_letter_queue_name c := rest, event_queue_name c := s (event_queue_name c) @ new))"

lemma moved_none: "moved c [] s s"
  by (auto simp: moved_def first_attempts_def)

lemma moved_malformed:
  assumes "queues_configured c" and "s (dead_letter_queue_name c) = b # bs'"
    and "decode_payload b = Inl e" and "moved c bs (s(dead_letter_queue_name c := bs')) s'"
  shows "moved c (b # bs) s s'"
  using assms(2-4) queue_names(1-3) [OF assms(1)] by (auto simp: moved_def)

lemma moved_republished:
  assumes "queues_configured c" and "s (dead_letter_queue_name c) = b # bs'"
    and "decode_payload b = Inr (i, n)" and "decode_payload b' = Inr (i, 1)"
    and "moved c bs ((s(dead_letter_queue_name c := bs'))
      (event_queue_name c := s (event_queue_name c) @ [b'])) s'"
  shows "moved c (b # bs) s s'"
proof -
  let ?dlq = "dead_letter_queue_name c" and ?main = "event_queue_name c"
  let ?s = "(s(?dlq := bs'))(?main := s ?main @ [b'])"
  have n: "?main \<noteq> ?dlq" by (rule queue_names(2) [OF assms(1)])
  obtain rest new where m: "?s ?dlq = bs @ rest" "s' = ?s(?dlq := rest, ?main := ?s ?main @ new)"
    "first_attempts new (named bs)"
    using assms(5) unfolding moved_def by blast
  have "s' = s(?dlq := rest, ?main := s ?main @ (b' # new))"
    using m(2) n by (auto simp: fun_eq_iff)
  moreover have "s ?dlq = (b # bs) @ rest" using m(1) n assms(2) by simp
  moreover have "first_attempts (b' # new) (named (b # bs))"
    using m(3) assms(3,4) by (simp add: first_attempts_def)
  ultimately show ?thesis unfolding moved_def by blast
qed

lemma redrive_loop_done:
  assumes "fault_free S shelf" and "queues_configured c"
  obtains bs w' where "redrive_loop S c n acc w = (Inr (acc @ named bs), w')" "table w' = table w"
    "moved c bs (shelf (ext w)) (shelf (ext w'))"
    "length bs = min n (length (shelf (ext w) (dead_letter_queue_name c)))"
proof -
  let ?dlq = "dead_letter_queue_name c"
  note names = queue_names [OF assms(2)]
  have "\<exists>bs w'. redrive_loop S c n acc w = (Inr (acc @ named bs), w') \<and> table w' = table w \<and>
    moved c bs (shelf (ext w)) (shelf (ext w')) \<and> length bs = min n (length (shelf (ext w) ?dlq))"
  proof (induction n arbitrary: acc w)
    case 0
    show ?case by (intro exI [of _ "[]"]) (simp add: moved_none)
  next
    case (Suc n)
    show ?case
    proof (rule take_done [OF assms(1), of w ?dlq 1])
      fix w1 assume "shelf (ext w) ?dlq = []" "take_message S ?dlq 1 w = (Inr None, w1)"
        "stock shelf w1 = stock shelf w"
      then show ?thesis by (intro exI [of _ "[]"] exI [of _ w1]) (simp add: moved_none)
    next
      fix b bs' tag w1
      assume took: "shelf (ext w) ?dlq = b # bs'" "take_message S ?dlq 1 w = (Inr (Some (tag, b)), w1)"
        "table w1 = table w" "shelf (ext w1) = (shelf (ext w))(?dlq := bs')"
      show ?thesis
      proof (cases "decode_payload b")
        case (Inl e)
        obtain w2 where w2: "broker S (Ack tag) w1 = (Inr (), w2)" "stock shelf w2 = stock shelf w1"
          using ack_done [OF assms(1)] by blast
        obtain bs w' where IH: "redrive_loop S c n acc w2 = (Inr (acc @ named bs), w')" "table w' = table w2"
          "moved c bs (shelf (ext w2)) (shelf (ext w'))" "length bs = min n (length (shelf (ext w2) ?dlq))"
          using Suc.IH [of acc w2] by blast
        then have "moved c (b # bs) (shelf (ext w)) (shelf (ext w'))"
          using w2(2) took(4) by (intro moved_malformed [where s = "shelf (ext w)", OF assms(2) took(1) Inl]) simp
        then show ?thesis using IH(1,2,4) w2 took Inl by (intro exI [of _ "b # bs"] exI [of _ w']) simp
      next
        case (Inr m)
        obtain i k where m: "m = (i, k)" by fastforce
        have "\<bar>1 :: int\<bar> < 10 ^ int_max_str_digits" by (rule small_attempt) simp
        then obtain b' w2 where w2: "publish_to_rabbitmq S c i (event_queue_name c) 1 w1 = (Inr (), w2)"
          "decode_payload b' = Inr (i, 1)" "table w2 = table w1"
          "shelf (ext w2) = (shelf (ext w1))(event_queue_name c := shelf (ext w1) (event_queue_name c) @ [b'])"
          using publish_done [OF assms(1) names(4)] by metis
        obtain w3 where w3: "broker S (Ack tag) w2 = (Inr (), w3)" "stock shelf w3 = stock shelf w2"
          using ack_done [OF assms(1)] by blast
        obtain bs w' where IH: "redrive_loop S c n (acc @ [i]) w3 = (Inr ((acc @ [i]) @ named bs), w')"
          "table w' = table w3" "moved c bs (shelf (ext w3)) (shelf (ext w'))"
          "length bs = min n (length (shelf (ext w3) ?dlq))"
          using Suc.IH [of "acc @ [i]" w3] by blast
        then have "moved c (b # bs) (shelf (ext w)) (shelf (ext w'))"
          using w2(4) w3(2) took(4) names(2)
          by (intro moved_republished [where s = "shelf (ext w)", OF assms(2) took(1) Inr [unfolded m] w2(2)]) simp
        moreover have "redrive_loop S c (Suc n) acc w = (Inr (acc @ named (b # bs)), w')"
          using IH(1) w2(1) w3(1) took(2) Inr m by simp
        ultimately show ?thesis using IH(2,4) w2(3,4) w3(2) took(1,3,4) names(2)
          by (intro exI [of _ "b # bs"] exI [of _ w']) simp
      qed
    qed
  qed
  then show thesis using that by blast
qed

lemma balanced_moved:
  assumes "queues_configured c" and "books_balance c (t, s)" and "moved c bs s s'"
  shows "books_balance c (mark_rows (named bs) t, s')"
proof -
  let ?main = "event_queue_name c" and ?dlq = "dead_letter_queue_name c" and ?retry = "retry_queue_name c"
  note names = queue_names(1-3) [OF assms(1)]
  let ?ids = "named bs"
  obtain rest new where m: "s ?dlq = bs @ rest" "first_attempts new ?ids"
    "s' = s(?dlq := rest, ?main := s ?main @ new)"
    using assms(3) unfolding moved_def by blast
  have new: "message_for i new \<longleftrightarrow> i \<in> set ?ids" for i
    by (simp add: message_for_named first_attempts_named [OF m(2)])
  have "accounted c s' (mark_row ?ids x)" if "x \<in> set t" for x
  proof -
    have x: "accounted c s x" using assms(2) that by (simp add: books_balance_def list_all_iff)
    show ?thesis
    proof (cases "ev_id x \<in> set ?ids \<and> processing_status x \<noteq> PROCESSED")
      case True
      then show ?thesis using m(3) new names by (simp add: accounted_def mark_row_def)
    next
      case False
      then have "mark_row ?ids x = x" by (auto simp: mark_row_def)
      moreover have "processing_status x = FAILED \<Longrightarrow> \<not> message_for (ev_id x) bs" using False by (simp add: message_for_named)
      ultimately show ?thesis
        using x m(1,3) names by (auto simp: accounted_def split: processing_status.splits)
    qed
  qed
  then have "list_all (accounted c s') (mark_rows ?ids t)"
    by (simp add: mark_rows_def list_all_iff)
  then show ?thesis
    using assms(2) m(1,3) first_attempts_ok [OF assms(1) m(2)] names
    by (simp add: books_balance_def constraints_mark)
qed

lemma mark_done:
  assumes "fault_free S shelf" and "constraints (table w)"
  obtains w' where "mark_events_pending S ids w = (Inr (), w')" "table w' = mark_rows ids (table w)"
    "shelf (ext w') = shelf (ext w)"
proof (cases "ids = []")
  case True
  have "mark_rows [] (table w) = table w" by (simp add: mark_rows_def mark_row_def map_idI)
  with True show thesis by (intro that [of w]) (simp_all add: mark_events_pending_def)
next
  case False
  obtain w1 where q: "call (db_query S) w = (Inr (), w1)"
    by (rule never_raises [OF never_fails(3) [OF assms(1)], where w = w]) auto
  have s1: "stock shelf w1 = stock shelf w" by (rule keepsD_run [OF quiet_services(6) [OF assms(1)] q])
  let ?t = "mark_rows ids (table w1)"
  have "constraints ?t" using s1 assms(2) by (simp add: constraints_mark)
  then obtain x where x: "db_commit S ?t (ext w1) = (Inr (), x)"
    using assms(1) unfolding fault_free_def reliable_db_def by blast
  then have c: "call (db_commit S ?t) w1 = (Inr (), w1\<lparr>ext := x\<rparr>)" by (simp add: call_def)
  have "shelf x = shelf (ext w1)" using keepsD_run [OF quiet_services(7) [OF assms(1)] c] by simp
  moreover have "mark_events_pending S ids w = (Inr (), w1\<lparr>ext := x, table := ?t\<rparr>)"
    using False q x by (simp add: mark_events_pending_def commit_run)
  ultimately show thesis using s1 by (intro that [of "w1\<lparr>ext := x, table := ?t\<rparr>"]) simp_all
qed

lemma redrive_done:
  assumes "fault_free S shelf" and "queues_configured c" and "constraints (table w)"
    and "1 \<le> limit" and "limit \<le> 100"
  obtains bs out w' where "redrive_dlq S c limit w = (Inr out, w')" "redriven_event_ids out = named bs"
    "table w' = mark_rows (named bs) (table w)" "moved c bs (shelf (ext w)) (shelf (ext w'))"
    "length bs = min (nat limit) (length (shelf (ext w) (dead_letter_queue_name c)))"
proof -
  let ?dlq = "dead_letter_queue_name c"
  note names = queue_names [OF assms(2)]
  obtain w1 where w1: "ensure_rabbitmq_topology S c w = (Inr (), w1)" "stock shelf w1 = stock shelf w"
    using topology_done [OF assms(1) names(4)] by blast
  obtain k w2 where k: "call (broker_count S ?dlq) w1 = (Inr k, w2)"
    using never_raises [OF never_fails(2) [OF assms(1)]] by metis
  have w2: "stock shelf w2 = stock shelf w"
    using keepsD_run [OF quiet_count [OF assms(1)] k] w1(2) by simp
  obtain bs w3 where w3: "redrive_loop S c (nat limit) [] w2 = (Inr ([] @ named bs), w3)"
    "table w3 = table w2" "moved c bs (shelf (ext w2)) (shelf (ext w3))"
    "length bs = min (nat limit) (length (shelf (ext w2) ?dlq))"
    by (rule redrive_loop_done [OF assms(1,2)])
  define w4 where "w4 = w3\<lparr>metrics := record_redrive (length (named bs)) (metrics w3)\<rparr>"
  have "redrive_dead_letter S c (nat limit) w = (Inr (named bs), w4)"
    using w1(1) k w3(1) names(4) by (simp add: redrive_dead_letter_def set_metrics_run w4_def)
  moreover have "constraints (table w4)" using assms(3) w2 w3(2) by (simp add: w4_def)
  then obtain w5 where w5: "mark_events_pending S (named bs) w4 = (Inr (), w5)"
    "table w5 = mark_rows (named bs) (table w4)" "shelf (ext w5) = shelf (ext w4)"
    by (rule mark_done [OF assms(1)])
  ultimately show thesis
    using assms(4,5) w2 w3(2-4)
    by (intro that [of "\<lparr>redrive_status = lit ''redrive_scheduled'', redriven_count = length (named bs),
        redriven_event_ids = named bs\<rparr>" w5 bs]) (simp_all add: redrive_dlq_def w4_def)
qed

lemma balanced_redrive:
  assumes "fault_free S shelf" and "queues_configured c"
  shows "preserves (balanced c shelf) (redrive_dlq S c limit)"
  unfolding preserves_def
proof (intro allI impI)
  fix w
  assume w: "balanced c shelf w"
  show "balanced c shelf (snd (redrive_dlq S c limit w))"
  proof (cases "1 \<le> limit \<and> limit \<le> 100")
    case True
    then have lim: "1 \<le> limit" "limit \<le> 100" by simp_all
    have "constraints (table w)" using w by (simp add: books_balance_def)
    from redrive_done [OF assms this lim] obtain bs out w' where
      "redrive_dlq S c limit w = (Inr out, w')" "table w' = mark_rows (named bs) (table w)"
      "moved c bs (shelf (ext w)) (shelf (ext w'))"
      by metis
    then show ?thesis using balanced_moved [OF assms(2) w] by simp
  next
    case False
    then have "redrive_dlq S c limit w = (Inl RequestValidationError, w)" by (simp add: redrive_dlq_def)
    with w show ?thesis by simp
  qed
qed

lemma balanced_handlers:
  assumes "fault_free S shelf" and "queues_configured c"
  shows "preserves (balanced c shelf) (receive_webhook S c hdrs body rid data)"
    "preserves (balanced c shelf) (retry_event S c i)"
  unfolding receive_webhook_alt retry_event_def Let_def
  by (intro pres_rules balanced_intake [OF assms] balanced_schedule [OF assms]
      balanced_quiet [OF quiet_handlers(1) [OF assms(1)]] balanced_quiet [OF keeps_stock_modify(1)]
      balanced_quiet [OF quiet_database(2) [OF assms(1)]] balanced_quiet [OF quiet_database(3) [OF assms(1)]])+

lemma balanced_endpoint:
  assumes "fault_free S shelf" and "queues_configured c"
  shows "preserves (balanced c shelf) (run_endpoint S c req rid)"
  unfolding run_endpoint_def guarded_def ready_def
  by (cases "req_endpoint req")
    (simp_all, (intro pres_rules balanced_handlers [OF assms] balanced_redrive [OF assms]
      quiet_handlers [OF assms(1), THEN balanced_quiet] quiet_services(14) [OF assms(1), THEN balanced_quiet])+)

lemma balanced_serve:
  assumes "fault_free S shelf" and "queues_configured c"
  shows "preserves (balanced c shelf) (serve S c req)"
proof -
  have "preserves (balanced c shelf) (exceptions_answered (run_endpoint S c req rid))" for rid
    unfolding exceptions_answered_def
    by (intro pres_rules balanced_endpoint [OF assms]) (auto split: exn.splits intro: pres_rules)
  then show ?thesis
    unfolding serve_def log_requests_def
    by (intro pres_rules quiet_middleware(1,2) [OF assms(1), THEN balanced_quiet]
        quiet_services(2) [OF assms(1), THEN balanced_quiet])
qed

section \<open>Runs without faults\<close>

text \<open>With a queue configured no request leaves a background task.\<close>

lemma tasks_schedule: "is_queue_enabled c \<Longrightarrow> keeps tasks (schedule_event S c i)"
  unfolding schedule_event_def or_503_def by simp (intro keeps_rules)

lemma tasks_endpoint:
  assumes "is_queue_enabled c"
  shows "keeps tasks (run_endpoint S c req rid)"
proof -
  have "keeps tasks (health S c)" "keeps tasks (receive_webhook S c hdrs body r data)"
    "keeps tasks (retry_event S c i)" "keeps tasks (redrive_dlq S c limit)"
    "keeps tasks (get_events S limit' offset src)" "keeps tasks (get_events_summary_out S c)"
    "keeps tasks (get_queue_stats S c)" for hdrs body r data i limit limit' offset src
    unfolding health_def health_of_queue_def dependency_state_def receive_webhook_def retry_event_def
      redrive_dlq_def get_events_def get_events_summary_out_def get_queue_stats_def
    by (intro keeps_rules tasks_lookups tasks_schedule [OF assms])+
  then show ?thesis
    unfolding run_endpoint_def guarded_def ready_def
    by (cases "req_endpoint req") (simp_all, (intro keeps_rules | assumption)+)
qed

lemma tasks_service:
  assumes "is_queue_enabled c"
  shows "keeps tasks (serve S c req)" "keeps tasks (worker_iteration S c)" "keeps tasks (poll_round S c)"
    "keeps tasks (startup S c)" "keeps tasks (shutdown S)"
proof -
  have "keeps tasks (exceptions_answered (run_endpoint S c req rid))" for rid
    unfolding exceptions_answered_def
    by (intro keeps_rules tasks_endpoint [OF assms]) (auto split: exn.splits intro: keeps_rules)
  then show "keeps tasks (serve S c req)"
    unfolding serve_def log_requests_def choose_request_id_def count_request_def
    by (intro keeps_rules)
  show "keeps tasks (worker_iteration S c)" "keeps tasks (poll_round S c)"
    "keeps tasks (startup S c)" "keeps tasks (shutdown S)"
    unfolding worker_iteration_def poll_round_def dependency_state_def startup_def shutdown_def
    by (intro keeps_rules tasks_lookups)+
qed

text \<open>
  The steps of the service (as in Lifecycle) when nothing fails. \<open>time\<close>: the delay of the \<open>k\<close>
  oldest messages of the retry queue is over and RabbitMQ moves them to the main queue, as the
  queue's arguments say (\<open>retry_queue_args\<close>); with \<open>k = 0\<close>, anything that moves no message.
\<close>

inductive smooth :: "'x services \<Rightarrow> settings \<Rightarrow> ('x \<Rightarrow> stock) \<Rightarrow> 'x world \<Rightarrow> 'x world \<Rightarrow> bool"
  for S c shelf where
  request: "smooth S c shelf w (snd (serve S c req w))"
| background: "smooth S c shelf w (snd (background_tasks S w))"
| worker: "smooth S c shelf w (snd (worker_iteration S c w))"
| poll: "smooth S c shelf w (snd (poll_round S c w))"
| start: "smooth S c shelf w (snd (startup S c w))"
| stop: "smooth S c shelf w (snd (shutdown S w))"
| restart: "smooth S c shelf w (restarted w)"
| time: "shelf x = (shelf (ext w))
    (event_queue_name c := shelf (ext w) (event_queue_name c) @ take k (shelf (ext w) (retry_queue_name c)),
     retry_queue_name c := drop k (shelf (ext w) (retry_queue_name c))) \<Longrightarrow>
    smooth S c shelf w (w\<lparr>ext := x\<rparr>)"

lemma balanced_time:
  assumes "queues_configured c" and "books_balance c (t, s)"
    and "s' = s(event_queue_name c := s (event_queue_name c) @ take k (s (retry_queue_name c)),
      retry_queue_name c := drop k (s (retry_queue_name c)))"
  shows "books_balance c (t, s')"
proof -
  note names = queue_names(1-3) [OF assms(1)]
  let ?r = "s (retry_queue_name c)"
  have r: "message_for i ?r \<longleftrightarrow> message_for i (take k ?r) \<or> message_for i (drop k ?r)" for i
    by (simp flip: message_for_simps(3))
  have "list_all (attempts_ok c) ?r \<longleftrightarrow> list_all (attempts_ok c) (take k ?r) \<and> list_all (attempts_ok c) (drop k ?r)"
    by (simp flip: list_all_append)
  moreover have "accounted c s' event = accounted c s event" for event
    using r names by (auto simp: accounted_def assms(3) split: processing_status.split)
  ultimately show ?thesis
    using assms(2) names by (auto simp: books_balance_def assms(3) list_all_iff)
qed

lemma smooth_balanced:
  assumes "fault_free S shelf" and "queues_configured c" and "smooth S c shelf w w'"
    and "balanced c shelf w \<and> tasks w = []"
  shows "balanced c shelf w' \<and> tasks w' = []"
proof -
  have q: "is_queue_enabled c" using queue_names(4) [OF assms(2)] by (simp add: is_queue_enabled_def)
  have b: "balanced c shelf w" and t: "tasks w = []" using assms(4) by simp_all
  show ?thesis
    using assms(3)
  proof cases
    case (request req)
    then show ?thesis
      using preservesD [OF balanced_serve [OF assms(1,2)] b] keepsD [OF tasks_service(1) [OF q, where S = S]] t by simp
  next
    case background
    have "background_tasks S w = (Inr (), w\<lparr>tasks := []\<rparr>)"
      using t by (simp add: background_tasks_def)
    with background b t show ?thesis by simp
  next
    case worker
    obtain w1 where "worker_iteration S c w = (Inr (), w1)" "balanced c shelf w1"
      by (rule iteration_done [OF assms(1,2) b])
    with worker show ?thesis using keepsD [OF tasks_service(2) [OF q, where S = S], of w] t by simp
  next
    case poll
    then show ?thesis
      using preservesD [OF balanced_quiet [OF quiet_handlers(6) [OF assms(1)]] b]
        keepsD [OF tasks_service(3) [OF q, where S = S]] t by simp
  next
    case start
    then show ?thesis
      using preservesD [OF balanced_quiet [OF quiet_middleware(3) [OF assms(1)]] b]
        keepsD [OF tasks_service(4) [OF q, where S = S]] t by simp
  next
    case stop
    then show ?thesis
      using preservesD [OF balanced_quiet [OF quiet_middleware(4) [OF assms(1)]] b]
        keepsD [OF tasks_service(5) [OF q, where S = S]] t by simp
  next
    case restart
    with b show ?thesis by (simp add: restarted_def)
  next
    case (time x k)
    with b t show ?thesis using balanced_time [OF assms(2)] by auto
  qed
qed

lemma reached_balanced:
  assumes "fault_free S shelf" and "queues_configured c"
    and "(smooth S c shelf)\<^sup>*\<^sup>* (init_world x) w" and "shelf x = (\<lambda>_. [])"
  shows "balanced c shelf w"
proof -
  have "balanced c shelf (init_world x) \<and> tasks (init_world x) = []"
    using assms(4) by (simp add: books_balance_def init_world_def constraints_def delivery_ids_simps)
  with assms(3) have "balanced c shelf w \<and> tasks w = []"
    by (induction rule: rtranclp_induct) (use smooth_balanced [OF assms(1,2)] in blast)+
  then show ?thesis by blast
qed

section \<open>The services of the examples\<close>

definition calm_shelf :: "calm_state \<Rightarrow> stock" where
  "calm_shelf x q = map (\<lambda>m. snd (snd m)) (filter (\<lambda>m. fst m = q) (mailbox x))"

lemma filter_remove1_first: "P m \<Longrightarrow> filter P xs = m # ms \<Longrightarrow> filter P (remove1 m xs) = ms"
  by (induction xs) (auto split: if_splits)

lemma filter_remove1_other: "\<not> P m \<Longrightarrow> filter P (remove1 m xs) = filter P xs"
  by (induction xs) auto

lemma calm_get_shelf:
  "case calm_shelf x q of
     [] \<Rightarrow> \<exists>x'. calm_get q x = (Inr None, x') \<and> calm_shelf x' = calm_shelf x
   | b # bs \<Rightarrow> \<exists>tag x'. calm_get q x = (Inr (Some (tag, b)), x') \<and> calm_shelf x' = (calm_shelf x)(q := bs)"
proof (cases "filter (\<lambda>m. fst m = q) (mailbox x)")
  case Nil
  then show ?thesis by (simp add: calm_shelf_def calm_get_def)
next
  case (Cons m ms)
  obtain tag b where m: "m = (q, tag, b)"
    using Cons by (metis (mono_tags, lifting) filter_eq_Cons_iff prod.collapse)
  let ?x = "x\<lparr>mailbox := remove1 m (mailbox x)\<rparr>"
  have "calm_get q x = (Inr (Some (tag, b)), ?x)" using Cons m by (simp add: calm_get_def)
  moreover have "calm_shelf ?x = (calm_shelf x)(q := map (\<lambda>m. snd (snd m)) ms)"
  proof
    fix p
    show "calm_shelf ?x p = ((calm_shelf x)(q := map (\<lambda>m. snd (snd m)) ms)) p"
      using filter_remove1_first [OF _ Cons] filter_remove1_other [of "\<lambda>m. fst m = p" m "mailbox x"] m
      by (cases "p = q") (simp_all add: calm_shelf_def)
  qed
  ultimately show ?thesis using Cons m by (simp add: calm_shelf_def)
qed

lemma calm_tick_shelf: "leaves calm_shelf calm_tick"
  by (simp add: leaves_def calm_tick_def calm_shelf_def fun_eq_iff)

lemma fault_free_calm: "fault_free calm calm_shelf"
proof -
  have "\<exists>x'. broker_do calm cmd x = (Inr (), x') \<and> calm_shelf x' = after_command cmd (calm_shelf x)" for cmd x
    by (cases cmd) (auto simp: calm_def calm_do_def calm_shelf_def fun_eq_iff)
  moreover have "case calm_shelf x q of
      [] \<Rightarrow> \<exists>x'. broker_get calm q t x = (Inr None, x') \<and> calm_shelf x' = calm_shelf x
    | b # bs \<Rightarrow> \<exists>tag x'. broker_get calm q t x = (Inr (Some (tag, b)), x') \<and>
        calm_shelf x' = (calm_shelf x)(q := bs)" for q t x
  proof -
    have "broker_get calm q t x = calm_get q x" by (simp add: calm_def)
    then show ?thesis using calm_get_shelf [of q x] by presburger
  qed
  ultimately have "broker_works calm calm_shelf"
    unfolding broker_works_def by (auto simp: calm_def)
  moreover have "others_leave calm calm_shelf"
    unfolding others_leave_def
    by (simp add: calm_def calm_tick_shelf) (simp add: leaves_def calm_shelf_def fun_eq_iff split: list.split)
  moreover have "enforces calm" by (simp add: enforces_def calm_def)
  ultimately show ?thesis by (simp add: fault_free_def reliable_calm)
qed

lemma configured_rabbitmq: "queues_configured rabbitmq_settings"
proof -
  have "(3 :: int) < 10 ^ int_max_str_digits" using small_attempt [of 3] by simp
  then show ?thesis
    by (simp add: queues_configured_def valid_settings_def rabbitmq_settings_def default_settings_def)
qed

section \<open>Properties\<close>

text \<open>
  C4: no event is stranded while nothing fails. In whatever order requests are served, the worker
  and the poller run, delays end, processes stop and come up again: every PENDING event has a
  message on the main or the retry queue and every FAILED one on the dead-letter queue.
\<close>

theorem no_event_is_stranded:
  assumes "fault_free S shelf" and "queues_configured c"
    and "shelf x = (\<lambda>_. [])" and "(smooth S c shelf)\<^sup>*\<^sup>* (init_world x) w"
  shows "\<forall>event \<in> set (table w). case processing_status event of
      PENDING \<Rightarrow> message_for (ev_id event)
        (shelf (ext w) (event_queue_name c) @ shelf (ext w) (retry_queue_name c))
    | FAILED \<Rightarrow> message_for (ev_id event) (shelf (ext w) (dead_letter_queue_name c))
    | PROCESSED \<Rightarrow> True"
  using reached_balanced [OF assms(1,2,4,3)]
  by (simp add: books_balance_def list_all_iff accounted_def)

definition queued_order :: "calm_state world" where
  "queued_order = snd (serve calm rabbitmq_settings order_request calm_start)"

lemma queued_order_reached:
  "(smooth calm rabbitmq_settings calm_shelf)\<^sup>*\<^sup>*
     (init_world \<lparr>ticks = 0, mailbox = [], redis_list = []\<rparr>) queued_order"
  unfolding queued_order_def calm_start_def by (rule r_into_rtranclp) (rule smooth.request)

lemma calm_shelf_start: "calm_shelf \<lparr>ticks = 0, mailbox = [], redis_list = []\<rparr> = (\<lambda>_. [])"
  by (simp add: calm_shelf_def fun_eq_iff)

theorem no_event_is_stranded_witness:
  "list_all (\<lambda>event. case processing_status event of
      PENDING \<Rightarrow> message_for (ev_id event)
        (calm_shelf (ext queued_order) (event_queue_name rabbitmq_settings) @
         calm_shelf (ext queued_order) (retry_queue_name rabbitmq_settings))
    | FAILED \<Rightarrow> message_for (ev_id event)
        (calm_shelf (ext queued_order) (dead_letter_queue_name rabbitmq_settings))
    | PROCESSED \<Rightarrow> True) (table queued_order)"
  unfolding list_all_iff
  by (rule no_event_is_stranded
      [OF fault_free_calm configured_rabbitmq calm_shelf_start queued_order_reached])

end
