(* ===== verification/Drain.thy ===== *)
theory Drain
  imports Flow
begin

text \<open>
  The worker over many rounds without faults: it empties the queues, and an event that fails for a
  while ends PROCESSED, if need be by way of the dead-letter queue and a redrive.
\<close>

section \<open>Draining the queues\<close>

text \<open>
  One round: the retry delay passes, which is what \<open>expire\<close> does to the services, and the worker
  makes an iteration.
\<close>

definition retry_delay :: "settings \<Rightarrow> ('x \<Rightarrow> stock) \<Rightarrow> ('x \<Rightarrow> 'x) \<Rightarrow> bool" where
  "retry_delay c shelf expire \<longleftrightarrow> (\<forall>x. shelf (expire x) = (shelf x)
     (event_queue_name c := shelf x (event_queue_name c) @ shelf x (retry_queue_name c),
      retry_queue_name c := []))"

fun rounds :: "'x services \<Rightarrow> settings \<Rightarrow> ('x \<Rightarrow> 'x) \<Rightarrow> nat \<Rightarrow> ('x world, unit) io" where
  "rounds S c expire 0 = io_return ()"
| "rounds S c expire (Suc n) =
     io_then (io_modify (\<lambda>w. w\<lparr>ext := expire (ext w)\<rparr>))
    (io_then (worker_iteration S c) (rounds S c expire n))"

lemma rounds_done:
  assumes "fault_free S shelf" and "queues_configured c" and "retry_delay c shelf expire"
    and "balanced c shelf w" and "load c (shelf (ext w)) \<le> n"
  shows "\<exists>w'. rounds S c expire n w = (Inr (), w') \<and> balanced c shelf w' \<and>
    load c (shelf (ext w')) = 0 \<and> map ev_id (table w') = map ev_id (table w)"
  using assms(4,5)
proof (induction n arbitrary: w)
  case 0
  then show ?case by simp
next
  case (Suc n)
  let ?main = "event_queue_name c" and ?retry = "retry_queue_name c"
  let ?w = "w\<lparr>ext := expire (ext w)\<rparr>" and ?s = "shelf (ext w)"
  note names = queue_names(1-3) [OF assms(2)]
  have s: "shelf (ext ?w) = ?s(?main := ?s ?main @ take (length (?s ?retry)) (?s ?retry),
      ?retry := drop (length (?s ?retry)) (?s ?retry))"
    using assms(3) by (simp add: retry_delay_def)
  have b: "balanced c shelf ?w"
    using balanced_time [OF assms(2) Suc.prems(1) s] by simp
  have l: "load c (shelf (ext ?w)) = load c ?s"
    using s names by (simp add: load_def)
  obtain w1 where w1: "worker_iteration S c ?w = (Inr (), w1)" "balanced c shelf w1"
    "map ev_id (table w1) = map ev_id (table ?w)"
    "load c (shelf (ext w1)) < load c (shelf (ext ?w)) \<or>
     shelf (ext ?w) ?main = [] \<and> shelf (ext w1) = shelf (ext ?w)"
    by (rule iteration_done [OF assms(1,2) b])
  have "shelf (ext ?w) ?retry = []" using s names by simp
  then have "load c (shelf (ext w1)) \<le> n" using w1(4) Suc.prems(2) l by (auto simp: load_def)
  from Suc.IH [OF w1(2) this] show ?case using w1(1,3) by simp
qed

lemma load_bound:
  assumes "queues_configured c" and "books_balance c (t, s)"
  shows "load c s \<le> nat (rabbitmq_max_delivery_attempts c) *
    (length (s (event_queue_name c)) + length (s (retry_queue_name c)))"
proof -
  let ?max = "rabbitmq_max_delivery_attempts c"
  have "weight c b \<le> nat ?max" if "attempts_ok c b" for b
    using that queue_names(5) [OF assms(1)] by (auto simp: weight_def attempts_ok_def split: sum.split)
  then have "sum_list (map (weight c) bs) \<le> nat ?max * length bs" if "list_all (attempts_ok c) bs" for bs
    using that by (induction bs) (auto intro: add_mono)
  from this [of "s (event_queue_name c) @ s (retry_queue_name c)"] show ?thesis
    using assms(2) by (simp add: load_def books_balance_def)
qed

section \<open>The course of one event\<close>

text \<open>
  The event \<open>i\<close> asks for \<open>k\<close> more transient failures, and the only message on the main and the
  retry queue is its delivery number \<open>n\<close>.
\<close>

definition counting_down :: "event \<Rightarrow> nat \<Rightarrow> bool" where
  "counting_down event k \<longleftrightarrow>
     dict_get (payload event) (lit ''fail_attempts_remaining'') = Some (JInt (int k)) \<and>
     \<not> force_failure (payload event)"

definition in_flight :: "settings \<Rightarrow> stock \<Rightarrow> uuid \<Rightarrow> int \<Rightarrow> bool" where
  "in_flight c s i n \<longleftrightarrow>
     (\<exists>b. s (event_queue_name c) @ s (retry_queue_name c) = [b] \<and> decode_payload b = Inr (i, n))"

definition idle :: "settings \<Rightarrow> stock \<Rightarrow> bool" where
  "idle c s \<longleftrightarrow> s (event_queue_name c) = [] \<and> s (retry_queue_name c) = []"

lemma single_attempt:
  assumes "fault_free S shelf" and "queues_configured c" and "constraints (table w)"
    and "shelf (ext w) (event_queue_name c) = [b]" and "shelf (ext w) (retry_queue_name c) = []"
    and "decode_payload b = Inr (i, n)" and "1 \<le> n" and "n \<le> rabbitmq_max_delivery_attempts c"
    and "find_event (table w) i = Some event" and "counting_down event k"
  obtains w' event' where "worker_iteration S c w = (Inr (), w')" "constraints (table w')"
    "find_event (table w') i = Some event'" "processing_attempts event' = processing_attempts event + 1"
    "if k = 0 then processing_status event' = PROCESSED \<and> idle c (shelf (ext w')) \<and>
       shelf (ext w') (dead_letter_queue_name c) = shelf (ext w) (dead_letter_queue_name c)
     else counting_down event' (k - 1) \<and>
       (if n < rabbitmq_max_delivery_attempts c
        then in_flight c (shelf (ext w')) i (n + 1) \<and>
          shelf (ext w') (dead_letter_queue_name c) = shelf (ext w) (dead_letter_queue_name c)
        else processing_status event' = FAILED \<and> idle c (shelf (ext w')) \<and>
          (\<exists>b'. shelf (ext w') (dead_letter_queue_name c) = shelf (ext w) (dead_letter_queue_name c) @ [b'] \<and>
            decode_payload b' = Inr (i, n)))"
proof -
  let ?main = "event_queue_name c" and ?max = "rabbitmq_max_delivery_attempts c"
  note names = queue_names [OF assms(2)]
  have db: "reliable_db S" using assms(1) by (simp add: fault_free_def)
  have i: "ev_id event = i" using find_event_Some_ev_id [OF assms(9)] by simp
  obtain tag w1 where got: "dequeue_event S c (worker_poll_timeout_seconds c) w = (Inr (Some
      \<lparr>env_event_id = i, env_attempt = n, env_raw_message = Some tag\<rparr>), w1)" "table w1 = table w"
      "shelf (ext w1) = (shelf (ext w))(?main := [])"
    by (rule dequeue_done [OF assms(1) names(4), where w = w and t = "worker_poll_timeout_seconds c"])
      (use assms(4,6) in auto)
  let ?env = "\<lparr>env_event_id = i, env_attempt = n, env_raw_message = Some tag\<rparr>"
  obtain r w2 where run: "process_event_by_id S i (?max \<le> n) w1 = (r, w2)" by fastforce
  have s2: "shelf (ext w2) = (shelf (ext w))(?main := [])"
    using keepsD_run [OF stock_process [OF assms(1)] run] got(3) by simp
  have c1: "constraints (table w1)" "find_event (table w1) i = Some event" using got(2) assms(3,9) by simp_all
  have k: "dict_get (payload event) (lit ''fail_attempts_remaining'') = Some (JInt (int k))"
    "\<not> force_failure (payload event)" using assms(10) by (simp_all add: counting_down_def)
  from db c1 run show thesis
  proof (cases rule: reliable_process_cases)
    case (processed now)
    let ?row = "completed now (attempted event)"
    have "k = 0" using processed(2) countdown(1) [OF k] by simp
    obtain w3 where w3: "broker S (Ack tag) w2 = (Inr (), w3)" "stock shelf w3 = stock shelf w2"
      using ack_done [OF assms(1)] by blast
    show thesis
      by (rule that [of w3 ?row])
        (use \<open>k = 0\<close> processed(1,3) got run w3 s2 assms(5) c1 i names constraints_update [OF c1, of ?row] in
          \<open>simp_all add: worker_iteration_def complete_event_def find_replaced idle_def\<close>,
         simp_all add: completed_def attempted_def)
  next
    case (failed data e)
    define row where "row = rejected (?max \<le> n) (exn_text S e) ((attempted event)\<lparr>payload := data\<rparr>)"
    have rowf: "ev_id row = ev_id event" "delivery_id row = delivery_id event"
      "processing_attempts row = processing_attempts event + 1" "payload row = data"
      "processing_status row = (if n < ?max then PENDING else FAILED)"
      by (simp_all add: row_def rejected_def attempted_def)
    have "k \<noteq> 0" using failed(2) countdown(1) [OF k] by simp
    have down: "counting_down row (k - 1)"
      using countdown(2) [OF k failed(3)] rowf(4) by (simp add: counting_down_def)
    obtain b' w3 action where re: "retry_or_dead_letter S c ?env w2 = (Inr action, w3)" "table w3 = table w2"
      "if n < ?max
       then decode_payload b' = Inr (i, n + 1) \<and>
         shelf (ext w3) = (shelf (ext w2))(retry_queue_name c := shelf (ext w2) (retry_queue_name c) @ [b'])
       else decode_payload b' = Inr (i, n) \<and>
         shelf (ext w3) = (shelf (ext w2))(dead_letter_queue_name c := shelf (ext w2) (dead_letter_queue_name c) @ [b'])"
      by (rule reroute_done [OF assms(1,2) refl assms(7,8)])
    have run3: "worker_iteration S c w = (Inr (), w3)"
      using got(1) run failed(1) re(1) by (simp add: worker_iteration_def io_bind_def)
    have t3: "table w3 = replace_row (table w1) row" using re(2) failed(4) by (simp add: row_def)
    then have "constraints (table w3)" "find_event (table w3) i = Some row"
      using constraints_update [OF c1 rowf(1,2)] find_replaced [OF c1(2) rowf(1), of i] by simp_all
    then show thesis
      using \<open>k \<noteq> 0\<close> re(3) s2 assms(5) names rowf(3,5) down
      by (intro that [OF run3, of row]) (auto simp: in_flight_def idle_def split: if_splits)
  qed
qed

text \<open>When the delay has passed, the message in flight is on the main queue.\<close>

lemma in_flight_expired:
  assumes "queues_configured c" and "retry_delay c shelf expire" and "in_flight c (shelf x) i n"
  obtains b where "shelf (expire x) (event_queue_name c) = [b]" "decode_payload b = Inr (i, n)"
    "shelf (expire x) (retry_queue_name c) = []"
    "shelf (expire x) (dead_letter_queue_name c) = shelf x (dead_letter_queue_name c)"
  using assms queue_names(1-3) [OF assms(1)] by (auto simp: retry_delay_def in_flight_def)

lemma course_succeeds:
  assumes "fault_free S shelf" and "queues_configured c" and "retry_delay c shelf expire"
    and "constraints (table w)" and "in_flight c (shelf (ext w)) i n" and "1 \<le> n"
    and "n + int k \<le> rabbitmq_max_delivery_attempts c"
    and "find_event (table w) i = Some event" and "counting_down event k"
  shows "\<exists>w' event'. rounds S c expire (k + 1) w = (Inr (), w') \<and>
    find_event (table w') i = Some event' \<and> processing_status event' = PROCESSED \<and>
    processing_attempts event' = processing_attempts event + int k + 1 \<and> idle c (shelf (ext w')) \<and>
    shelf (ext w') (dead_letter_queue_name c) = shelf (ext w) (dead_letter_queue_name c)"
  using assms(4-)
proof (induction k arbitrary: w n event)
  case 0
  let ?w = "w\<lparr>ext := expire (ext w)\<rparr>"
  obtain b where b: "shelf (ext ?w) (event_queue_name c) = [b]" "decode_payload b = Inr (i, n)"
    "shelf (ext ?w) (retry_queue_name c) = []"
    "shelf (ext ?w) (dead_letter_queue_name c) = shelf (ext w) (dead_letter_queue_name c)"
    using in_flight_expired [OF assms(2,3) 0(2)] by auto
  have pre: "constraints (table ?w)" "find_event (table ?w) i = Some event"
    "n \<le> rabbitmq_max_delivery_attempts c" using 0 by simp_all
  show ?case
    by (rule single_attempt [OF assms(1,2) pre(1) b(1,3,2) 0(3) pre(3,2) 0(6)]) (use b(4) in auto)
next
  case (Suc k)
  let ?w = "w\<lparr>ext := expire (ext w)\<rparr>"
  obtain b where b: "shelf (ext ?w) (event_queue_name c) = [b]" "decode_payload b = Inr (i, n)"
    "shelf (ext ?w) (retry_queue_name c) = []"
    "shelf (ext ?w) (dead_letter_queue_name c) = shelf (ext w) (dead_letter_queue_name c)"
    using in_flight_expired [OF assms(2,3) Suc.prems(2)] by auto
  have pre: "constraints (table ?w)" "find_event (table ?w) i = Some event"
    "n \<le> rabbitmq_max_delivery_attempts c" using Suc.prems by simp_all
  obtain w1 event1 where w1: "worker_iteration S c ?w = (Inr (), w1)" "constraints (table w1)"
    "find_event (table w1) i = Some event1" "processing_attempts event1 = processing_attempts event + 1"
    "counting_down event1 k" "in_flight c (shelf (ext w1)) i (n + 1)"
    "shelf (ext w1) (dead_letter_queue_name c) = shelf (ext w) (dead_letter_queue_name c)"
    by (rule single_attempt [OF assms(1,2) pre(1) b(1,3,2) Suc.prems(3) pre(3,2) Suc.prems(6)])
      (use b(4) Suc.prems(4) in auto)
  have "1 \<le> n + 1" "n + 1 + int k \<le> rabbitmq_max_delivery_attempts c" using Suc.prems(3,4) by simp_all
  from Suc.IH [OF w1(2,6) this w1(3,5)] show ?case
    using w1(1,4,7) by auto
qed

lemma course_dies:
  assumes "fault_free S shelf" and "queues_configured c" and "retry_delay c shelf expire"
    and "constraints (table w)" and "in_flight c (shelf (ext w)) i n" and "1 \<le> n"
    and "n + int m = rabbitmq_max_delivery_attempts c" and "m < k"
    and "find_event (table w) i = Some event" and "counting_down event k"
  shows "\<exists>w' event' b. rounds S c expire (m + 1) w = (Inr (), w') \<and> constraints (table w') \<and>
    find_event (table w') i = Some event' \<and> processing_status event' = FAILED \<and>
    processing_attempts event' = processing_attempts event + int m + 1 \<and>
    counting_down event' (k - m - 1) \<and> idle c (shelf (ext w')) \<and>
    shelf (ext w') (dead_letter_queue_name c) = shelf (ext w) (dead_letter_queue_name c) @ [b] \<and>
    decode_payload b = Inr (i, rabbitmq_max_delivery_attempts c)"
  using assms(4-)
proof (induction m arbitrary: w n k event)
  case 0
  let ?w = "w\<lparr>ext := expire (ext w)\<rparr>"
  obtain b where b: "shelf (ext ?w) (event_queue_name c) = [b]" "decode_payload b = Inr (i, n)"
    "shelf (ext ?w) (retry_queue_name c) = []"
    "shelf (ext ?w) (dead_letter_queue_name c) = shelf (ext w) (dead_letter_queue_name c)"
    using in_flight_expired [OF assms(2,3) 0(2)] by auto
  have pre: "constraints (table ?w)" "find_event (table ?w) i = Some event"
    "n \<le> rabbitmq_max_delivery_attempts c" using 0 by simp_all
  show ?case
    by (rule single_attempt [OF assms(1,2) pre(1) b(1,3,2) 0(3) pre(3,2) 0(7)]) (use b(4) 0(4,5) in auto)
next
  case (Suc m)
  let ?w = "w\<lparr>ext := expire (ext w)\<rparr>"
  obtain b where b: "shelf (ext ?w) (event_queue_name c) = [b]" "decode_payload b = Inr (i, n)"
    "shelf (ext ?w) (retry_queue_name c) = []"
    "shelf (ext ?w) (dead_letter_queue_name c) = shelf (ext w) (dead_letter_queue_name c)"
    using in_flight_expired [OF assms(2,3) Suc.prems(2)] by auto
  have pre: "constraints (table ?w)" "find_event (table ?w) i = Some event"
    "n \<le> rabbitmq_max_delivery_attempts c" using Suc.prems by simp_all
  obtain w1 event1 where w1: "worker_iteration S c ?w = (Inr (), w1)" "constraints (table w1)"
    "find_event (table w1) i = Some event1" "processing_attempts event1 = processing_attempts event + 1"
    "counting_down event1 (k - 1)" "in_flight c (shelf (ext w1)) i (n + 1)"
    "shelf (ext w1) (dead_letter_queue_name c) = shelf (ext w) (dead_letter_queue_name c)"
    by (rule single_attempt [OF assms(1,2) pre(1) b(1,3,2) Suc.prems(3) pre(3,2) Suc.prems(7)])
      (use b(4) Suc.prems(4,5) in auto)
  have "1 \<le> n + 1" "n + 1 + int m = rabbitmq_max_delivery_attempts c" "m < k - 1"
    using Suc.prems(3-5) by simp_all
  from Suc.IH [OF w1(2,6) this w1(3,5)] obtain w' event' b' where
    "rounds S c expire (m + 1) w1 = (Inr (), w')" "constraints (table w')"
    "find_event (table w') i = Some event'" "processing_status event' = FAILED"
    "processing_attempts event' = processing_attempts event1 + int m + 1"
    "counting_down event' (k - 1 - m - 1)" "idle c (shelf (ext w'))"
    "shelf (ext w') (dead_letter_queue_name c) = shelf (ext w1) (dead_letter_queue_name c) @ [b']"
    "decode_payload b' = Inr (i, rabbitmq_max_delivery_attempts c)"
    by metis
  then show ?case
    using w1(1,4,7) by (intro exI [of _ w'] exI [of _ event'] exI [of _ b']) simp
qed

lemma redrive_single:
  assumes "fault_free S shelf" and "queues_configured c" and "constraints (table w)"
    and "find_event (table w) i = Some event" and "counting_down event k" and "idle c (shelf (ext w))"
    and "shelf (ext w) (dead_letter_queue_name c) = [b]" and "decode_payload b = Inr (i, n)"
    and "1 \<le> limit" and "limit \<le> 100"
  obtains out w' row where "redrive_dlq S c limit w = (Inr out, w')" "redriven_event_ids out = [i]"
    "constraints (table w')" "find_event (table w') i = Some row" "counting_down row k"
    "processing_attempts row = processing_attempts event"
    "in_flight c (shelf (ext w')) i 1" "shelf (ext w') (dead_letter_queue_name c) = []"
proof -
  let ?main = "event_queue_name c" and ?dlq = "dead_letter_queue_name c"
  note names = queue_names(1-3) [OF assms(2)]
  obtain bs out w' where w': "redrive_dlq S c limit w = (Inr out, w')"
    "redriven_event_ids out = named bs" "table w' = mark_rows (named bs) (table w)"
    "moved c bs (shelf (ext w)) (shelf (ext w'))"
    "length bs = min (nat limit) (length (shelf (ext w) ?dlq))"
    by (rule redrive_done [OF assms(1,2,3,9,10)])
  have "bs = [b]" using w'(4,5) assms(7,9) by (auto simp: moved_def length_Suc_conv)
  then have ids: "named bs = [i]" using assms(8) by simp
  obtain b' where b': "decode_payload b' = Inr (i, 1)"
    "shelf (ext w') = (shelf (ext w))(?dlq := [], ?main := [b'])"
    using w'(4) assms(6,7) \<open>bs = [b]\<close> ids
    by (auto simp: moved_def first_attempts_def idle_def list_all2_Cons2)
  let ?row = "mark_row [i] event"
  have "find_event (table w') i = Some ?row" "constraints (table w')" "counting_down ?row k"
    using assms(3-5) w'(3) ids
    by (simp_all add: find_event_mark constraints_mark) (simp add: counting_down_def mark_row_def)
  moreover have "in_flight c (shelf (ext w')) i 1" "shelf (ext w') ?dlq = []"
    using b' assms(6) names by (simp_all add: in_flight_def idle_def)
  moreover have "processing_attempts ?row = processing_attempts event" by (simp add: mark_row_def)
  ultimately show thesis using w'(1,2) ids by (intro that [of out w' ?row]) simp_all
qed

section \<open>The retry delay in the examples\<close>

definition calm_expire :: "settings \<Rightarrow> calm_state \<Rightarrow> calm_state" where
  "calm_expire c x = x\<lparr>mailbox := filter (\<lambda>m. fst m \<noteq> retry_queue_name c) (mailbox x) @
     map (\<lambda>m. (event_queue_name c, snd m)) (filter (\<lambda>m. fst m = retry_queue_name c) (mailbox x))\<rparr>"

lemma calm_retry_delay: "retry_delay rabbitmq_settings calm_shelf (calm_expire rabbitmq_settings)"
  using queue_names(1) [OF configured_rabbitmq]
  by (auto simp: retry_delay_def calm_shelf_def calm_expire_def fun_eq_iff filter_map o_def
      intro!: arg_cong [where f = "map f" for f] filter_cong)

section \<open>Properties\<close>

text \<open>
  C6: the worker empties the queues. From any state reached without faults, when the maximum of
  attempts times the number of waiting messages many rounds have passed, the main and the retry
  queue are empty, no event is lost or added, and every event is PROCESSED, or FAILED with a
  message on the dead-letter queue.
\<close>

theorem worker_drains_the_queues:
  assumes "fault_free S shelf" and "queues_configured c" and "retry_delay c shelf expire"
    and "shelf x = (\<lambda>_. [])" and "(smooth S c shelf)\<^sup>*\<^sup>* (init_world x) w"
    and "nat (rabbitmq_max_delivery_attempts c) * (length (shelf (ext w) (event_queue_name c)) +
      length (shelf (ext w) (retry_queue_name c))) \<le> n"
  shows "\<exists>w'. rounds S c expire n w = (Inr (), w') \<and>
    shelf (ext w') (event_queue_name c) = [] \<and> shelf (ext w') (retry_queue_name c) = [] \<and>
    map ev_id (table w') = map ev_id (table w) \<and>
    (\<forall>event \<in> set (table w'). processing_status event = PROCESSED \<or>
      processing_status event = FAILED \<and>
        message_for (ev_id event) (shelf (ext w') (dead_letter_queue_name c)))"
proof -
  have b: "balanced c shelf w" by (rule reached_balanced [OF assms(1,2,5,4)])
  then have "load c (shelf (ext w)) \<le> n"
    using load_bound [OF assms(2) b] assms(6) by linarith
  then obtain w' where w': "rounds S c expire n w = (Inr (), w')" "balanced c shelf w'"
    "load c (shelf (ext w')) = 0" "map ev_id (table w') = map ev_id (table w)"
    using rounds_done [OF assms(1-3) b] by blast
  have empty: "shelf (ext w') (event_queue_name c) = []" "shelf (ext w') (retry_queue_name c) = []"
    using w'(3) by (simp_all add: load_0)
  have "processing_status event = PROCESSED \<or> processing_status event = FAILED \<and>
      message_for (ev_id event) (shelf (ext w') (dead_letter_queue_name c))"
    if "event \<in> set (table w')" for event
  proof -
    have "accounted c (shelf (ext w')) event"
      using w'(2) that by (simp add: books_balance_def list_all_iff)
    then show ?thesis
      using empty by (cases "processing_status event") (simp_all add: accounted_def)
  qed
  with w' empty show ?thesis by blast
qed

theorem worker_drains_the_queues_witness:
  "\<exists>n w'. rounds calm rabbitmq_settings (calm_expire rabbitmq_settings) n queued_order = (Inr (), w') \<and>
    calm_shelf (ext w') (event_queue_name rabbitmq_settings) = [] \<and>
    calm_shelf (ext w') (retry_queue_name rabbitmq_settings) = [] \<and>
    map ev_id (table w') = map ev_id (table queued_order) \<and>
    list_all (\<lambda>event. processing_status event = PROCESSED \<or>
      processing_status event = FAILED \<and>
        message_for (ev_id event) (calm_shelf (ext w') (dead_letter_queue_name rabbitmq_settings))) (table w')"
  unfolding list_all_iff
  by (rule exI) (rule worker_drains_the_queues [OF fault_free_calm configured_rabbitmq calm_retry_delay
      calm_shelf_start queued_order_reached order_refl])

text \<open>
  C9: what the smoke check stages, for any number of failures. An event that asks for \<open>k\<close>
  transient failures, fewer than the attempts allowed, is PROCESSED after \<open>k + 1\<close> rounds. With
  \<open>k\<close> below twice that number, it is dead-lettered and FAILED when the attempts are used up,
  POST /queue/dlq/redrive names it, and the rounds that its remaining failures take make it
  PROCESSED. Either way the row counts \<open>k + 1\<close> attempts and the queues are empty in the end.
\<close>

theorem dead_letter_redrive_recovers:
  assumes "fault_free S shelf" and "queues_configured c" and "retry_delay c shelf expire"
    and "constraints (table w)" and "in_flight c (shelf (ext w)) i 1"
    and "shelf (ext w) (dead_letter_queue_name c) = []"
    and "find_event (table w) i = Some event" and "counting_down event k"
    and "int k < 2 * rabbitmq_max_delivery_attempts c" and "1 \<le> limit" and "limit \<le> 100"
  shows "if int k < rabbitmq_max_delivery_attempts c
    then \<exists>w' event'. rounds S c expire (k + 1) w = (Inr (), w') \<and>
      find_event (table w') i = Some event' \<and> processing_status event' = PROCESSED \<and>
      processing_attempts event' = processing_attempts event + int k + 1 \<and>
      idle c (shelf (ext w')) \<and> shelf (ext w') (dead_letter_queue_name c) = []
    else \<exists>w1 failed out w2 w3 event'. let m = nat (rabbitmq_max_delivery_attempts c) in
      rounds S c expire m w = (Inr (), w1) \<and>
      find_event (table w1) i = Some failed \<and> processing_status failed = FAILED \<and>
      redrive_dlq S c limit w1 = (Inr out, w2) \<and> redriven_event_ids out = [i] \<and>
      rounds S c expire (k - m + 1) w2 = (Inr (), w3) \<and>
      find_event (table w3) i = Some event' \<and> processing_status event' = PROCESSED \<and>
      processing_attempts event' = processing_attempts event + int k + 1 \<and>
      idle c (shelf (ext w3)) \<and> shelf (ext w3) (dead_letter_queue_name c) = []"
proof (cases "int k < rabbitmq_max_delivery_attempts c")
  case True
  then have "(1 :: int) \<le> 1" "1 + int k \<le> rabbitmq_max_delivery_attempts c" by simp_all
  from course_succeeds [OF assms(1-5) this assms(7,8)] show ?thesis using True assms(6) by simp
next
  case False
  define m where "m = nat (rabbitmq_max_delivery_attempts c)"
  have m: "rabbitmq_max_delivery_attempts c = int m" "1 \<le> m"
    using queue_names(5) [OF assms(2)] by (simp_all add: m_def)
  have "1 + int (m - 1) = rabbitmq_max_delivery_attempts c" "m - 1 < k" "(1 :: int) \<le> 1"
    using m False by auto
  from course_dies [OF assms(1-5) this(3,1,2) assms(7,8)] obtain w1 failed b where w1:
    "rounds S c expire m w = (Inr (), w1)" "constraints (table w1)"
    "find_event (table w1) i = Some failed" "processing_status failed = FAILED"
    "processing_attempts failed = processing_attempts event + int m" "counting_down failed (k - m)"
    "idle c (shelf (ext w1))" "shelf (ext w1) (dead_letter_queue_name c) = [b]"
    "decode_payload b = Inr (i, int m)"
    using m assms(6) by (auto simp: of_nat_diff)
  obtain out w2 row where w2: "redrive_dlq S c limit w1 = (Inr out, w2)" "redriven_event_ids out = [i]"
    "constraints (table w2)" "find_event (table w2) i = Some row" "counting_down row (k - m)"
    "processing_attempts row = processing_attempts failed"
    "in_flight c (shelf (ext w2)) i 1" "shelf (ext w2) (dead_letter_queue_name c) = []"
    by (rule redrive_single [OF assms(1,2) w1(2,3,6,7,8,9) assms(10,11)])
  have "(1 :: int) \<le> 1" "1 + int (k - m) \<le> rabbitmq_max_delivery_attempts c"
    using m False assms(9) by auto
  then obtain w3 event' where
    "rounds S c expire (k - m + 1) w2 = (Inr (), w3)" "find_event (table w3) i = Some event'"
    "processing_status event' = PROCESSED"
    "processing_attempts event' = processing_attempts row + int (k - m) + 1"
    "idle c (shelf (ext w3))" "shelf (ext w3) (dead_letter_queue_name c) = []"
    using course_succeeds [OF assms(1-3) w2(3,7) _ _ w2(4,5)] w2(8) by metis
  then show ?thesis
    using w1(1,3,4,5) w2(1,2,6) m False
    unfolding Let_def m_def [symmetric] by (auto simp: of_nat_diff)
qed

text \<open>An event that asks for four failures where three attempts are allowed, on its way.\<close>

definition stubborn_event :: event where
  "stubborn_event = new_event 5 0 None None (lit ''s'') (lit ''t'')
     [(lit ''fail_attempts_remaining'', JInt 4)]"

theorem dead_letter_redrive_recovers_witness:
  "\<exists>body w1 failed out w2 w3 event'.
    rounds calm rabbitmq_settings (calm_expire rabbitmq_settings) 3
      ((one_message body)\<lparr>table := [stubborn_event]\<rparr>) = (Inr (), w1) \<and>
    find_event (table w1) 5 = Some failed \<and> processing_status failed = FAILED \<and>
    redrive_dlq calm rabbitmq_settings 10 w1 = (Inr out, w2) \<and> redriven_event_ids out = [5] \<and>
    rounds calm rabbitmq_settings (calm_expire rabbitmq_settings) 2 w2 = (Inr (), w3) \<and>
    find_event (table w3) 5 = Some event' \<and> processing_status event' = PROCESSED \<and>
    processing_attempts event' = 5"
proof -
  let ?c = rabbitmq_settings
  obtain body where b: "decode_payload body = Inr (5, 1)"
    using queue_payload_total [OF small_attempt [of 1], of 5] by (auto dest: decode_queue_payload)
  let ?w = "(one_message body)\<lparr>table := [stubborn_event]\<rparr>"
  have max: "rabbitmq_max_delivery_attempts ?c = 3"
    by (simp add: rabbitmq_settings_def default_settings_def)
  have flight: "in_flight ?c (calm_shelf (ext ?w)) 5 1"
    "calm_shelf (ext ?w) (dead_letter_queue_name ?c) = []"
    using b queue_names(1,2) [OF configured_rabbitmq]
    by (simp_all add: in_flight_def one_message_def calm_shelf_def)
  have row: "constraints (table ?w)" "find_event (table ?w) 5 = Some stubborn_event"
    "counting_down stubborn_event 4" "processing_attempts stubborn_event = 0"
    by (simp_all add: constraints_def stubborn_event_def new_event_def counting_down_def
        dict_get_def force_failure_def)
  have "int 4 < 2 * rabbitmq_max_delivery_attempts ?c" "(1 :: int) \<le> 10" "(10 :: int) \<le> 100"
    by (simp_all add: max)
  note run = dead_letter_redrive_recovers [OF fault_free_calm configured_rabbitmq calm_retry_delay
      row(1) flight row(2,3) this]
  from run obtain w1 failed out w2 w3 event' where
    "rounds calm ?c (calm_expire ?c) 3 ?w = (Inr (), w1)" "find_event (table w1) 5 = Some failed"
    "processing_status failed = FAILED" "redrive_dlq calm ?c 10 w1 = (Inr out, w2)"
    "redriven_event_ids out = [5]" "rounds calm ?c (calm_expire ?c) 2 w2 = (Inr (), w3)"
    "find_event (table w3) 5 = Some event'" "processing_status event' = PROCESSED"
    "processing_attempts event' = 5"
    using row(4) by (auto simp: max Let_def eval_nat_numeral simp del: rounds.simps)
  then show ?thesis by blast
qed

end
