(* ===== verification/RedisFlow.thy ===== *)
theory RedisFlow
  imports Flow
begin

text \<open>
  The worker on Redis: a message carries no attempt number, so every delivery counts as the first.
\<close>

text \<open>
  A Redis server that works: \<open>line x\<close> is the list of the main queue, left end first. RPUSH appends
  to it, BLPOP takes from its left end, and no call of the processor moves it.
\<close>

definition redis_works :: "'x services \<Rightarrow> settings \<Rightarrow> ('x \<Rightarrow> pystr list) \<Rightarrow> bool" where
  "redis_works S c line \<longleftrightarrow>
     redis_installed S \<and> processing_leaves S line \<and>
     (\<forall>x. \<exists>x'. broker_do S (RedisFromUrl (redis_url c)) x = (Inr (), x') \<and> line x' = line x) \<and>
     (\<forall>v x. \<exists>x'. broker_do S (RedisPush (event_queue_name c) v) x = (Inr (), x') \<and>
        line x' = line x @ [v]) \<and>
     (\<forall>t x v vs. line x = v # vs \<longrightarrow>
        (\<exists>x'. redis_blpop S (event_queue_name c) t x = (Inr (Some v), x') \<and> line x' = vs))"

text \<open>A payload at which every attempt fails.\<close>

definition never_passes :: "dict \<Rightarrow> bool" where
  "never_passes data \<longleftrightarrow> force_failure data \<and> (\<exists>n \<le> 0. remaining_failures data = Inr n)"

lemma client_done:
  assumes "redis_works S c line" and "task_queue_backend c = lit ''redis''"
  obtains w' where "get_queue_client S c w = (Inr (), w')" "table w' = table w" "line (ext w') = line (ext w)"
proof (cases "redis_client (qmod w)")
  case True
  with assms(2) show thesis by (intro that [of w]) (simp_all add: get_queue_client_def)
next
  case False
  obtain x' where "broker_do S (RedisFromUrl (redis_url c)) (ext w) = (Inr (), x')" "line x' = line (ext w)"
    using assms(1) unfolding redis_works_def by blast
  moreover from this False assms have "\<exists>w'. get_queue_client S c w = (Inr (), w') \<and> table w' = table w \<and>
      ext w' = x'"
    by (simp add: get_queue_client_def redis_works_def broker_run set_qmod_def io_bind_def)
  ultimately show thesis using that by blast
qed

lemma push_done:
  assumes "redis_works S c line" and "task_queue_backend c = lit ''redis''"
  obtains w' where "enqueue_event S c i n w = (Inr (), w')" "table w' = table w"
    "line (ext w') = line (ext w) @ [uuid_str i]"
proof -
  let ?push = "RedisPush (event_queue_name c) (uuid_str i)"
  obtain w1 where w1: "get_queue_client S c w = (Inr (), w1)" "table w1 = table w"
    "line (ext w1) = line (ext w)"
    by (rule client_done [OF assms])
  obtain x' where x': "broker_do S ?push (ext w1) = (Inr (), x')" "line x' = line (ext w1) @ [uuid_str i]"
    using assms(1) unfolding redis_works_def by blast
  then have "broker S ?push w1 = (Inr (), w1\<lparr>ext := x', trace := trace w1 @ [Done ?push]\<rparr>)"
    by (simp add: broker_run)
  with w1 x' assms(2) show thesis
    by (intro that [of "w1\<lparr>ext := x', trace := trace w1 @ [Done ?push]\<rparr>"]) (simp_all add: enqueue_event_def)
qed

lemma redis_iteration:
  assumes "redis_works S c line" and "reliable_db S" and "task_queue_backend c = lit ''redis''"
    and "constraints (table w)" and "find_event (table w) i = Some event"
    and "never_passes (payload event)" and "line (ext w) = [uuid_str i]"
  obtains w' event' where "worker_iteration S c w = (Inr (), w')" "constraints (table w')"
    "find_event (table w') i = Some event'" "payload event' = payload event"
    "processing_attempts event' = processing_attempts event + 1"
    "processing_status event' = (if rabbitmq_max_delivery_attempts c \<le> 1 then FAILED else PENDING)"
    "line (ext w') = [uuid_str i]"
proof -
  let ?t = "worker_poll_timeout_seconds c" and ?final = "rabbitmq_max_delivery_attempts c \<le> 1"
  let ?env = "\<lparr>env_event_id = i, env_attempt = 1, env_raw_message = None\<rparr>"
  obtain w1 where w1: "get_queue_client S c w = (Inr (), w1)" "table w1 = table w"
    "line (ext w1) = line (ext w)"
    by (rule client_done [OF assms(1,3)])
  obtain x' where x': "redis_blpop S (event_queue_name c) ?t (ext w1) = (Inr (Some (uuid_str i)), x')"
    "line x' = []"
    using assms(1,7) w1(3) unfolding redis_works_def by metis
  define w2 where "w2 = w1\<lparr>ext := x', trace := trace w1 @ [Popped (event_queue_name c) (uuid_str i)]\<rparr>"
  have deq: "dequeue_event S c ?t w = (Inr (Some ?env), w2)"
    using w1(1) x'(1) assms(3)
    by (simp add: dequeue_event_def pop_redis_def call_def log_effect_def io_bind_def w2_def parse_uuid_str)
  have w2: "table w2 = table w" "line (ext w2) = []" using w1(2) x'(2) by (simp_all add: w2_def)
  have c2: "constraints (table w2)" "find_event (table w2) i = Some event" using w2(1) assms(4,5) by simp_all
  obtain r w3 where run: "process_event_by_id S i ?final w2 = (r, w3)" by fastforce
  have "processing_leaves S line" using assms(1) by (simp add: redis_works_def)
  then have l3: "line (ext w3) = []" using keepsD_run [OF keeps_processing run, of line] w2(2) by simp
  from assms(2) c2 run show thesis
  proof (cases rule: reliable_process_cases)
    case (processed now)
    with assms(6) show thesis by (simp add: will_pass_def never_passes_def)
  next
    case (failed data e)
    define row where "row = rejected ?final (exn_text S e) ((attempted event)\<lparr>payload := data\<rparr>)"
    have "data = payload event" using failed(3) assms(6) by (auto simp: attempt_failure_def never_passes_def)
    then have row: "ev_id row = ev_id event" "delivery_id row = delivery_id event"
      "payload row = payload event" "processing_attempts row = processing_attempts event + 1"
      "processing_status row = (if ?final then FAILED else PENDING)"
      by (simp_all add: row_def rejected_def attempted_def)
    obtain w4 where w4: "enqueue_event S c i 1 w3 = (Inr (), w4)" "table w4 = table w3"
      "line (ext w4) = line (ext w3) @ [uuid_str i]"
      by (rule push_done [OF assms(1,3)])
    have "worker_iteration S c w = (Inr (), w4)"
      using deq run failed(1) w4(1) assms(3)
      by (simp add: worker_iteration_def retry_or_dead_letter_def io_bind_def)
    moreover have "constraints (table w4)" "find_event (table w4) i = Some row"
      using failed(4) w4(2) constraints_update [OF c2 row(1,2)] find_replaced [OF c2(2) row(1), of i]
      by (simp_all add: row_def)
    ultimately show thesis using row(3-5) w4(3) l3 by (intro that) simp_all
  qed
qed

text \<open>
  C13: on Redis a failing event is retried without end. However often the worker has looped, with
  services in which nothing fails, an event at which every attempt fails is back in the list, with
  one more attempt counted per iteration: the maximum of attempts never ends it, no dead-letter
  queue takes it, and it stays PENDING (if the maximum is 1, it is FAILED and still retried).
\<close>

theorem redis_retries_forever:
  assumes "redis_works S c line" and "reliable_db S" and "task_queue_backend c = lit ''redis''"
    and "constraints (table w)" and "find_event (table w) i = Some event"
    and "never_passes (payload event)" and "line (ext w) = [uuid_str i]"
  shows "\<exists>w' event'. worker_loop S c n w = (Inr (), w') \<and> find_event (table w') i = Some event' \<and>
    processing_attempts event' = processing_attempts event + int n \<and> line (ext w') = [uuid_str i] \<and>
    (0 < n \<longrightarrow> processing_status event' =
      (if rabbitmq_max_delivery_attempts c \<le> 1 then FAILED else PENDING))"
  using assms(4-)
proof (induction n arbitrary: w event)
  case 0
  then show ?case by simp
next
  case (Suc n)
  obtain w1 event1 where w1: "worker_iteration S c w = (Inr (), w1)" "constraints (table w1)"
    "find_event (table w1) i = Some event1" "payload event1 = payload event"
    "processing_attempts event1 = processing_attempts event + 1"
    "processing_status event1 = (if rabbitmq_max_delivery_attempts c \<le> 1 then FAILED else PENDING)"
    "line (ext w1) = [uuid_str i]"
    by (rule redis_iteration [OF assms(1-3) Suc.prems])
  have "never_passes (payload event1)" using w1(4) Suc.prems(3) by simp
  from Suc.IH [OF w1(2,3) this w1(7)] obtain w' event' where
    "worker_loop S c n w1 = (Inr (), w')" "find_event (table w') i = Some event'"
    "processing_attempts event' = processing_attempts event1 + int n" "line (ext w') = [uuid_str i]"
    "0 < n \<longrightarrow> processing_status event' =
      (if rabbitmq_max_delivery_attempts c \<le> 1 then FAILED else PENDING)"
    by blast
  with w1 show ?case by (cases n) auto
qed

definition redis_settings :: settings where
  "redis_settings = default_settings\<lparr>task_queue_backend := lit ''redis''\<rparr>"

definition hopeless_event :: event where
  "hopeless_event = new_event 5 0 None None (lit ''s'') (lit ''t'') [(lit ''force_failure'', JBool True)]"

lemma redis_works_calm: "redis_works calm redis_settings redis_list"
  by (simp add: redis_works_def processing_leaves_def leaves_def calm_def calm_do_def calm_tick_def)

theorem redis_retries_forever_witness:
  "\<exists>w' event'. worker_loop calm redis_settings 100 (calm_start\<lparr>table := [hopeless_event],
      ext := \<lparr>ticks = 0, mailbox = [], redis_list = [uuid_str 5]\<rparr>\<rparr>) = (Inr (), w') \<and>
    find_event (table w') 5 = Some event' \<and> processing_attempts event' = 100 \<and>
    redis_list (ext w') = [uuid_str 5] \<and> processing_status event' = PENDING"
proof -
  let ?w = "calm_start\<lparr>table := [hopeless_event],
    ext := \<lparr>ticks = 0, mailbox = [], redis_list = [uuid_str 5]\<rparr>\<rparr>"
  have "task_queue_backend redis_settings = lit ''redis''" by (simp add: redis_settings_def)
  moreover have "constraints (table ?w)" "find_event (table ?w) 5 = Some hopeless_event"
    "never_passes (payload hopeless_event)" "redis_list (ext ?w) = [uuid_str 5]"
    by (simp_all add: constraints_def hopeless_event_def new_event_def never_passes_def
        force_failure_def remaining_failures_def dict_get_def)
  ultimately obtain w' event' where
    "worker_loop calm redis_settings 100 ?w = (Inr (), w')" "find_event (table w') 5 = Some event'"
    "processing_attempts event' = processing_attempts hopeless_event + int 100"
    "redis_list (ext w') = [uuid_str 5]"
    "processing_status event' = (if rabbitmq_max_delivery_attempts redis_settings \<le> 1 then FAILED else PENDING)"
    using redis_retries_forever [OF redis_works_calm reliable_calm, of ?w 5 hopeless_event 100] by auto
  then show ?thesis
    by (simp add: hopeless_event_def new_event_def redis_settings_def default_settings_def
        del: worker_loop.simps) 
qed

end
