(* ===== verification/Overlap.thy ===== *)
theory Overlap
  imports Lifecycle
begin

text \<open>
  Attempts at one event that overlap. \<open>process_event_by_id\<close> loads the event, and awaits before it
  does anything with it (\<open>asyncio.sleep(0)\<close>, the commit); what other tasks and processes do in
  between is not seen by its session. Here it is cut after the load, with the session's commit as
  SQLAlchemy makes it: only the columns whose value differs from the loaded one are written.
\<close>

section \<open>An attempt in two halves\<close>

definition changed_columns :: "event \<Rightarrow> event \<Rightarrow> event \<Rightarrow> event" where
  "changed_columns loaded event row =
     row\<lparr>payload := (if payload event = payload loaded then payload row else payload event),
         processing_status := (if processing_status event = processing_status loaded
           then processing_status row else processing_status event),
         processing_attempts := (if processing_attempts event = processing_attempts loaded
           then processing_attempts row else processing_attempts event),
         processed_at := (if processed_at event = processed_at loaded
           then processed_at row else processed_at event),
         error_message := (if error_message event = error_message loaded
           then error_message row else error_message event)\<rparr>"

definition flush_row :: "event list \<Rightarrow> event \<Rightarrow> event \<Rightarrow> event list" where
  "flush_row t loaded event =
     map (\<lambda>row. if ev_id row = ev_id loaded then changed_columns loaded event row else row) t"

definition flush_changes :: "'x services \<Rightarrow> event \<Rightarrow> event \<Rightarrow> ('x world, unit) io" where
  "flush_changes S loaded event = io_bind (io_gets table) (\<lambda>t. commit S (flush_row t loaded event))"

definition attempt_load :: "'x services \<Rightarrow> uuid \<Rightarrow> ('x world, event option) io" where
  "attempt_load S event_id = io_then (open_session S) (query S (\<lambda>t. find_event t event_id))"

definition attempt_finish :: "'x services \<Rightarrow> bool \<Rightarrow> event option \<Rightarrow> ('x world, bool) io" where
  "attempt_finish S final_attempt obj =
     (case obj of
        None \<Rightarrow> io_return True
      | Some loaded \<Rightarrow> process_event S (flush_changes S loaded) loaded final_attempt)"

section \<open>Without anything in between the halves are the whole\<close>

text \<open>What an attempt may change of an event.\<close>

definition same_fixed :: "event \<Rightarrow> event \<Rightarrow> bool" where
  "same_fixed event loaded \<longleftrightarrow>
     event = loaded\<lparr>payload := payload event, processing_status := processing_status event,
       processing_attempts := processing_attempts event, processed_at := processed_at event,
       error_message := error_message event\<rparr>"

lemma changed_columns_current: "same_fixed event loaded \<Longrightarrow> changed_columns loaded event loaded = event"
  unfolding same_fixed_def changed_columns_def by (cases event; cases loaded) auto

lemma flush_row_current:
  assumes "constraints t" and "find_event t i = Some loaded" and "same_fixed event loaded"
  shows "flush_row t loaded event = replace_row t event"
proof -
  have "ev_id event = ev_id loaded" using assms(3) by (metis event.simps(1) event.surjective
      event.update_convs same_fixed_def)
  moreover have "row = loaded" if "row \<in> set t" "ev_id row = ev_id loaded" for row
  proof -
    have "find_event t (ev_id row) = Some row" "find_event t (ev_id row) = Some loaded"
      using assms(1,2) that rows.find_ev_id [OF assms(2)] find_event_mem [of t row]
      by (auto simp: constraints_def)
    then show ?thesis by simp
  qed
  ultimately show ?thesis
    using changed_columns_current [OF assms(3)] by (auto simp: flush_row_def replace_row_def)
qed

lemma same_fixed_states:
  "same_fixed (rejected final m (loaded\<lparr>processing_attempts := n, payload := data\<rparr>)) loaded"
  "same_fixed (rejected final m (completed now (loaded\<lparr>processing_attempts := n\<rparr>))) loaded"
  "same_fixed (completed now (loaded\<lparr>processing_attempts := n\<rparr>)) loaded"
  by (simp_all add: same_fixed_def rejected_def completed_def)

lemma process_event_cong:
  assumes same: "\<And>e u. same_fixed e loaded \<Longrightarrow> table u = table w \<Longrightarrow> s1 e u = s2 e u"
    and fails: "\<And>e u x u'. s1 e u = (Inl x, u') \<Longrightarrow> table u' = table u"
  shows "process_event S s1 loaded final w = process_event S s2 loaded final w"
proof -
  let ?ev = "loaded\<lparr>processing_attempts := processing_attempts loaded + 1\<rparr>"
  obtain started x0 where p: "perf_counter S (ext w) = (started, x0)" by fastforce
  define w0 where "w0 = w\<lparr>ext := x0\<rparr>"
  obtain r1 ev1 where a: "attempt_work ?ev = (r1, ev1)" by fastforce
  show ?thesis
  proof (cases r1)
    case (Inl exc)
    obtain data where ev1: "ev1 = ?ev\<lparr>payload := data\<rparr>" using attempt_work_fails [OF a [unfolded Inl]] by auto
    have "s1 (rejected final (exn_text S exc) ev1) w0 = s2 (rejected final (exn_text S exc) ev1) w0"
      unfolding ev1 by (rule same [OF same_fixed_states(1)]) (simp add: w0_def)
    then show ?thesis
      using p a Inl by (simp add: process_event_def process_failed_def ask_def io_bind_def w0_def Let_def)
  next
    case (Inr v)
    have ev1: "ev1 = ?ev" using attempt_work_passes [OF a [unfolded Inr]] by simp
    obtain now x1 where n: "utc_now S x0 = (now, x1)" by fastforce
    define w1 where "w1 = w\<lparr>ext := x1\<rparr>"
    let ?done = "completed now ?ev"
    have c: "s1 ?done w1 = s2 ?done w1" by (rule same [OF same_fixed_states(3)]) (simp add: w1_def)
    obtain r2 w2 where r2: "s1 ?done w1 = (r2, w2)" by fastforce
    have c2: "s2 ?done w1 = (r2, w2)" using c r2 by simp
    have run: "process_event S s loaded final w =
        io_catch (io_then (s ?done) (io_then (record_outcome S ?done ''processed'' started) (io_return True)))
          (process_failed S s ?done final started) w1" for s
      using p a Inr ev1 n by (simp add: process_event_def ask_def io_bind_def w1_def Let_def)
    show ?thesis
    proof (cases r2)
      case (Inl e)
      have "table w2 = table w" using fails [OF r2 [unfolded Inl]] by (simp add: w1_def)
      then have "s1 (rejected final (exn_text S e) ?done) w2 = s2 (rejected final (exn_text S e) ?done) w2"
        by (rule same [OF same_fixed_states(2)])
      then show ?thesis
        using c2 r2 Inl by (simp add: run process_failed_def io_bind_def io_catch_def Let_def)
    next
      case (Inr u)
      obtain r3 w3 where "record_outcome S ?done ''processed'' started w2 = (r3, w3)" by fastforce
      moreover from record_outcome_frame [OF this] have "r3 = Inr ()" by simp
      ultimately show ?thesis
        using c2 r2 Inr by (simp add: run io_bind_def io_catch_def)
    qed
  qed
qed

lemma attempt_halves:
  assumes "constraints (table w)"
  shows "io_bind (attempt_load S i) (attempt_finish S final) w = process_event_by_id S i final w"
proof -
  have "process_event S (flush_changes S loaded) loaded final u = process_event S (commit_event S) loaded final u"
    if "table u = table w" "find_event (table w) i = Some loaded" for loaded and u :: "'a world"
  proof (rule process_event_cong)
    fix e and v :: "'a world"
    assume "same_fixed e loaded" and v: "table v = table u"
    then have "flush_row (table v) loaded e = replace_row (table v) e"
      using assms that by (intro flush_row_current) simp_all
    then show "flush_changes S loaded e v = commit_event S e v"
      by (simp add: flush_changes_def commit_event_def io_bind_def)
  next
    fix e x and v v' :: "'a world"
    assume "flush_changes S loaded e v = (Inl x, v')"
    then show "table v' = table v"
      by (auto simp: flush_changes_def io_bind_def commit_run split: prod.splits sum.splits)
  qed
  then show ?thesis
    by (simp add: process_event_by_id_run attempt_load_def attempt_finish_def open_session_def io_bind_def
        query_run split: prod.split sum.split option.split)
qed

section \<open>Properties\<close>

text \<open>
  C17: an attempt that overlaps another can undo its success. If an attempt loaded the event while
  it was PENDING and its payload asked for a failure, and by the time it goes on the event is
  PROCESSED, then its commit, the last attempt allowed, makes the event FAILED, next to the
  processing time the other attempt wrote, and the attempts counted meanwhile are lost.
\<close>

theorem stale_attempt_undoes_processed:
  assumes "reliable_db S" and "attempt_load S i w = (Inr (Some loaded), w1)"
    and "processing_status loaded = PENDING" and "processed_at loaded = None"
    and "\<not> will_pass (payload loaded)"
    and "constraints (table u)" and "find_event (table u) i = Some current"
    and "processing_status current = PROCESSED"
  shows "\<exists>u' event. attempt_finish S True (Some loaded) u = (Inr False, u') \<and>
    find_event (table u') i = Some event \<and> processing_status event = FAILED \<and>
    processed_at event = processed_at current \<and>
    processing_attempts event = processing_attempts loaded + 1"
proof -
  let ?ev = "loaded\<lparr>processing_attempts := processing_attempts loaded + 1\<rparr>"
  have i: "ev_id loaded = i" "ev_id current = i"
    using assms(2) rows.find_ev_id [OF assms(7)]
    by (auto simp: attempt_load_def open_session_def io_bind_def query_run split: prod.splits sum.splits
        dest: rows.find_ev_id)
  obtain started x0 where p: "perf_counter S (ext u) = (started, x0)" by fastforce
  obtain r1 ev1 where a: "attempt_work ?ev = (r1, ev1)" by fastforce
  obtain exc where exc: "r1 = Inl exc"
    using attempt_work_passes [of ?ev] a assms(5) by (cases r1) auto
  obtain data where ev1: "ev1 = ?ev\<lparr>payload := data\<rparr>" using attempt_work_fails [OF a [unfolded exc]] by auto
  define event where "event = rejected True (exn_text S exc) ev1"
  define row where "row = changed_columns loaded event current"
  have row: "ev_id row = i" "delivery_id row = delivery_id current" "processing_status row = FAILED"
    "processed_at row = processed_at current" "processing_attempts row = processing_attempts loaded + 1"
    using i assms(3,4) by (simp_all add: row_def event_def ev1 changed_columns_def rejected_def)
  have "flush_row (table u) loaded event = replace_row (table u) row"
  proof -
    have "r = current" if "r \<in> set (table u)" "ev_id r = i" for r
      using that assms(6,7) find_event_mem [of "table u" r] by (auto simp: constraints_def)
    then show ?thesis using i row(1) by (auto simp: flush_row_def replace_row_def row_def)
  qed
  moreover have "constraints (replace_row (table u) row)"
    using row(1,2) i by (intro constraints_update [OF assms(6,7)]) simp_all
  then obtain x1 where x1: "db_commit S (replace_row (table u) row) x0 = (Inr (), x1)"
    using assms(1) unfolding reliable_db_def by blast
  ultimately have flush: "flush_changes S loaded event (u\<lparr>ext := x0\<rparr>) =
      (Inr (), u\<lparr>ext := x1, table := replace_row (table u) row\<rparr>)"
    by (simp add: flush_changes_def io_bind_def commit_run)
  define v where "v = u\<lparr>ext := x1, table := replace_row (table u) row\<rparr>"
  obtain r2 u' where r2: "record_outcome S event ''failed'' started v = (r2, u')" by fastforce
  note frame = record_outcome_frame [OF r2]
  have "attempt_finish S True (Some loaded) u = (Inr False, u')"
    using p a exc flush r2 frame
    by (simp add: attempt_finish_def process_event_def process_failed_def ask_def io_bind_def Let_def
        event_def [symmetric] v_def [symmetric])
  moreover have "find_event (table u') i = Some row"
    using frame row(1) i find_replaced [OF assms(7), of row i] by (simp add: v_def)
  ultimately show ?thesis using row(3-5) by blast
qed

text \<open>
  The event \<open>once_flaky\<close> fails once. An attempt loads it; two others run meanwhile, of which the
  second succeeds; then the first goes on.
\<close>

definition once_flaky :: event where
  "once_flaky = new_event 5 0 None None (lit ''s'') (lit ''t'')
     [(lit ''fail_attempts_remaining'', JInt 1)]"

definition before_overlap :: "calm_state world" where
  "before_overlap = calm_start\<lparr>table := [once_flaky]\<rparr>"

lemma single_row: "length (table (snd (process_event_by_id S i final w))) = length (table w)"
proof -
  obtain r w' where run: "process_event_by_id S i final w = (r, w')" by fastforce
  then show ?thesis
    by (cases rule: process_event_by_id_cases) (simp_all add: run replace_row_def)
qed

lemma single_rows: "length (table (snd (process_times S i final n w))) = length (table w)"
proof (induction n arbitrary: w)
  case (Suc n)
  obtain r w1 where run: "process_event_by_id S i final w = (r, w1)" by fastforce
  have "length (table w1) = length (table w)" using single_row [of S i final w] run by simp
  then show ?case using Suc.IH [of w1] run
    by (cases r; cases "process_times S i final n w1"; cases "fst (process_times S i final n w1)")
      (auto simp: io_bind_def)
qed simp

theorem stale_attempt_undoes_processed_witness:
  "\<exists>loaded w1 u current u' event.
    attempt_load calm 5 before_overlap = (Inr (Some loaded), w1) \<and>
    process_times calm 5 True 2 w1 = (Inr [False, True], u) \<and>
    find_event (table u) 5 = Some current \<and> processing_status current = PROCESSED \<and>
    processing_attempts current = 2 \<and>
    attempt_finish calm True (Some loaded) u = (Inr False, u') \<and>
    find_event (table u') 5 = Some event \<and> processing_status event = FAILED \<and>
    processed_at event = processed_at current \<and> processing_attempts event = 1"
proof -
  let ?w = before_overlap
  have load: "attempt_load calm 5 ?w = (Inr (Some once_flaky), ?w)"
    by (simp add: attempt_load_def open_session_def query_run before_overlap_def calm_def calm_start_def
        init_world_def once_flaky_def new_event_def)
  have w: "constraints (table ?w)" "find_event (table ?w) 5 = Some once_flaky"
    by (simp_all add: before_overlap_def once_flaky_def new_event_def constraints_def)
  have e: "dict_get (payload once_flaky) (lit ''fail_attempts_remaining'') = Some (JInt (int 1))"
    "\<not> force_failure (payload once_flaky)" "processing_status once_flaky = PENDING"
    "processed_at once_flaky = None" "processing_attempts once_flaky = 0"
    by (simp_all add: once_flaky_def new_event_def dict_get_def force_failure_def)
  obtain u current where u: "process_times calm 5 True 2 ?w = (Inr [False, True], u)"
    "find_event (table u) 5 = Some current" "processing_status current = PROCESSED"
    "processing_attempts current = 2"
    using transient_failures_recover [OF reliable_calm w e(1,2), of True] e(5)
    by (auto simp: eval_nat_numeral simp del: process_times.simps)
  have "length (table u) = 1"
    using single_rows [of calm 5 True 2 ?w] u(1) by (simp add: before_overlap_def del: process_times.simps)
  then obtain x where "table u = [x]" by (auto simp: length_Suc_conv)
  then have c: "constraints (table u)" by (simp add: constraints_def delivery_ids_simps split: option.split)
  have "\<not> will_pass (payload once_flaky)" using countdown(1) [OF e(1,2)] by simp
  from stale_attempt_undoes_processed [OF reliable_calm load e(3,4) this c u(2,3)]
  show ?thesis using load u e(5) by (auto simp del: process_times.simps)
qed

end
