(* ===== verification/Races.thy ===== *)
theory Races
  imports Lifecycle
begin

text \<open>
  Deliveries that are handled at the same time. \<open>receive_webhook\<close> gives up control while it waits
  for the database: what it has looked up may be out of date when it stores the event. Here its
  two halves, the check with the lookup and the rest, are steps of their own, interleaved with
  those of other deliveries and with everything else the service does.
\<close>

section \<open>The two halves of a delivery\<close>

record delivery =
  del_header :: "pystr \<Rightarrow> pystr option"
  del_body :: bytes
  del_request_id :: "pystr option"
  del_data :: webhook_in

definition intake_lookup :: "'x services \<Rightarrow> settings \<Rightarrow> delivery \<Rightarrow> ('x world, event option) io" where
  "intake_lookup S c q =
     (let dlv = del_header q (webhook_id_header c)
      in io_then (verify_webhook_signature S c (del_body q) (del_header q (webhook_timestamp_header c))
                    (del_header q (webhook_signature_header c)))
                 (if absent dlv then io_return None else get_event_by_delivery_id S (the dlv)))"

definition intake_finish ::
  "'x services \<Rightarrow> settings \<Rightarrow> delivery \<Rightarrow> event option \<Rightarrow> ('x world, webhook_accepted) io" where
  "intake_finish S c q found =
     (case found of
        Some existing \<Rightarrow>
          io_then (set_metrics record_duplicate)
         (io_then (set_metrics (record_webhook_intake (in_source (del_data q)) (lit ''duplicate'')))
                  (io_return (intake_out ''duplicate'' existing)))
      | None \<Rightarrow> intake_new S c (del_header q (webhook_id_header c)) (del_request_id q) (del_data q))"

lemma receive_webhook_halves:
  "receive_webhook S c (del_header q) (del_body q) (del_request_id q) (del_data q) =
     io_bind (intake_lookup S c q) (intake_finish S c q)"
  by (simp add: receive_webhook_alt intake_lookup_def intake_finish_def [abs_def] Let_def io_bind_assoc)

lemma keeps_intake_lookup: "keeps table (intake_lookup S c q)" "keeps tasks (intake_lookup S c q)"
  unfolding intake_lookup_def by (intro keeps_rules)+

lemma intake_finish_cases:
  assumes "intake_finish S c q found w = (r, w')"
  obtains (accepted) event where "r = Inr (intake_out ''accepted'' event)"
      "delivery_id event = del_header q (webhook_id_header c)"
      "table w' = insert_row (table w) event" "committed S (table w')"
  | (stored) event where "\<not> (\<exists>out. r = Inr out \<and> accepted_status out = lit ''accepted'')"
      "table w' = insert_row (table w) event" "committed S (table w')"
  | (unchanged) "\<not> (\<exists>out. r = Inr out \<and> accepted_status out = lit ''accepted'')" "table w' = table w"
proof (cases found)
  case (Some existing)
  then show thesis
    using assms by (intro unchanged) (auto simp: intake_finish_def set_metrics_run intake_out_def)
next
  case None
  then have "intake_new S c (del_header q (webhook_id_header c)) (del_request_id q) (del_data q) w = (r, w')"
    using assms by (simp add: intake_finish_def)
  then show thesis
  proof (cases rule: intake_new_cases)
    case (accepted event)
    have "delivery_id event = del_header q (webhook_id_header c)"
      using accepted(2) unfolding stored_def new_event_def by (metis event.select_convs(2))
    with accepted show thesis by (intro that(1) [of event]) simp_all
  qed (use that in auto)
qed

section \<open>Interleaving\<close>

datatype phase =
    Arrived
  | Looked "event option"
  | Answered "exn + webhook_accepted"

text \<open>
  The deliveries \<open>qs\<close> with the phase each is in, over the world they share. \<open>other\<close> is any step
  of the service that is not one of these deliveries.
\<close>

inductive race :: "'x services \<Rightarrow> settings \<Rightarrow> delivery list \<Rightarrow>
    'x world \<times> phase list \<Rightarrow> 'x world \<times> phase list \<Rightarrow> bool" for S c qs where
  look: "i < length qs \<Longrightarrow> ps ! i = Arrived \<Longrightarrow> intake_lookup S c (qs ! i) w = (Inr found, w') \<Longrightarrow>
    race S c qs (w, ps) (w', ps[i := Looked found])"
| refuse: "i < length qs \<Longrightarrow> ps ! i = Arrived \<Longrightarrow> intake_lookup S c (qs ! i) w = (Inl e, w') \<Longrightarrow>
    race S c qs (w, ps) (w', ps[i := Answered (Inl e)])"
| finish: "i < length qs \<Longrightarrow> ps ! i = Looked found \<Longrightarrow> intake_finish S c (qs ! i) found w = (r, w') \<Longrightarrow>
    race S c qs (w, ps) (w', ps[i := Answered r])"
| other: "step S c w w' \<Longrightarrow> race S c qs (w, ps) (w', ps)"

inductive_cases raceE: "race S c qs s s'"

definition accepts :: "phase \<Rightarrow> webhook_accepted \<Rightarrow> bool" where
  "accepts p out \<longleftrightarrow> p = Answered (Inr out) \<and> accepted_status out = lit ''accepted''"

text \<open>
  The invariant: every acceptance has its event in the table, under the delivery id of its
  request, and no two acceptances have the same event.
\<close>

definition acceptances_stored :: "settings \<Rightarrow> delivery list \<Rightarrow> event list \<Rightarrow> phase list \<Rightarrow> bool" where
  "acceptances_stored c qs t ps \<longleftrightarrow>
     length ps = length qs \<and> constraints t \<and>
     (\<forall>i out. i < length ps \<longrightarrow> accepts (ps ! i) out \<longrightarrow>
        (\<exists>event \<in> set t. ev_id event = accepted_event_id out \<and>
           delivery_id event = del_header (qs ! i) (webhook_id_header c))) \<and>
     (\<forall>i j out out'. i < length ps \<longrightarrow> j < length ps \<longrightarrow> i \<noteq> j \<longrightarrow> accepts (ps ! i) out \<longrightarrow>
        accepts (ps ! j) out' \<longrightarrow> accepted_event_id out \<noteq> accepted_event_id out')"

lemma acceptances_wf: "acceptances_stored c qs t ps \<Longrightarrow> length ps = length qs \<and> constraints t"
  by (simp add: acceptances_stored_def)

lemma acceptance_event:
  assumes "acceptances_stored c qs t ps" and "i < length ps" and "accepts (ps ! i) out"
  obtains event where "event \<in> set t" "ev_id event = accepted_event_id out"
    "delivery_id event = del_header (qs ! i) (webhook_id_header c)"
  using assms unfolding acceptances_stored_def by blast

lemma acceptances_differ:
  "acceptances_stored c qs t ps \<Longrightarrow> i < length ps \<Longrightarrow> j < length ps \<Longrightarrow> i \<noteq> j \<Longrightarrow>
    accepts (ps ! i) out \<Longrightarrow> accepts (ps ! j) out' \<Longrightarrow> accepted_event_id out \<noteq> accepted_event_id out'"
  unfolding acceptances_stored_def by blast

lemma not_accepts [simp]: "\<not> accepts Arrived out" "\<not> accepts (Looked found) out" "\<not> accepts (Answered (Inl e)) out"
  by (simp_all add: accepts_def)

text \<open>A phase that changes without an acceptance, over a table that only grows.\<close>

lemma extends_mem:
  assumes "extends t t'" and "event \<in> set t"
  obtains event' where "event' \<in> set t'" "ev_id event' = ev_id event" "delivery_id event' = delivery_id event"
proof -
  obtain old new where t': "t' = old @ new" "list_all2 same_event t old"
    using assms(1) by (auto simp: extends_def)
  obtain k where "k < length t" "t ! k = event" using assms(2) by (auto simp: in_set_conv_nth)
  then have "same_event event (old ! k)" "old ! k \<in> set t'"
    using t' by (auto simp: list_all2_conv_all_nth)
  then show thesis by (intro that [of "old ! k"]) (simp_all add: same_event_def)
qed

lemma acceptances_quiet:
  assumes "acceptances_stored c qs t ps" and "extends t t'" and "constraints t'"
    and "\<And>out. \<not> accepts p out"
  shows "acceptances_stored c qs t' (ps[i := p])" "acceptances_stored c qs t' ps"
proof -
  have carried: "\<exists>event \<in> set t'. ev_id event = n \<and> delivery_id event = d"
    if "\<exists>event \<in> set t. ev_id event = n \<and> delivery_id event = d" for n d
    using that extends_mem [OF assms(2)] by metis
  have kept: "acceptances_stored c qs t' ps'"
    if len: "length ps' = length ps"
      and old: "\<And>k out. k < length ps \<Longrightarrow> accepts (ps' ! k) out \<Longrightarrow> accepts (ps ! k) out" for ps'
    unfolding acceptances_stored_def
  proof (intro conjI allI impI)
    show "length ps' = length qs" "constraints t'"
      using len assms(1,3) by (simp_all add: acceptances_stored_def)
  next
    fix k out
    assume "k < length ps'" "accepts (ps' ! k) out"
    then show "\<exists>event \<in> set t'. ev_id event = accepted_event_id out \<and>
        delivery_id event = del_header (qs ! k) (webhook_id_header c)"
      using old len assms(1) by (intro carried) (simp add: acceptances_stored_def)
  next
    fix k j out out'
    assume "k < length ps'" "j < length ps'" "k \<noteq> j" "accepts (ps' ! k) out" "accepts (ps' ! j) out'"
    then show "accepted_event_id out \<noteq> accepted_event_id out'"
      using old [of k out] old [of j out'] len assms(1) by (simp add: acceptances_stored_def)
  qed
  show "acceptances_stored c qs t' ps" by (rule kept) simp_all
  show "acceptances_stored c qs t' (ps[i := p])"
  proof (rule kept)
    fix k out
    assume "k < length ps" "accepts (ps[i := p] ! k) out"
    then show "accepts (ps ! k) out" using assms(4) [of out] by (cases "k = i") simp_all
  qed simp
qed

lemma acceptances_accept:
  assumes "acceptances_stored c qs t ps" and "constraints (insert_row t event)"
    and "i < length qs" and "delivery_id event = del_header (qs ! i) (webhook_id_header c)"
    and "accepted_event_id out = ev_id event"
  shows "acceptances_stored c qs (insert_row t event) (ps[i := Answered (Inr out)])"
proof -
  have fresh: "ev_id r \<noteq> ev_id event" if "r \<in> set t" for r
    using assms(2) imageI [OF that, of ev_id] by (auto simp: constraints_def insert_row_def)
  have older: "accepted_event_id out' \<noteq> ev_id event" if "k < length ps" "accepts (ps ! k) out'" for k out'
    using acceptance_event [OF assms(1) that] fresh by metis
  have self: "out' = out" if "accepts (Answered (Inr out)) out'" for out'
    using that by (simp add: accepts_def)
  show ?thesis
    unfolding acceptances_stored_def
  proof (intro conjI allI impI)
    show "length (ps[i := Answered (Inr out)]) = length qs" "constraints (insert_row t event)"
      using assms(1,2) by (simp_all add: acceptances_stored_def)
  next
    fix k out'
    assume k: "k < length (ps[i := Answered (Inr out)])" "accepts (ps[i := Answered (Inr out)] ! k) out'"
    show "\<exists>event' \<in> set (insert_row t event). ev_id event' = accepted_event_id out' \<and>
        delivery_id event' = del_header (qs ! k) (webhook_id_header c)"
    proof (cases "k = i")
      case True
      then have "out' = out" using k assms(1,3) self by (simp add: acceptances_stored_def)
      then show ?thesis using True assms(4,5) by (simp add: insert_row_def)
    next
      case False
      then have "accepts (ps ! k) out'" "k < length ps" using k by simp_all
      then show ?thesis using assms(1) by (fastforce simp: acceptances_stored_def insert_row_def)
    qed
  next
    fix k j o1 o2
    assume "k < length (ps[i := Answered (Inr out)])" "j < length (ps[i := Answered (Inr out)])" "k \<noteq> j"
      "accepts (ps[i := Answered (Inr out)] ! k) o1" "accepts (ps[i := Answered (Inr out)] ! j) o2"
    then show "accepted_event_id o1 \<noteq> accepted_event_id o2"
      using acceptances_differ [OF assms(1), of k j o1 o2] assms(5) older [of k o1] older [of j o2] self [of o1] self [of o2]
      by (cases "k = i"; cases "j = i") auto
  qed
qed

lemma extends_insert: "extends t (insert_row t event)"
  using extends_refl [of t] by (force simp: extends_def insert_row_def)

text \<open>The halves of a delivery leave tasks that fit, as every step of the service does.\<close>

lemma fit_finish:
  assumes "intake_finish S c q found w = (r, w')" and "tasks_fit c w"
  shows "tasks_fit c w'"
proof (cases found)
  case (Some existing)
  then have "tasks w' = tasks w" using assms(1) by (auto simp: intake_finish_def set_metrics_run)
  then show ?thesis using assms(2) by (simp add: tasks_fit_def)
next
  case None
  let ?create = "create_event S (del_header q (webhook_id_header c)) (del_request_id q)
    (in_source (del_data q)) (in_event_type (del_data q)) (in_payload (del_data q))"
  let ?rest = "\<lambda>event. io_then (schedule_event S c (ev_id event))
    (io_then (set_metrics (record_webhook_intake (in_source (del_data q)) (lit ''accepted'')))
             (io_return (intake_out ''accepted'' event)))"
  obtain r1 w1 where r1: "?create w = (r1, w1)" by fastforce
  have fit1: "tasks_fit c w1"
    using keepsD_run [OF keeps_create_event(2) r1] assms(2) by (simp add: tasks_fit_def)
  have run: "io_bind ?create ?rest w = (r, w')"
    using assms(1) None by (simp add: intake_finish_def intake_new_def)
  have "moves (table_evolves S c) (?rest event)" for event by (intro moves_rules)
  then have "tasks_fit c w1 \<Longrightarrow> ?rest event w1 = (r, w') \<Longrightarrow> tasks_fit c w'" for event
    using movesD_run [of "table_evolves S c"] unfolding table_evolves_def by blast
  then show ?thesis using run r1 fit1 by (cases r1) (auto simp: io_bind_def)
qed

lemma step_extends:
  assumes "enforces S" and "constraints (table w)" and "step S c w w'" and "tasks_fit c w"
  shows "extends (table w) (table w') \<and> constraints (table w')"
proof -
  have "(row_step S c)\<^sup>*\<^sup>* (table w) (table w')"
    using step_evolves [OF assms(3)] assms(4) by (simp add: table_evolves_def)
  then show ?thesis
  proof (induction rule: rtranclp_induct)
    case base
    show ?case using assms(2) by (simp add: extends_refl)
  next
    case (step t t')
    then show ?case using row_step_extends extends_trans constrained.kept [OF assms(1)] by blast
  qed
qed

lemma race_keeps:
  assumes "race S c qs (w, ps) (w', ps')" and "enforces S" and "acceptances_stored c qs (table w) ps"
    and "tasks_fit c w"
  shows "acceptances_stored c qs (table w') ps'"
  using assms(1)
proof (cases rule: race.cases)
  case (look i found)
  then have "table w' = table w" using keepsD_run [OF keeps_intake_lookup(1)] by blast
  then show ?thesis
    using acceptances_quiet(1) [OF assms(3) extends_refl] acceptances_wf [OF assms(3)] look(1) by simp
next
  case (refuse i e)
  then have "table w' = table w" using keepsD_run [OF keeps_intake_lookup(1)] by blast
  then show ?thesis
    using acceptances_quiet(1) [OF assms(3) extends_refl] acceptances_wf [OF assms(3)] refuse(1) by simp
next
  case (finish i found r)
  from finish(4) show ?thesis
  proof (cases rule: intake_finish_cases)
    case (accepted event)
    then have "constraints (insert_row (table w) event)"
      using committed_constraints [OF assms(2)] by simp
    then show ?thesis
      using acceptances_accept [OF assms(3) _ finish(2) accepted(2)] finish accepted by (simp add: intake_out_def)
  next
    case (stored event)
    then have "constraints (insert_row (table w) event)"
      using committed_constraints [OF assms(2)] by simp
    then show ?thesis
      using acceptances_quiet(1) [OF assms(3) extends_insert] stored finish by (simp add: accepts_def)
  next
    case unchanged
    then show ?thesis
      using acceptances_quiet(1) [OF assms(3) extends_refl] acceptances_wf [OF assms(3)] finish(1)
      by (simp add: accepts_def)
  qed
next
  case other
  have "constraints (table w)" using assms(3) by (simp add: acceptances_stored_def)
  then show ?thesis
    using acceptances_quiet(2) [OF assms(3), of "table w'" Arrived] step_extends [OF assms(2)] other assms(4)
    by simp
qed

lemma race_fits:
  assumes "race S c qs (w, ps) (w', ps')" and "tasks_fit c w"
  shows "tasks_fit c w'"
  using assms(1)
proof (cases rule: race.cases)
  case (look i found)
  then show ?thesis
    using keepsD_run [OF keeps_intake_lookup(2)] assms(2) unfolding tasks_fit_def by metis
next
  case (refuse i e)
  then show ?thesis
    using keepsD_run [OF keeps_intake_lookup(2)] assms(2) unfolding tasks_fit_def by metis
next
  case (finish i found r)
  then show ?thesis using fit_finish assms(2) by blast
next
  case other
  then show ?thesis using step_evolves assms(2) unfolding table_evolves_def by blast
qed

lemma racing_acceptances:
  assumes "enforces S" and "reachable S c w"
    and "(race S c qs)\<^sup>*\<^sup>* (w, replicate (length qs) Arrived) (w', ps)"
    and "i < length qs" and "j < length qs"
    and "del_header (qs ! i) (webhook_id_header c) = Some d"
    and "del_header (qs ! j) (webhook_id_header c) = Some d"
    and "accepts (ps ! i) out" and "accepts (ps ! j) out'"
  shows "i = j"
proof (rule ccontr)
  assume ne: "i \<noteq> j"
  have "acceptances_stored c qs (table (fst s)) (snd s) \<and> tasks_fit c (fst s)"
    if "(race S c qs)\<^sup>*\<^sup>* (w, replicate (length qs) Arrived) s" for s
    using that
  proof (induction rule: rtranclp_induct)
    case base
    show ?case using constrained.holds_reachable [OF assms(1,2)] reachable_tasks_fit [OF assms(2)]
      by (simp add: acceptances_stored_def)
  next
    case (step s s')
    then show ?case using race_keeps [OF _ assms(1)] race_fits by (cases s; cases s') auto
  qed
  from this [OF assms(3)] have inv: "acceptances_stored c qs (table w') ps" by simp
  then have len: "length ps = length qs" and "distinct (delivery_ids (table w'))"
    by (simp_all add: acceptances_stored_def constraints_def)
  obtain e where e: "e \<in> set (table w')" "ev_id e = accepted_event_id out" "delivery_id e = Some d"
    using acceptance_event [OF inv _ assms(8)] len assms(4,6) by metis
  obtain f where f: "f \<in> set (table w')" "ev_id f = accepted_event_id out'" "delivery_id f = Some d"
    using acceptance_event [OF inv _ assms(9)] len assms(5,7) by metis
  have "e \<in> set (rows_by_delivery (table w') d)" "f \<in> set (rows_by_delivery (table w') d)"
    using e f by (simp_all add: rows_by_delivery_def)
  then have "e = f"
    using rows_by_delivery_distinct [OF \<open>distinct (delivery_ids (table w'))\<close>, of d] by auto
  then show False
    using acceptances_differ [OF inv _ _ ne assms(8,9)] len assms(4,5) e(2) f(2) by simp
qed

text \<open>
  C3: a delivery id is accepted at most once, also when deliveries race. Let any number of
  deliveries arrive at a service whose database enforces its constraints, and let their lookups and
  their commits be interleaved in any way with each other and with everything else the service
  does. If two of them carry the same delivery id, at most one is answered "accepted".
\<close>

theorem racing_deliveries_accept_once:
  assumes "enforces S" and "reachable S c w"
    and "(race S c qs)\<^sup>*\<^sup>* (w, replicate (length qs) Arrived) (w', ps)"
  shows "card {i. i < length qs \<and> del_header (qs ! i) (webhook_id_header c) = Some d \<and>
    (\<exists>out. accepts (ps ! i) out)} \<le> 1"
  unfolding One_nat_def
  by (rule card_le_Suc0_iff_eq [THEN iffD2]) (use racing_acceptances [OF assms] in auto)

definition racing :: delivery where
  "racing = \<lparr>del_header = delivery_header default_settings [100], del_body = [], del_request_id = None,
     del_data = sample_webhook\<rparr>"

definition winner :: event where
  "winner = new_event 0 1 (Some [100]) None (lit ''shop'') (lit ''order'') []"

lemma racing_lookup: "intake_lookup calm default_settings racing calm_start = (Inr None, calm_start)"
  by (simp add: intake_lookup_def racing_def delivery_header_def verify_webhook_signature_def
      default_settings_def absent_def get_event_by_delivery_id_def query_def io_bind_def call_def calm_def
      calm_start_def init_world_def rows_by_delivery_def scalar_one_or_none_def)

lemma racing_winner:
  "\<exists>w. intake_finish calm default_settings racing None calm_start = (Inr (intake_out ''accepted'' winner), w) \<and>
    table w = [winner] \<and> ext w = (ext calm_start)\<lparr>ticks := 2\<rparr>"
  by (simp add: intake_finish_def intake_new_def racing_def delivery_header_def default_settings_def
      create_event_def ask_def io_bind_def io_catch_def commit_def call_def calm_def calm_start_def
      init_world_def calm_tick_def insert_row_def new_event_def winner_def constraints_def sample_webhook_def
      schedule_event_def is_queue_enabled_def add_task_def set_metrics_def Let_def)

lemma racing_loser:
  assumes "table w = [winner]" and "ext w = (ext calm_start)\<lparr>ticks := 2\<rparr>"
  shows "\<exists>w'. intake_finish calm default_settings racing None w = (Inl (External []), w')"
  using assms
  by (simp add: intake_finish_def intake_new_def racing_def delivery_header_def default_settings_def
      create_event_def ask_def io_bind_def io_catch_def commit_def call_def calm_def calm_start_def
      init_world_def calm_tick_def insert_row_def new_event_def winner_def constraints_def sample_webhook_def
      Let_def)

theorem racing_deliveries_accept_once_witness:
  "\<exists>w' out. (race calm default_settings [racing, racing])\<^sup>*\<^sup>*
      (calm_start, [Arrived, Arrived]) (w', [Answered (Inr out), Answered (Inl (External []))]) \<and>
    accepts (Answered (Inr out)) out \<and>
    card {i. i < length [racing, racing] \<and>
      del_header ([racing, racing] ! i) (webhook_id_header default_settings) = Some [100] \<and>
      (\<exists>o'. accepts ([Answered (Inr out), Answered (Inl (External []))] ! i) o')} \<le> 1"
proof -
  let ?qs = "[racing, racing]" and ?out = "intake_out ''accepted'' winner"
  let ?race = "race calm default_settings ?qs"
  obtain w1 where w1: "intake_finish calm default_settings racing None calm_start = (Inr ?out, w1)"
    "table w1 = [winner]" "ext w1 = (ext calm_start)\<lparr>ticks := 2\<rparr>"
    using racing_winner by blast
  obtain w2 where w2: "intake_finish calm default_settings racing None w1 = (Inl (External []), w2)"
    using racing_loser w1 by blast
  have "?race (calm_start, [Arrived, Arrived]) (calm_start, [Looked None, Arrived])"
    using race.look [of 0 ?qs "[Arrived, Arrived]"] racing_lookup by simp
  moreover have "?race (calm_start, [Looked None, Arrived]) (calm_start, [Looked None, Looked None])"
    using race.look [of 1 ?qs "[Looked None, Arrived]"] racing_lookup by simp
  moreover have "?race (calm_start, [Looked None, Looked None]) (w1, [Answered (Inr ?out), Looked None])"
    using race.finish [of 0 ?qs "[Looked None, Looked None]" None] w1 by simp
  moreover have "?race (w1, [Answered (Inr ?out), Looked None])
      (w2, [Answered (Inr ?out), Answered (Inl (External []))])"
    using race.finish [of 1 ?qs "[Answered (Inr ?out), Looked None]" None] w2 by simp
  ultimately have run: "?race\<^sup>*\<^sup>* (calm_start, [Arrived, Arrived])
      (w2, [Answered (Inr ?out), Answered (Inl (External []))])"
    by (meson rtranclp.rtrancl_into_rtrancl rtranclp.rtrancl_refl)
  have start: "reachable calm default_settings calm_start"
    unfolding calm_start_def by (rule reachable_init)
  have "?race\<^sup>*\<^sup>* (calm_start, replicate (length ?qs) Arrived)
      (w2, [Answered (Inr ?out), Answered (Inl (External []))])"
    using run by (simp add: numeral_2_eq_2)
  from racing_deliveries_accept_once [OF enforces_calm start this, of "[100]"] run
  show ?thesis by (intro exI [of _ w2] exI [of _ ?out] conjI) (simp_all add: accepts_def intake_out_def)
qed

end
