(* ===== verification/ToolWorld.thy ===== *)
theory ToolWorld
  imports Security Database
begin

text \<open>
  What the scripts of tools/ run in: an HTTP client, a clock, files, subprocesses and the two
  output streams. As for the service, everything outside is a record of functions on a state of
  its own; what the scripts did is kept in the order they did it.
\<close>

section \<open>Services of the scripts\<close>

text \<open>
  \<open>exchange\<close> sends a request, follows redirects, and gives the final status and body or the
  message of a failed connection (\<open>URLError\<close>, a timeout). \<open>clock\<close> is \<open>time.time()\<close> in microseconds, \<open>sleep\<close> takes
  microseconds. \<open>read_file\<close> and \<open>write_file\<close> may fail for reasons of the file system.
\<close>

record http_request =
  http_url :: pystr
  http_method :: pystr
  http_headers :: "(pystr \<times> pystr) list"
  http_data :: "bytes option"

record 'x tools =
  exchange :: "http_request \<Rightarrow> 'x \<Rightarrow> (pystr + nat \<times> bytes) \<times> 'x"
  clock :: "'x \<Rightarrow> int \<times> 'x"
  sleep :: "int \<Rightarrow> 'x \<Rightarrow> 'x"
  float_repr :: "pyfloat \<Rightarrow> pystr"
  json_str :: "json \<Rightarrow> pystr"
  file_allows :: "pystr \<Rightarrow> 'x \<Rightarrow> (exn + unit) \<times> 'x"
  subprocess :: "pystr list \<Rightarrow> 'x \<Rightarrow> (exn + int \<times> pystr) \<times> 'x"

type_synonym http_exchange = "http_request \<times> (pystr + nat \<times> bytes)"

text \<open>\<open>files\<close> maps a path relative to the repository's root to the file's content.\<close>

record 'x tool_world =
  exchanges :: "http_exchange list"
  stdout :: "pystr list"
  stderr :: "pystr list"
  files :: "pystr \<rightharpoonup> bytes"
  tool_ext :: 'x

definition call_tool :: "('x \<Rightarrow> (exn + 'a) \<times> 'x) \<Rightarrow> ('x tool_world, 'a) io" where
  "call_tool f = (\<lambda>w. case f (tool_ext w) of (r, x) \<Rightarrow> (r, w\<lparr>tool_ext := x\<rparr>))"

definition read_clock :: "'x tools \<Rightarrow> ('x tool_world, int) io" where
  "read_clock T = (\<lambda>w. case clock T (tool_ext w) of (t, x) \<Rightarrow> (Inr t, w\<lparr>tool_ext := x\<rparr>))"

text \<open>\<open>int(time.time())\<close>: truncation towards zero.\<close>

definition whole_seconds :: "int \<Rightarrow> int" where
  "whole_seconds t = (if 0 \<le> t then t div 1000000 else - (- t div 1000000))"

definition print_line :: "pystr \<Rightarrow> ('x tool_world, unit) io" where
  "print_line s = io_modify (\<lambda>w. w\<lparr>stdout := stdout w @ [s]\<rparr>)"

definition print_error :: "pystr \<Rightarrow> ('x tool_world, unit) io" where
  "print_error s = io_modify (\<lambda>w. w\<lparr>stderr := stderr w @ [s]\<rparr>)"

section \<open>urllib\<close>

definition send_request :: "'x tools \<Rightarrow> http_request \<Rightarrow> ('x tool_world, nat \<times> bytes) io" where
  "send_request T req =
     (\<lambda>w. case exchange T req (tool_ext w) of
        (r, x) \<Rightarrow>
          (case r of Inl fault \<Rightarrow> Inl (External fault) | Inr answer \<Rightarrow> Inr answer,
           w\<lparr>tool_ext := x, exchanges := exchanges w @ [(req, r)]\<rparr>))"

text \<open>\<open>urlopen\<close> raises \<open>HTTPError\<close> for every final status outside 200 to 299.\<close>

definition urlopen :: "'x tools \<Rightarrow> http_request \<Rightarrow> ('x tool_world, nat \<times> bytes) io" where
  "urlopen T req =
     io_bind (send_request T req) (\<lambda>(code, body).
       if 200 \<le> code \<and> code < 300 then io_return (code, body) else io_raise (HTTPError code body))"

definition get_request :: "pystr \<Rightarrow> http_request" where
  "get_request url = \<lparr>http_url = url, http_method = lit ''GET'', http_headers = [], http_data = None\<rparr>"

definition rstrip_slash :: "pystr \<Rightarrow> pystr" where
  "rstrip_slash s = rev (dropWhile (\<lambda>ch. ch = 47) (rev s))"

text \<open>A non-negative number as \<open>str\<close> writes it; none here comes near the limit of digits.\<close>

definition number_text :: "nat \<Rightarrow> pystr" where
  "number_text n = (case py_str_int (int n) of Inr s \<Rightarrow> s | Inl _ \<Rightarrow> [])"

section \<open>JSON values at work\<close>

definition float_ge :: "pyfloat \<Rightarrow> int \<Rightarrow> bool" where
  "float_ge f n =
     (case f of
        PFin m e \<Rightarrow> if 0 \<le> e then n \<le> m * 2 ^ nat e else n * 2 ^ nat (- e) \<le> m
      | PInf \<Rightarrow> True
      | _ \<Rightarrow> False)"

definition number_error :: exn where
  "number_error = TypeError (lit ''comparison not supported between instances'')"

text \<open>\<open>v >= n\<close> and \<open>v < n\<close>\<close>

fun json_ge :: "json \<Rightarrow> int \<Rightarrow> exn + bool" where
  "json_ge (JInt k) n = Inr (n \<le> k)"
| "json_ge (JBool b) n = Inr (n \<le> (if b then 1 else 0))"
| "json_ge (JFloat f) n = Inr (float_ge f n)"
| "json_ge _ n = Inl number_error"

fun json_less :: "json \<Rightarrow> int \<Rightarrow> exn + bool" where
  "json_less (JInt k) n = Inr (k < n)"
| "json_less (JBool b) n = Inr ((if b then 1 else 0) < n)"
| "json_less (JFloat f) n = Inr (f \<noteq> PNaN \<and> \<not> float_ge f n)"
| "json_less _ n = Inl number_error"

text \<open>\<open>==\<close>: numbers by value, whatever their type; objects whatever their order.\<close>

fun as_float :: "json \<Rightarrow> pyfloat option" where
  "as_float (JBool b) = Some (PFin (if b then 1 else 0) 0)"
| "as_float (JInt n) = Some (PFin n 0)"
| "as_float (JFloat f) = Some f"
| "as_float _ = None"

fun float_eq :: "pyfloat \<Rightarrow> pyfloat \<Rightarrow> bool" where
  "float_eq (PFin m e) (PFin m' e') \<longleftrightarrow> m * 2 ^ nat (e - min e e') = m' * 2 ^ nat (e' - min e e')"
| "float_eq PInf PInf \<longleftrightarrow> True"
| "float_eq PNegInf PNegInf \<longleftrightarrow> True"
| "float_eq _ _ \<longleftrightarrow> False"

function json_eq :: "json \<Rightarrow> json \<Rightarrow> bool" where
  "json_eq v u \<longleftrightarrow>
     (case (as_float v, as_float u) of
        (Some f, Some g) \<Rightarrow> float_eq f g
      | (None, None) \<Rightarrow>
          (case (v, u) of
             (JNull, JNull) \<Rightarrow> True
           | (JStr s, JStr t) \<Rightarrow> s = t
           | (JArr xs, JArr ys) \<Rightarrow> length xs = length ys \<and> list_all (\<lambda>(x, y). json_eq x y) (zip xs ys)
           | (JObj d, JObj e) \<Rightarrow> length d = length e \<and>
               list_all (\<lambda>(k, x). case dict_get e k of None \<Rightarrow> False | Some y \<Rightarrow> json_eq x y) d
           | _ \<Rightarrow> False)
      | _ \<Rightarrow> False)"
  by pat_completeness auto

lemma size_member: "(k, x) \<in> set d \<Longrightarrow> size x < Suc (size_list (size_prod (\<lambda>_. 0) size) (d :: dict))"
  by (induction d) auto

lemma size_element: "x \<in> set xs \<Longrightarrow> size x < Suc (size_list size xs)"
  by (induction xs) auto

termination json_eq
  by (relation "measure (\<lambda>(v, u). size v)") (auto simp: size_member size_element dest!: set_zip_leftD)

text \<open>Unfolding it only where both values are known.\<close>

declare json_eq.simps [simp del]

lemma json_eq_str: "json_eq (JStr s) (JStr t) \<longleftrightarrow> s = t"
  by (simp add: json_eq.simps [of "JStr s"])

end
