(* ===== verification/Scripts.thy ===== *)
theory Scripts
  imports ToolWorld
begin

text \<open>
  tools/bootstrap_env.py, tools/collect_logs.py and tools/hardening_check.py: the scripts that work
  on files. A path is the text of the path relative to the repository's root; only files exist
  here, and making a directory is asking whether the file system allows it.
\<close>

section \<open>Files\<close>

text \<open>Reading in text mode turns \<open>CR LF\<close> and \<open>CR\<close> into \<open>LF\<close>.\<close>

fun universal_newlines :: "pystr \<Rightarrow> pystr" where
  "universal_newlines (c # d # s) =
     (if c = 13 \<and> d = 10 then 10 # universal_newlines s
      else (if c = 13 then 10 else c) # universal_newlines (d # s))"
| "universal_newlines [c] = [if c = 13 then 10 else c]"
| "universal_newlines [] = []"

definition read_text :: "'x tools \<Rightarrow> pystr \<Rightarrow> ('x tool_world, pystr) io" where
  "read_text T path =
     io_bind (io_gets (\<lambda>w. files w path)) (\<lambda>found.
       case found of
         None \<Rightarrow> io_raise (FileNotFoundError path)
       | Some content \<Rightarrow>
           io_then (call_tool (file_allows T path))
                   (io_lift (sum_bind (utf8_decode content) (\<lambda>s. Inr (universal_newlines s)))))"

definition write_text :: "'x tools \<Rightarrow> pystr \<Rightarrow> pystr \<Rightarrow> ('x tool_world, unit) io" where
  "write_text T path s =
     io_then (call_tool (file_allows T path))
    (io_bind (io_lift (utf8_encode s)) (\<lambda>content.
     io_modify (\<lambda>w. w\<lparr>files := (files w)(path \<mapsto> content)\<rparr>)))"

definition file_exists :: "pystr \<Rightarrow> ('x tool_world, bool) io" where
  "file_exists path = io_gets (\<lambda>w. files w path \<noteq> None)"

definition make_dirs :: "'x tools \<Rightarrow> pystr \<Rightarrow> ('x tool_world, unit) io" where
  "make_dirs T path = call_tool (file_allows T path)"

section \<open>tools/bootstrap_env.py\<close>

definition copy_file :: "'x tools \<Rightarrow> pystr \<Rightarrow> pystr \<Rightarrow> ('x tool_world, unit) io" where
  "copy_file T src dst =
     io_bind (io_gets (\<lambda>w. files w src)) (\<lambda>found.
       case found of
         None \<Rightarrow> io_raise (FileNotFoundError src)
       | Some content \<Rightarrow>
           io_then (call_tool (file_allows T dst))
                   (io_modify (\<lambda>w. w\<lparr>files := (files w)(dst \<mapsto> content)\<rparr>)))"

definition bootstrap_main :: "'x tools \<Rightarrow> ('x tool_world, unit) io" where
  "bootstrap_main T =
     io_bind (file_exists (lit ''.env'')) (\<lambda>present.
       if \<not> present
       then io_then (copy_file T (lit ''.env.example'') (lit ''.env''))
                    (print_line (lit ''Created .env from .env.example''))
       else print_line (lit ''.env already exists''))"

section \<open>tools/collect_logs.py\<close>

text \<open>\<open>subprocess.run(command, check=True, capture_output=True).stdout\<close>\<close>

definition run_command :: "'x tools \<Rightarrow> string list \<Rightarrow> ('x tool_world, pystr) io" where
  "run_command T command =
     io_bind (call_tool (subprocess T (map lit command))) (\<lambda>(code, output).
       if code \<noteq> 0 then io_raise (CalledProcessError code) else io_return output)"

definition collect_main :: "'x tools \<Rightarrow> pystr \<Rightarrow> ('x tool_world, unit) io" where
  "collect_main T output_dir =
     io_then (make_dirs T output_dir)
    (io_bind (run_command T [''docker'', ''compose'', ''ps'']) (\<lambda>listing.
     io_then (write_text T (output_dir @ lit ''/compose-ps.txt'') listing)
    (io_bind (run_command T [''docker'', ''compose'', ''logs'', ''--no-color'']) (\<lambda>output.
     write_text T (output_dir @ lit ''/compose-logs.txt'') output))))"

section \<open>tools/hardening_check.py\<close>

definition missing_marker :: "pystr \<Rightarrow> pystr \<Rightarrow> pystr" where
  "missing_marker path marker = path @ lit '' is missing marker: '' @ marker"

definition require_markers ::
  "'x tools \<Rightarrow> string \<Rightarrow> string list \<Rightarrow> pystr list \<Rightarrow> ('x tool_world, pystr list) io" where
  "require_markers T path markers errors =
     io_bind (read_text T (lit path)) (\<lambda>s.
       io_return (errors @ map (\<lambda>marker. missing_marker (lit path) (lit marker))
         (filter (\<lambda>marker. \<not> occurs_in (lit marker) s) markers)))"

definition dockerfile_markers :: "string list" where
  "dockerfile_markers = [''adduser --disabled-password'', ''USER appuser'', ''HEALTHCHECK'']"

definition ci_markers :: "string list" where
  "ci_markers =
     [''Hardening policy check'', ''tools/hardening_check.py'',
      ''python -m ruff check app tests tools'', ''python -m pytest -q'', ''docker compose config'',
      ''tools/smoke_check.py'', ''tools/collect_logs.py'']"

definition compose_markers :: "string list" where
  "compose_markers =
     [''nginx:1.27-alpine'', ''rabbitmq:3.13-management-alpine'', ''RETRY_QUEUE_NAME'',
      ''DEAD_LETTER_QUEUE_NAME'', ''RABBITMQ_MAX_DELIVERY_ATTEMPTS'', ''prom/prometheus'',
      ''prom/alertmanager'', ''grafana/grafana-oss'', ''otel/opentelemetry-collector-contrib'',
      ''grafana/tempo'', ''healthcheck:'']"

definition required_assets :: "string list" where
  "required_assets =
     [''nginx/default.conf'', ''prometheus.yml'', ''alerts.yml'', ''alertmanager.yml'',
      ''rabbitmq/enabled_plugins'', ''otel-collector/config.yml'', ''tempo/config.yml'',
      ''tools/smoke_check.py'', ''tools/send_signed_webhook.py'', ''tools/redrive_dlq.py'',
      ''tools/collect_logs.py'', ''docs/hardening.md'']"

definition readme_markers :: "string list" where
  "readme_markers =
     [''`RabbitMQ` with main queue, retry queue, and dead-letter queue'', ''DLQ redrive'',
      ''hardening policy check'', ''docs/hardening.md'', ''compose-smoke'']"

definition router_markers :: "string list" where
  "router_markers = [''redrive_dead_letter'', ''/queue/dlq/redrive'']"

fun require_assets :: "string list \<Rightarrow> pystr list \<Rightarrow> ('x tool_world, pystr list) io" where
  "require_assets [] errors = io_return errors"
| "require_assets (path # rest) errors =
     io_bind (file_exists (lit path)) (\<lambda>present.
       require_assets rest
         (if present then errors
          else errors @ [lit ''missing required hardening asset: '' @ lit path]))"

text \<open>The calls that collect the errors, in the order of the script.\<close>

definition collect_errors :: "'x tools \<Rightarrow> ('x tool_world, pystr list) io" where
  "collect_errors T =
     io_bind (require_markers T ''Dockerfile'' dockerfile_markers []) (\<lambda>errors.
     io_bind (require_markers T ''.github/workflows/ci.yml'' ci_markers errors) (\<lambda>errors.
     io_bind (require_markers T ''docker-compose.yml'' compose_markers errors) (\<lambda>errors.
     io_bind (require_assets required_assets errors) (\<lambda>errors.
     io_bind (require_markers T ''README.md'' readme_markers errors) (\<lambda>errors.
     require_markers T ''app/routers/webhooks.py'' router_markers errors)))))"

definition report :: "pystr list \<Rightarrow> json" where
  "report errors =
     JObj
       [(lit ''status'', JStr (if errors \<noteq> [] then lit ''failed'' else lit ''passed'')),
        (lit ''checks'', JArr (map (\<lambda>s. JStr (lit s))
           [''application image runs as non-root'',
            ''CI includes event workload hardening policy and compose smoke'',
            ''RabbitMQ retry/DLQ/redrive assets are present'',
            ''compose stack includes edge, async, observability, and health checks'',
            ''operator tools and hardening docs are present''])),
        (lit ''errors'', JArr (map JStr errors))]"

text \<open>\<open>json.dumps(v, indent=2)\<close>, at a level of nesting.\<close>

definition new_line :: "nat \<Rightarrow> pystr" where
  "new_line level = 10 # replicate (2 * level) 32"

fun json_indented :: "(pyfloat \<Rightarrow> pystr) \<Rightarrow> nat \<Rightarrow> json \<Rightarrow> exn + pystr"
  and indented_elems :: "(pyfloat \<Rightarrow> pystr) \<Rightarrow> nat \<Rightarrow> json list \<Rightarrow> exn + pystr"
  and indented_members :: "(pyfloat \<Rightarrow> pystr) \<Rightarrow> nat \<Rightarrow> dict \<Rightarrow> exn + pystr" where
  "json_indented fr level (JArr xs) =
     (if xs = [] then Inr (lit ''[]'')
      else sum_bind (indented_elems fr (level + 1) xs) (\<lambda>t.
        Inr ([91] @ new_line (level + 1) @ t @ new_line level @ [93])))"
| "json_indented fr level (JObj ms) =
     (if ms = [] then Inr (lit ''{}'')
      else sum_bind (indented_members fr (level + 1) ms) (\<lambda>t.
        Inr ([123] @ new_line (level + 1) @ t @ new_line level @ [125])))"
| "json_indented fr level JNull = Inr (lit ''null'')"
| "json_indented fr level (JBool b) = Inr (if b then lit ''true'' else lit ''false'')"
| "json_indented fr level (JInt n) = py_str_int n"
| "json_indented fr level (JFloat f) = Inr (fr f)"
| "json_indented fr level (JStr s) = Inr (json_quote s)"
| "indented_elems fr level [] = Inr []"
| "indented_elems fr level (x # xs) =
     sum_bind (json_indented fr level x) (\<lambda>a.
       if xs = [] then Inr a
       else sum_bind (indented_elems fr level xs) (\<lambda>t. Inr (a @ [44] @ new_line level @ t)))"
| "indented_members fr level [] = Inr []"
| "indented_members fr level ((k, x) # ms) =
     sum_bind (json_indented fr level x) (\<lambda>a.
       if ms = [] then Inr (json_quote k @ [58, 32] @ a)
       else sum_bind (indented_members fr level ms) (\<lambda>t.
         Inr (json_quote k @ [58, 32] @ a @ [44] @ new_line level @ t)))"

definition report_path :: pystr where
  "report_path = lit ''artifacts/hardening/hardening-report.json''"

fun print_errors :: "pystr list \<Rightarrow> ('x tool_world, unit) io" where
  "print_errors [] = io_return ()"
| "print_errors (e # es) = io_then (print_error (lit ''ERROR: '' @ e)) (print_errors es)"

text \<open>\<open>main\<close>; its result is the exit code. \<open>root\<close> is the root as the last line prints it.\<close>

definition hardening_main :: "'x tools \<Rightarrow> pystr \<Rightarrow> ('x tool_world, int) io" where
  "hardening_main T root =
     io_bind (collect_errors T) (\<lambda>errors.
     io_then (make_dirs T (lit ''artifacts/hardening''))
    (io_bind (io_lift (json_indented (float_repr T) 0 (report errors))) (\<lambda>s.
     io_then (write_text T report_path (s @ [10]))
    (if errors \<noteq> [] then io_then (print_errors errors) (io_return 1)
     else
       io_then (print_line (lit ''Webhook workload hardening checks passed.''))
      (io_then (print_line (lit ''Report: '' @ root @ lit ''/'' @ report_path))
               (io_return 0))))))"

section \<open>The verdict of the hardening check\<close>

text \<open>
  The policy, said without the script: what every searched file must contain and which other files
  must be there, in the order in which violations are reported.
\<close>

datatype requirement = Marker string string | Asset string

definition policy :: "requirement list" where
  "policy =
     [Marker ''Dockerfile'' ''adduser --disabled-password'',
      Marker ''Dockerfile'' ''USER appuser'',
      Marker ''Dockerfile'' ''HEALTHCHECK''] @
     map (Marker ''.github/workflows/ci.yml'')
       [''Hardening policy check'', ''tools/hardening_check.py'',
        ''python -m ruff check app tests tools'', ''python -m pytest -q'',
        ''docker compose config'', ''tools/smoke_check.py'', ''tools/collect_logs.py''] @
     map (Marker ''docker-compose.yml'')
       [''nginx:1.27-alpine'', ''rabbitmq:3.13-management-alpine'', ''RETRY_QUEUE_NAME'',
        ''DEAD_LETTER_QUEUE_NAME'', ''RABBITMQ_MAX_DELIVERY_ATTEMPTS'', ''prom/prometheus'',
        ''prom/alertmanager'', ''grafana/grafana-oss'', ''otel/opentelemetry-collector-contrib'',
        ''grafana/tempo'', ''healthcheck:''] @
     map Asset
       [''nginx/default.conf'', ''prometheus.yml'', ''alerts.yml'', ''alertmanager.yml'',
        ''rabbitmq/enabled_plugins'', ''otel-collector/config.yml'', ''tempo/config.yml'',
        ''tools/smoke_check.py'', ''tools/send_signed_webhook.py'', ''tools/redrive_dlq.py'',
        ''tools/collect_logs.py'', ''docs/hardening.md''] @
     map (Marker ''README.md'')
       [''`RabbitMQ` with main queue, retry queue, and dead-letter queue'', ''DLQ redrive'',
        ''hardening policy check'', ''docs/hardening.md'', ''compose-smoke''] @
     map (Marker ''app/routers/webhooks.py'') [''redrive_dead_letter'', ''/queue/dlq/redrive'']"

text \<open>The text of a file, when there is such a file and it holds text.\<close>

definition file_text :: "(pystr \<rightharpoonup> bytes) \<Rightarrow> string \<Rightarrow> pystr option" where
  "file_text fs path =
     (case fs (lit path) of
        None \<Rightarrow> None
      | Some content \<Rightarrow>
          (case utf8_decode content of Inl _ \<Rightarrow> None | Inr s \<Rightarrow> Some (universal_newlines s)))"

text \<open>What is said about one requirement: nothing, or one line that names what is missing where.\<close>

fun complaint :: "(pystr \<rightharpoonup> bytes) \<Rightarrow> requirement \<Rightarrow> pystr list" where
  "complaint fs (Marker path marker) =
     (case file_text fs path of
        None \<Rightarrow> []
      | Some s \<Rightarrow>
          if \<exists>a b. s = a @ lit marker @ b then []
          else [lit path @ lit '' is missing marker: '' @ lit marker])"
| "complaint fs (Asset path) =
     (if fs (lit path) = None then [lit ''missing required hardening asset: '' @ lit path] else [])"

definition violations :: "(pystr \<rightharpoonup> bytes) \<Rightarrow> pystr list" where
  "violations fs = concat (map (complaint fs) policy)"

abbreviation outputs :: "'x tool_world \<Rightarrow> (pystr \<rightharpoonup> bytes) \<times> pystr list \<times> pystr list" where
  "outputs w \<equiv> (files w, stdout w, stderr w)"

lemma keeps_call_tool [keeps_rules]: "keeps outputs (call_tool f)"
  by (auto simp: keeps_def call_tool_def split: prod.splits)

lemma keeps_checks [keeps_rules]:
  "keeps outputs (read_text T path)" "keeps outputs (require_markers T path' markers errors)"
  "keeps outputs (make_dirs T dir)"
  unfolding read_text_def require_markers_def make_dirs_def by (intro keeps_rules)+

lemma keeps_require_assets [keeps_rules]: "keeps outputs (require_assets paths errors)"
  by (induction paths arbitrary: errors) (simp_all only: require_assets.simps file_exists_def, (intro keeps_rules | simp)+)

lemma keeps_collect_errors: "keeps outputs (collect_errors T)"
  unfolding collect_errors_def by (intro keeps_rules)

lemma require_markers_run:
  assumes "require_markers T path markers errors w = (Inr es, w')"
  shows "file_text (files w) path \<noteq> None \<and>
    es = errors @ concat (map (complaint (files w)) (map (Marker path) markers))"
proof -
  obtain content s where c: "files w (lit path) = Some content" "utf8_decode content = Inr s"
    "es = errors @ map (\<lambda>marker. missing_marker (lit path) (lit marker))
       (filter (\<lambda>marker. \<not> occurs_in (lit marker) (universal_newlines s)) markers)"
    using assms
    by (auto simp: require_markers_def read_text_def io_bind_def sum_bind_def
        split: option.splits sum.splits prod.splits)
  have found: "file_text (files w) path = Some (universal_newlines s)"
    using c by (simp add: file_text_def)
  have "map (\<lambda>marker. missing_marker (lit path) (lit marker))
      (filter (\<lambda>marker. \<not> occurs_in (lit marker) (universal_newlines s)) ms)
    = concat (map (complaint (files w)) (map (Marker path) ms))" for ms
    by (induction ms) (auto simp: found occurs_in_iff missing_marker_def)
  then show ?thesis using c found by simp
qed

lemma require_assets_run:
  "require_assets paths errors w = (Inr es, w') \<Longrightarrow>
     es = errors @ concat (map (complaint (files w)) (map Asset paths))"
proof (induction paths arbitrary: errors)
  case (Cons path paths)
  then show ?case using Cons.IH [of "errors @ complaint (files w) (Asset path)"]
    by (auto simp: file_exists_def io_bind_def split: if_splits)
qed simp

lemma io_bind_InrE:
  assumes "io_bind m f w = (Inr y, w')"
  obtains x w1 where "m w = (Inr x, w1)" "f x w1 = (Inr y, w')"
  using assms by (auto simp: io_bind_def split: prod.splits sum.splits)

definition searched :: "string list" where
  "searched = [''Dockerfile'', ''.github/workflows/ci.yml'', ''docker-compose.yml'', ''README.md'',
     ''app/routers/webhooks.py'']"

lemma policy_sections:
  "policy = map (Marker ''Dockerfile'') dockerfile_markers @
     map (Marker ''.github/workflows/ci.yml'') ci_markers @
     map (Marker ''docker-compose.yml'') compose_markers @ map Asset required_assets @
     map (Marker ''README.md'') readme_markers @
     map (Marker ''app/routers/webhooks.py'') router_markers"
  by (simp add: policy_def dockerfile_markers_def ci_markers_def compose_markers_def
      required_assets_def readme_markers_def router_markers_def)

lemma collect_errors_run:
  assumes "collect_errors T w = (Inr es, w')"
  shows "es = violations (files w) \<and> list_all (\<lambda>path. file_text (files w) path \<noteq> None) searched"
proof -
  obtain e1 w1 e2 w2 e3 w3 e4 w4 e5 w5 where
      r: "require_markers T ''Dockerfile'' dockerfile_markers [] w = (Inr e1, w1)"
      "require_markers T ''.github/workflows/ci.yml'' ci_markers e1 w1 = (Inr e2, w2)"
      "require_markers T ''docker-compose.yml'' compose_markers e2 w2 = (Inr e3, w3)"
      "require_assets required_assets e3 w3 = (Inr e4, w4)"
      "require_markers T ''README.md'' readme_markers e4 w4 = (Inr e5, w5)"
      "require_markers T ''app/routers/webhooks.py'' router_markers e5 w5 = (Inr es, w')"
    using assms unfolding collect_errors_def by (elim io_bind_InrE)
  have "files w1 = files w" "files w2 = files w" "files w3 = files w" "files w4 = files w" "files w5 = files w"
    using keepsD_run [OF keeps_checks(2) r(1)] keepsD_run [OF keeps_checks(2) r(2)]
      keepsD_run [OF keeps_checks(2) r(3)] keepsD_run [OF keeps_require_assets r(4)]
      keepsD_run [OF keeps_checks(2) r(5)] by simp_all
  then show ?thesis
    using require_markers_run [OF r(1)] require_markers_run [OF r(2)] require_markers_run [OF r(3)]
      require_assets_run [OF r(4)] require_markers_run [OF r(5)] require_markers_run [OF r(6)]
    by (simp add: violations_def policy_sections searched_def)
qed

lemma report_shape:
  "\<exists>checks. report errors = JObj
     [(lit ''status'', JStr (if errors = [] then lit ''passed'' else lit ''failed'')),
      (lit ''checks'', JArr (map JStr checks)), (lit ''errors'', JArr (map JStr errors))]"
  unfolding report_def
  by (rule exI [of _ "map lit
      [''application image runs as non-root'',
       ''CI includes event workload hardening policy and compose smoke'',
       ''RabbitMQ retry/DLQ/redrive assets are present'',
       ''compose stack includes edge, async, observability, and health checks'',
       ''operator tools and hardening docs are present'']"]) simp

lemma print_errors_run:
  "print_errors es w = (Inr (), w\<lparr>stderr := stderr w @ map (\<lambda>e. lit ''ERROR: '' @ e) es\<rparr>)"
  by (induction es arbitrary: w) (simp_all add: print_error_def io_bind_def)

lemma write_text_cases:
  assumes "write_text T path s w = (r, w')"
  obtains (written) content where "r = Inr ()" "utf8_encode s = Inr content"
      "files w' = (files w)(path \<mapsto> content)" "stdout w' = stdout w" "stderr w' = stderr w"
    | (failed) e where "r = Inl e" "outputs w' = outputs w"
proof -
  obtain a w1 where a: "call_tool (file_allows T path) w = (a, w1)" by fastforce
  have "outputs w1 = outputs w" using keepsD_run [OF keeps_call_tool a] .
  then show thesis
    using assms a that by (cases a; cases "utf8_encode s") (auto simp: write_text_def io_bind_def)
qed

text \<open>
  C29: the verdict of the hardening check. When the check ends, every file it searches is there and
  holds text; its exit code is 0 exactly if nothing violates the policy; it has printed one error
  line for each violation, in the order of the policy, naming the file and the marker or the asset,
  or else the two lines of success; and the one file it has written is the report with the same
  status and the same list. When it raises (a file it searches is missing or not text, or the
  report cannot be written), it has written and printed nothing.
\<close>

theorem hardening_check_verdict:
  "case hardening_main T root w of
     (Inr code, w') \<Rightarrow> list_all (\<lambda>path. file_text (files w) path \<noteq> None)
         [''Dockerfile'', ''.github/workflows/ci.yml'', ''docker-compose.yml'', ''README.md'',
          ''app/routers/webhooks.py''] \<and>
       code = (if violations (files w) = [] then 0 else 1) \<and>
       stderr w' = stderr w @ map (\<lambda>e. lit ''ERROR: '' @ e) (violations (files w)) \<and>
       stdout w' = stdout w @
         (if violations (files w) = []
          then [lit ''Webhook workload hardening checks passed.'',
            lit ''Report: '' @ root @ lit ''/artifacts/hardening/hardening-report.json'']
          else []) \<and>
       (\<exists>checks s content.
         files w' = (files w)(lit ''artifacts/hardening/hardening-report.json'' \<mapsto> content) \<and>
         utf8_decode content = Inr (s @ [10]) \<and>
         json_indented (float_repr T) 0 (JObj
           [(lit ''status'', JStr (if violations (files w) = [] then lit ''passed'' else lit ''failed'')),
            (lit ''checks'', JArr (map JStr checks)),
            (lit ''errors'', JArr (map JStr (violations (files w))))]) = Inr s)
   | (Inl e, w') \<Rightarrow> outputs w' = outputs w"
proof -
  obtain r1 w1 where r1: "collect_errors T w = (r1, w1)" by fastforce
  have f1: "outputs w1 = outputs w" using keepsD_run [OF keeps_collect_errors r1] .
  show ?thesis
  proof (cases r1)
    case (Inl e)
    then show ?thesis using r1 f1 by (simp add: hardening_main_def)
  next
    case (Inr errors)
    obtain r2 w2 where r2: "make_dirs T (lit ''artifacts/hardening'') w1 = (r2, w2)" by fastforce
    have f2: "outputs w2 = outputs w" using keepsD_run [OF keeps_checks(3) r2] f1 by simp
    have errors: "errors = violations (files w)"
      and there: "list_all (\<lambda>path. file_text (files w) path \<noteq> None) searched"
      using collect_errors_run r1 Inr by blast+
    show ?thesis
    proof (cases r2)
      case (Inl e)
      then show ?thesis using r1 \<open>r1 = Inr errors\<close> r2 f2 by (simp add: hardening_main_def)
    next
      case (Inr u)
      show ?thesis
      proof (cases "json_indented (float_repr T) 0 (report errors)")
        case (Inl e)
        then show ?thesis using r1 \<open>r1 = Inr errors\<close> r2 Inr f2 by (simp add: hardening_main_def)
      next
        case s: (Inr s)
        obtain r3 w3 where r3: "write_text T report_path (s @ [10]) w2 = (r3, w3)" by fastforce
        have run: "hardening_main T root w =
            io_bind (\<lambda>w. (r3, w3)) (\<lambda>_. if errors \<noteq> [] then io_then (print_errors errors) (io_return 1)
              else io_then (print_line (lit ''Webhook workload hardening checks passed.''))
                  (io_then (print_line (lit ''Report: '' @ root @ lit ''/'' @ report_path)) (io_return 0))) w2"
          using r1 \<open>r1 = Inr errors\<close> r2 Inr s r3 by (simp add: hardening_main_def io_bind_def)
        from r3 show ?thesis
        proof (cases rule: write_text_cases)
          case (written content)
          have w3: "files w3 = (files w)(report_path \<mapsto> content)" "stdout w3 = stdout w" "stderr w3 = stderr w"
            using written f2 by simp_all
          have out: "hardening_main T root w = (Inr (if errors = [] then 0 else 1),
              w3\<lparr>stdout := stdout w @ (if errors = []
                  then [lit ''Webhook workload hardening checks passed.'',
                    lit ''Report: '' @ root @ lit ''/'' @ report_path] else []),
                 stderr := stderr w @ map (\<lambda>e. lit ''ERROR: '' @ e) errors\<rparr>)"
            using run written(1) w3 by (auto simp: io_bind_def print_errors_run print_line_def)
          have slash: "lit ''/'' @ report_path = lit ''/artifacts/hardening/hardening-report.json''"
            by (simp add: report_path_def lit_def)
          obtain checks where "report errors = JObj
             [(lit ''status'', JStr (if errors = [] then lit ''passed'' else lit ''failed'')),
              (lit ''checks'', JArr (map JStr checks)), (lit ''errors'', JArr (map JStr errors))]"
            using report_shape by blast
          note made = s [unfolded this] there [unfolded searched_def] utf8.dec_enc [OF written(2)]
          show ?thesis
            unfolding out prod.case sum.case errors [symmetric] slash [symmetric] report_path_def [symmetric]
            by (intro conjI exI [of _ checks] exI [of _ s] exI [of _ content] made) (simp_all add: w3)
        next
          case (failed e)
          then show ?thesis using run f2 by (simp add: io_bind_def)
        qed
      qed
    qed
  qed
qed

end
