(* ===== verification/Clients.thy ===== *)
theory Clients
  imports ToolWorld
begin

text \<open>
  tools/send_signed_webhook.py and tools/redrive_dlq.py, from the arguments that argparse hands
  over. The requests they build are what the service of App answers.
\<close>

section \<open>tools/send_signed_webhook.py\<close>

record send_args =
  send_base_url :: pystr
  send_secret :: pystr
  send_api_key :: pystr
  send_delivery_id :: pystr
  send_payload_json :: pystr

definition signed_request ::
  "pystr \<Rightarrow> pystr \<Rightarrow> pystr \<Rightarrow> bytes \<Rightarrow> pystr \<Rightarrow> pystr \<Rightarrow> http_request" where
  "signed_request base_url key dlv body ts signature =
     \<lparr>http_url = rstrip_slash base_url @ lit ''/webhook'',
      http_method = lit ''POST'',
      http_headers =
        [(lit ''Content-Type'', lit ''application/json''),
         (lit ''X-API-KEY'', key),
         (lit ''X-Webhook-ID'', dlv),
         (lit ''X-Webhook-Timestamp'', ts),
         (lit ''X-Webhook-Signature'', signature)],
      http_data = Some body\<rparr>"

definition read_json :: "bytes \<Rightarrow> exn + json" where
  "read_json content = sum_bind (utf8_decode content) json_loads"

definition send_webhook ::
  "'x tools \<Rightarrow> pystr \<Rightarrow> pystr \<Rightarrow> pystr \<Rightarrow> json \<Rightarrow> pystr \<Rightarrow> ('x tool_world, json) io" where
  "send_webhook T base_url secret key data dlv =
     io_bind (io_lift (sum_bind (json_dumps (float_repr T) [44] [58] data) utf8_encode)) (\<lambda>body.
     io_bind (read_clock T) (\<lambda>now.
     let timestamp = whole_seconds now
     in io_bind (io_lift (py_str_int timestamp)) (\<lambda>ts.
        io_bind (io_lift (build_signature secret body timestamp)) (\<lambda>signature.
        io_bind (urlopen T (signed_request base_url key dlv body ts signature))
          (\<lambda>(_, content). io_lift (read_json content))))))"

definition send_main :: "'x tools \<Rightarrow> send_args \<Rightarrow> ('x tool_world, unit) io" where
  "send_main T args =
     io_bind (io_lift (json_loads (send_payload_json args))) (\<lambda>payload.
     io_bind (send_webhook T (send_base_url args) (send_secret args) (send_api_key args) payload
                (send_delivery_id args)) (\<lambda>result.
     io_bind (io_lift (dumps_default (float_repr T) result)) print_line))"

section \<open>tools/redrive_dlq.py\<close>

record redrive_args =
  redrive_base_url :: pystr
  redrive_api_key :: pystr
  redrive_limit :: int

definition default_redrive_args :: redrive_args where
  "default_redrive_args =
     \<lparr>redrive_base_url = lit ''http://127.0.0.1:18180'', redrive_api_key = lit ''supersecret'',
      redrive_limit = 10\<rparr>"

definition redrive_request :: "redrive_args \<Rightarrow> pystr \<Rightarrow> http_request" where
  "redrive_request args limit =
     \<lparr>http_url = rstrip_slash (redrive_base_url args) @ lit ''/queue/dlq/redrive?limit='' @ limit,
      http_method = lit ''POST'',
      http_headers = [(lit ''X-API-KEY'', redrive_api_key args)],
      http_data = None\<rparr>"

definition redrive_main :: "'x tools \<Rightarrow> redrive_args \<Rightarrow> ('x tool_world, unit) io" where
  "redrive_main T args =
     io_bind (io_lift (py_str_int (redrive_limit args))) (\<lambda>limit.
     io_bind (urlopen T (redrive_request args limit)) (\<lambda>(_, content).
     io_bind (io_lift (utf8_decode content)) print_line))"

section \<open>What one call of the client does\<close>

lemma urlopen_run:
  "urlopen T req w =
     (case exchange T req (tool_ext w) of (r, x) \<Rightarrow>
        (case r of
           Inr (code, body) \<Rightarrow>
             if 200 \<le> code \<and> code < 300 then Inr (code, body) else Inl (HTTPError code body)
         | Inl fault \<Rightarrow> Inl (External fault),
         w\<lparr>tool_ext := x, exchanges := exchanges w @ [(req, r)]\<rparr>))"
  by (auto simp: urlopen_def send_request_def io_bind_def split: prod.splits sum.splits)

end
