(* ===== verification/Smoke.thy ===== *)
theory Smoke
  imports Clients
begin

text \<open>
  tools/smoke_check.py: the end-to-end check of a running stack, from the arguments that argparse
  hands over. Times are in microseconds. The loop of \<open>wait_for\<close> has fuel: with none left it is
  still waiting, which is the result \<open>None\<close>; a theorem below says how much is enough.
\<close>

section \<open>Helpers\<close>

definition json_headers :: "(pystr \<times> pystr) list \<Rightarrow> (pystr \<times> pystr) list" where
  "json_headers hdrs =
     foldl (\<lambda>d (k, v). AList.update k v d) [(lit ''Content-Type'', lit ''application/json'')] hdrs"

definition json_request ::
  "'x tools \<Rightarrow> pystr \<Rightarrow> pystr \<Rightarrow> (pystr \<times> pystr) list \<Rightarrow> json option \<Rightarrow> exn + http_request" where
  "json_request T url meth hdrs data =
     (case data of
        None \<Rightarrow> Inr \<lparr>http_url = url, http_method = meth, http_headers = hdrs, http_data = None\<rparr>
      | Some v \<Rightarrow>
          sum_bind (sum_bind (dumps_default (float_repr T) v) utf8_encode) (\<lambda>body.
          Inr \<lparr>http_url = url, http_method = meth, http_headers = json_headers hdrs,
            http_data = Some body\<rparr>))"

definition decoded :: "nat \<times> bytes \<Rightarrow> exn + nat \<times> pystr" where
  "decoded answer = (case answer of (code, body) \<Rightarrow>
     sum_bind (utf8_decode body) (\<lambda>content. Inr (code, content)))"

definition request_json ::
  "'x tools \<Rightarrow> pystr \<Rightarrow> pystr \<Rightarrow> (pystr \<times> pystr) list \<Rightarrow> json option \<Rightarrow> nat \<Rightarrow>
    ('x tool_world, json) io" where
  "request_json T url meth hdrs data expected_status =
     io_bind (io_lift (json_request T url meth hdrs data)) (\<lambda>req.
     io_bind
       (io_catch
         (io_bind (urlopen T req) (\<lambda>answer. io_lift (decoded answer)))
         (\<lambda>e. case e of HTTPError code body \<Rightarrow> io_lift (decoded (code, body)) | _ \<Rightarrow> io_raise e))
       (\<lambda>(status, content).
         if status \<noteq> expected_status
         then io_raise (RuntimeError (url @ lit '' returned '' @ number_text status @
                lit '', expected '' @ number_text expected_status @ lit '': '' @ content))
         else if content = [] then io_return (JObj []) else io_lift (json_loads content)))"

definition request_ok :: "'x tools \<Rightarrow> pystr \<Rightarrow> ('x tool_world, unit) io" where
  "request_ok T url =
     io_bind (urlopen T (get_request url)) (\<lambda>(code, _).
       if code \<noteq> 200
       then io_raise (RuntimeError (url @ lit '' returned '' @ number_text code @ lit '' instead of 200''))
       else io_return ())"

fun wait_loop ::
  "'x tools \<Rightarrow> ('x tool_world, json) io \<Rightarrow> int \<Rightarrow> int \<Rightarrow> pystr \<Rightarrow> int \<Rightarrow> nat \<Rightarrow>
    ('x tool_world, json option) io" where
  "wait_loop T predicate timeout pause description started 0 = io_return None"
| "wait_loop T predicate timeout pause description started (Suc n) =
     io_bind (read_clock T) (\<lambda>now.
       if now - started < timeout then
         io_bind predicate (\<lambda>result.
           if truthy result then io_return (Some result)
           else io_then (io_modify (\<lambda>w. w\<lparr>tool_ext := sleep T pause (tool_ext w)\<rparr>))
                  (wait_loop T predicate timeout pause description started n))
       else io_raise (RuntimeError (lit ''Timed out waiting for '' @ description)))"

definition wait_for ::
  "'x tools \<Rightarrow> nat \<Rightarrow> ('x tool_world, json) io \<Rightarrow> int \<Rightarrow> int \<Rightarrow> pystr \<Rightarrow>
    ('x tool_world, json option) io" where
  "wait_for T n predicate timeout pause description =
     io_bind (read_clock T) (\<lambda>started. wait_loop T predicate timeout pause description started n)"

section \<open>The checks\<close>

record smoke_args =
  smoke_base_url :: pystr
  prometheus_url :: pystr
  alertmanager_url :: pystr
  grafana_url :: pystr
  tempo_url :: pystr
  smoke_api_key :: pystr
  smoke_secret :: pystr

definition default_smoke_args :: smoke_args where
  "default_smoke_args =
     \<lparr>smoke_base_url = lit ''http://127.0.0.1:18180'',
      prometheus_url = lit ''http://127.0.0.1:19190'',
      alertmanager_url = lit ''http://127.0.0.1:19193'',
      grafana_url = lit ''http://127.0.0.1:13150'',
      tempo_url = lit ''http://127.0.0.1:13221'',
      smoke_api_key = lit ''supersecret'',
      smoke_secret = lit ''topsecret''\<rparr>"

definition base_url :: "smoke_args \<Rightarrow> pystr" where
  "base_url args = rstrip_slash (smoke_base_url args)"

definition auth_headers :: "smoke_args \<Rightarrow> (pystr \<times> pystr) list" where
  "auth_headers args = [(lit ''X-API-KEY'', smoke_api_key args)]"

definition get_json :: "'x tools \<Rightarrow> smoke_args \<Rightarrow> string \<Rightarrow> ('x tool_world, json) io" where
  "get_json T args path =
     request_json T (base_url args @ lit path) (lit ''GET'') (auth_headers args) None 200"

definition smoke_payload :: "string \<Rightarrow> dict \<Rightarrow> json" where
  "smoke_payload etype data =
     JObj [(lit ''source'', JStr (lit ''smoke'')), (lit ''event_type'', JStr (lit etype)),
           (lit ''payload'', JObj data)]"

definition check_health :: "'x tools \<Rightarrow> smoke_args \<Rightarrow> ('x tool_world, unit) io" where
  "check_health T args =
     io_bind (request_json T (base_url args @ lit ''/health'') (lit ''GET'') [] None 200) (\<lambda>health.
     io_bind (io_lift (json_subscript health (lit ''status''))) (\<lambda>status.
     if status \<noteq> JStr (lit ''ok'')
     then io_raise (RuntimeError (lit ''Health check failed: '' @ json_str T health))
     else io_return ()))"

text \<open>A webhook whose answer must have the status \<open>wanted\<close>.\<close>

definition deliver_expecting ::
  "'x tools \<Rightarrow> smoke_args \<Rightarrow> pystr \<Rightarrow> string \<Rightarrow> ('x tool_world, unit) io" where
  "deliver_expecting T args dlv wanted =
     io_bind (send_webhook T (base_url args) (smoke_secret args) (smoke_api_key args)
                (smoke_payload ''demo.accepted'' [(lit ''kind'', JStr (lit ''accepted''))]) dlv) (\<lambda>answer.
     io_bind (io_lift (json_subscript answer (lit ''status''))) (\<lambda>status.
     if status \<noteq> JStr (lit wanted)
     then io_raise (RuntimeError (lit ''Expected '' @ lit wanted @ lit '' webhook, got '' @ json_str T answer))
     else io_return ()))"

definition check_invalid_signature :: "'x tools \<Rightarrow> smoke_args \<Rightarrow> ('x tool_world, json) io" where
  "check_invalid_signature T args =
     io_bind (read_clock T) (\<lambda>now.
     io_bind (io_lift (py_str_int (whole_seconds now))) (\<lambda>ts.
     request_json T (base_url args @ lit ''/webhook'') (lit ''POST'')
       [(lit ''X-API-KEY'', smoke_api_key args),
        (lit ''X-Webhook-ID'', lit ''smoke-invalid-signature''),
        (lit ''X-Webhook-Timestamp'', ts),
        (lit ''X-Webhook-Signature'', lit ''invalid'')]
       (Some (smoke_payload ''demo.invalid'' [(lit ''kind'', JStr (lit ''invalid''))])) 401))"

definition or_zero :: "json \<Rightarrow> json" where
  "or_zero v = (if truthy v then v else JInt 0)"

definition dlq_ready :: "'x tools \<Rightarrow> smoke_args \<Rightarrow> ('x tool_world, json) io" where
  "dlq_ready T args =
     io_bind (get_json T args ''/queue/stats'') (\<lambda>stats.
     io_bind (get_json T args ''/events/summary'') (\<lambda>summary.
     io_bind (io_lift (json_get stats (lit ''dead_letter_depth'') JNull)) (\<lambda>depth.
     io_bind (io_lift (json_ge (or_zero depth) 1)) (\<lambda>dead.
     if \<not> dead then io_return JNull
     else
       io_bind (io_lift (json_get summary (lit ''failed'') (JInt 0))) (\<lambda>n_failed.
       io_bind (io_lift (json_ge n_failed 1)) (\<lambda>any_failed.
       io_return (if any_failed then stats else JNull)))))))"

definition check_redrive :: "'x tools \<Rightarrow> smoke_args \<Rightarrow> ('x tool_world, unit) io" where
  "check_redrive T args =
     io_bind (request_json T (base_url args @ lit ''/queue/dlq/redrive?limit=10'') (lit ''POST'')
                (auth_headers args) None 202) (\<lambda>redrive.
     io_bind (io_lift (json_subscript redrive (lit ''redriven_count''))) (\<lambda>n.
     io_bind (io_lift (json_less n 1)) (\<lambda>none.
     if none
     then io_raise (RuntimeError (lit ''Expected at least one redriven event, got '' @ json_str T redrive))
     else io_return ())))"

text \<open>The loop of \<open>event_processed\<close> over the items of a page.\<close>

fun search_items ::
  "'x tools \<Rightarrow> smoke_args \<Rightarrow> json \<Rightarrow> json list \<Rightarrow> ('x tool_world, json) io" where
  "search_items T args sent [] = io_return (JBool False)"
| "search_items T args sent (item # rest) =
     io_bind (io_lift (json_subscript item (lit ''id''))) (\<lambda>i.
     io_bind (io_lift (json_subscript sent (lit ''event_id''))) (\<lambda>j.
     if \<not> json_eq i j then search_items T args sent rest
     else
       io_bind (io_lift (json_subscript item (lit ''processing_status''))) (\<lambda>status.
       if status \<noteq> JStr (lit ''processed'') then search_items T args sent rest
       else
         io_bind (get_json T args ''/queue/stats'') (\<lambda>stats.
         io_bind (io_lift (json_get stats (lit ''dead_letter_depth'') JNull)) (\<lambda>depth.
         if json_eq (or_zero depth) (JInt 0) then io_return (JBool True)
         else search_items T args sent rest)))))"

definition event_processed :: "'x tools \<Rightarrow> smoke_args \<Rightarrow> json \<Rightarrow> ('x tool_world, json) io" where
  "event_processed T args sent =
     io_bind (get_json T args ''/events?limit=20&offset=0&source=smoke'') (\<lambda>events.
     io_bind (io_lift (sum_bind (json_subscript events (lit ''items'')) json_iter))
       (search_items T args sent))"

definition check_metrics :: "'x tools \<Rightarrow> smoke_args \<Rightarrow> ('x tool_world, unit) io" where
  "check_metrics T args =
     io_bind (urlopen T (get_request (base_url args @ lit ''/metrics''))) (\<lambda>(_, content).
     io_bind (io_lift (utf8_decode content)) (\<lambda>metrics_text.
     if \<not> occurs_in (lit ''webhook_intake_total'') metrics_text
     then io_raise (RuntimeError (lit ''Prometheus metrics endpoint does not expose webhook_intake_total''))
     else io_return ()))"

definition check_stack :: "'x tools \<Rightarrow> smoke_args \<Rightarrow> ('x tool_world, unit) io" where
  "check_stack T args =
     io_then (request_ok T (rstrip_slash (prometheus_url args) @ lit ''/-/ready''))
    (io_then (request_ok T (rstrip_slash (alertmanager_url args) @ lit ''/-/ready''))
    (io_then (request_json T (rstrip_slash (grafana_url args) @ lit ''/api/health'') (lit ''GET'') [] None 200)
    (io_bind (request_json T (rstrip_slash (tempo_url args) @ lit ''/api/search?q={}&limit=5'')
                (lit ''GET'') [] None 200) (\<lambda>traces.
     if \<not> truthy traces then io_raise (RuntimeError (lit ''Tempo search did not return any traces''))
     else io_return ()))))"

definition success_line :: "'x tools \<Rightarrow> exn + pystr" where
  "success_line T = dumps_default (float_repr T)
     (JObj [(lit ''status'', JStr (lit ''ok'')),
            (lit ''message'', JStr (lit ''Smoke checks completed successfully''))])"

section \<open>The whole check\<close>

definition intake_checks :: "'x tools \<Rightarrow> smoke_args \<Rightarrow> pystr \<Rightarrow> ('x tool_world, unit) io" where
  "intake_checks T args run_id =
     io_then (check_health T args)
    (io_then (deliver_expecting T args (lit ''smoke-accepted-'' @ run_id) ''accepted'')
    (io_then (deliver_expecting T args (lit ''smoke-accepted-'' @ run_id) ''duplicate'')
    (io_then (check_invalid_signature T args)
             (io_return ()))))"

definition closing_checks :: "'x tools \<Rightarrow> smoke_args \<Rightarrow> ('x tool_world, unit) io" where
  "closing_checks T args =
     io_then (check_metrics T args)
    (io_then (check_stack T args)
             (io_bind (io_lift (success_line T)) print_line))"

definition smoke_main :: "'x tools \<Rightarrow> smoke_args \<Rightarrow> nat \<Rightarrow> ('x tool_world, unit option) io" where
  "smoke_main T args n =
     io_bind (read_clock T) (\<lambda>now.
     io_bind (io_lift (py_str_int (whole_seconds now))) (\<lambda>run_id.
     io_then (intake_checks T args run_id)
    (io_bind (send_webhook T (base_url args) (smoke_secret args) (smoke_api_key args)
                (smoke_payload ''demo.retryable'' [(lit ''fail_attempts_remaining'', JInt 3)])
                (lit ''smoke-retryable-'' @ run_id)) (\<lambda>sent.
     io_bind (wait_for T n (dlq_ready T args) 90000000 2000000 (lit ''event to reach DLQ'')) (\<lambda>ready.
     case ready of
       None \<Rightarrow> io_return None
     | Some _ \<Rightarrow>
         io_then (check_redrive T args)
        (io_bind (wait_for T n (event_processed T args sent) 90000000 2000000
                    (lit ''redriven event to process successfully'')) (\<lambda>done.
         case done of
           None \<Rightarrow> io_return None
         | Some _ \<Rightarrow> io_then (closing_checks T args) (io_return (Some ())))))))))"

section \<open>Waiting ends\<close>

text \<open>
  A clock that is not set back: \<open>clk\<close> is the time in a state, no call makes it earlier, and a
  sleep of \<open>d\<close> lasts at least \<open>d\<close>.
\<close>

definition steady :: "'x tools \<Rightarrow> ('x \<Rightarrow> int) \<Rightarrow> bool" where
  "steady T clk \<longleftrightarrow>
     (\<forall>x. clk x \<le> fst (clock T x) \<and> fst (clock T x) \<le> clk (snd (clock T x))) \<and>
     (\<forall>req x. clk x \<le> clk (snd (exchange T req x))) \<and>
     (\<forall>d x. clk x + d \<le> clk (sleep T d x))"

abbreviation time_of :: "('x \<Rightarrow> int) \<Rightarrow> 'x tool_world \<Rightarrow> int" where
  "time_of clk w \<equiv> clk (tool_ext w)"

definition no_earlier :: "('x \<Rightarrow> int) \<Rightarrow> 'x tool_world \<Rightarrow> 'x tool_world \<Rightarrow> bool" where
  "no_earlier clk w w' \<longleftrightarrow> time_of clk w \<le> time_of clk w'"

interpretation passing_time: io_preorder "no_earlier clk" for clk
  by unfold_locales (auto simp: no_earlier_def)

lemma read_clock_run:
  assumes "steady T clk"
  obtains t w' where "read_clock T w = (Inr t, w')" "time_of clk w \<le> t" "t \<le> time_of clk w'"
proof -
  obtain t x where t: "clock T (tool_ext w) = (t, x)" by fastforce
  show thesis
    using assms t by (intro that [of t "w\<lparr>tool_ext := x\<rparr>"])
      (auto simp: read_clock_def steady_def dest: spec [of _ "tool_ext w"])
qed

lemma time_urlopen: "steady T clk \<Longrightarrow> moves (no_earlier clk) (urlopen T req)"
  unfolding urlopen_run moves_def no_earlier_def steady_def
  by (auto simp: urlopen_run split: prod.splits sum.splits) (metis snd_conv)+

lemma time_request_json: "steady T clk \<Longrightarrow> moves (no_earlier clk) (request_json T url meth hdrs data code)"
  unfolding request_json_def
  by (intro moves_rules time_urlopen) (auto split: exn.splits intro: moves_rules)

lemma time_get_json: "steady T clk \<Longrightarrow> moves (no_earlier clk) (get_json T args path)"
  unfolding get_json_def by (rule time_request_json)

lemma time_dlq_ready: "steady T clk \<Longrightarrow> moves (no_earlier clk) (dlq_ready T args)"
  unfolding dlq_ready_def by (intro moves_rules time_get_json)

lemma time_search_items: "steady T clk \<Longrightarrow> moves (no_earlier clk) (search_items T args sent its)"
  by (induction its) (simp_all only: search_items.simps, (intro moves_rules time_get_json | simp)+)

lemma time_event_processed: "steady T clk \<Longrightarrow> moves (no_earlier clk) (event_processed T args sent)"
  unfolding event_processed_def by (intro moves_rules time_get_json time_search_items)

lemma wait_loop_ends:
  assumes "steady T clk" and "moves (no_earlier clk) predicate"
  shows "started + timeout \<le> time_of clk w + int n * pause \<Longrightarrow>
    fst (wait_loop T predicate timeout pause description started (Suc n) w) \<noteq> Inr None"
proof (induction n arbitrary: w)
  case 0
  obtain t w1 where "read_clock T w = (Inr t, w1)" "time_of clk w \<le> t"
    using read_clock_run [OF assms(1)] by metis
  then show ?case using 0 by simp
next
  case (Suc n)
  obtain t w1 where t: "read_clock T w = (Inr t, w1)" "time_of clk w \<le> t" "t \<le> time_of clk w1"
    using read_clock_run [OF assms(1)] by metis
  obtain r w2 where r: "predicate w1 = (r, w2)" by fastforce
  let ?w3 = "w2\<lparr>tool_ext := sleep T pause (tool_ext w2)\<rparr>"
  have "time_of clk w1 \<le> time_of clk w2"
    using movesD_run [OF assms(2) r] by (simp add: no_earlier_def)
  then have "time_of clk w + pause \<le> time_of clk ?w3"
    using t assms(1) by (simp add: steady_def) (smt (verit))
  then have "fst (wait_loop T predicate timeout pause description started (Suc n) ?w3) \<noteq> Inr None"
    using Suc.prems by (intro Suc.IH) (simp add: algebra_simps)
  then show ?case using t(1) r by (cases r) (auto simp del: wait_loop.simps simp: wait_loop.simps(2) [of _ _ _ _ _ _ "Suc n"])
qed

lemma wait_for_ends:
  assumes "steady T clk" and "moves (no_earlier clk) predicate" and "timeout \<le> int n * pause"
  shows "fst (wait_for T (Suc n) predicate timeout pause description w) \<noteq> Inr None"
proof -
  obtain t w1 where "read_clock T w = (Inr t, w1)" "t \<le> time_of clk w1"
    using read_clock_run [OF assms(1)] by metis
  then show ?thesis
    using wait_loop_ends [OF assms(1,2), of t timeout w1 n pause description] assms(3)
    by (simp add: wait_for_def del: wait_loop.simps)
qed

lemma bind_not_None:
  "(\<And>x w'. m w = (Inr x, w') \<Longrightarrow> fst (f x w') \<noteq> Inr None) \<Longrightarrow> fst (io_bind m f w) \<noteq> Inr None"
  by (auto simp: io_bind_def split: prod.splits sum.splits)

lemma bind_wait_not_None:
  "(\<And>u. fst (m u) \<noteq> Inr None) \<Longrightarrow> (\<And>x u. fst (f x u) \<noteq> Inr None) \<Longrightarrow>
    fst (io_bind m (\<lambda>r. case r of None \<Rightarrow> io_return None | Some x \<Rightarrow> f x) w) \<noteq> Inr None"
  by (rule bind_not_None) (metis fst_conv not_None_eq option.simps(5))

section \<open>What a pass is evidence of\<close>

text \<open>
  \<open>log_shows Ps es\<close>: the log \<open>es\<close> has entries that satisfy the conditions \<open>Ps\<close>, in this
  order. \<open>logs m Q\<close>: the run of \<open>m\<close> only adds to the exchanges, and when it returns \<open>x\<close>, what it
  added satisfies \<open>Q x\<close>.
\<close>

fun log_shows :: "('e \<Rightarrow> bool) list \<Rightarrow> 'e list \<Rightarrow> bool" where
  "log_shows [] es \<longleftrightarrow> True"
| "log_shows (P # Ps) [] \<longleftrightarrow> False"
| "log_shows (P # Ps) (e # es) \<longleftrightarrow> (if P e then log_shows Ps es else log_shows (P # Ps) es)"

lemma log_shows_tl: "log_shows (P # Ps) es \<Longrightarrow> log_shows Ps es"
proof (induction es arbitrary: P Ps)
  case (Cons e es)
  then show ?case by (cases Ps) (auto split: if_splits)
qed simp

lemma log_shows_Cons: "log_shows Ps es \<Longrightarrow> log_shows Ps (e # es)"
  by (cases Ps) (auto dest: log_shows_tl)

lemma log_shows_after: "log_shows Ps es \<Longrightarrow> log_shows Ps (pre @ es)"
  by (induction pre) (auto intro: log_shows_Cons)

lemma log_shows_append: "log_shows Ps a \<Longrightarrow> log_shows Qs b \<Longrightarrow> log_shows (Ps @ Qs) (a @ b)"
proof (induction Ps a rule: log_shows.induct)
  case (1 es)
  then show ?case by (simp add: log_shows_after)
qed (auto split: if_splits)

definition logs :: "('x tool_world, 'a) io \<Rightarrow> ('a \<Rightarrow> http_exchange list \<Rightarrow> bool) \<Rightarrow> bool" where
  "logs m Q \<longleftrightarrow> (\<forall>w. \<exists>es. exchanges (snd (m w)) = exchanges w @ es \<and>
     (\<forall>x. fst (m w) = Inr x \<longrightarrow> Q x es))"

lemma logsD: "logs m Q \<Longrightarrow> m w = (Inr x, w') \<Longrightarrow> \<exists>es. exchanges w' = exchanges w @ es \<and> Q x es"
  by (metis logs_def fst_conv snd_conv)

lemma logs_weaken: "logs m Q \<Longrightarrow> (\<And>x es. Q x es \<Longrightarrow> R x es) \<Longrightarrow> logs m R"
  by (simp add: logs_def) blast

lemma logs_bind:
  assumes "logs m Q" and "\<And>x. logs (f x) (R x)"
  shows "logs (io_bind m f) (\<lambda>y es. \<exists>x a b. es = a @ b \<and> Q x a \<and> R x y b)"
  unfolding logs_def
proof
  fix w
  obtain r w1 where m: "m w = (r, w1)" by fastforce
  obtain a where a: "exchanges w1 = exchanges w @ a" "\<And>x. r = Inr x \<Longrightarrow> Q x a"
    using assms(1) m unfolding logs_def by (metis fst_conv snd_conv)
  show "\<exists>es. exchanges (snd (io_bind m f w)) = exchanges w @ es \<and>
      (\<forall>y. fst (io_bind m f w) = Inr y \<longrightarrow> (\<exists>x a b. es = a @ b \<and> Q x a \<and> R x y b))"
  proof (cases r)
    case (Inl e)
    then show ?thesis using m a by simp
  next
    case (Inr x)
    obtain b where b: "exchanges (snd (f x w1)) = exchanges w1 @ b"
        "\<And>y. fst (f x w1) = Inr y \<Longrightarrow> R x y b"
      using assms(2) [of x] unfolding logs_def by metis
    have "io_bind m f w = f x w1" using m Inr by simp
    then show ?thesis using a b Inr by (intro exI [of _ "a @ b"]) auto
  qed
qed

lemma logs_bindI:
  assumes "logs m Q" and "\<And>x. logs (f x) (R x)" and "\<And>x y a b. Q x a \<Longrightarrow> R x y b \<Longrightarrow> U y (a @ b)"
  shows "logs (io_bind m f) U"
  by (rule logs_weaken [OF logs_bind [OF assms(1,2)]]) (auto intro: assms(3))

lemma logs_then:
  assumes "logs m (\<lambda>_. log_shows Ps)" and "logs n (\<lambda>x. log_shows (Qs x))"
  shows "logs (io_then m n) (\<lambda>x. log_shows (Ps @ Qs x))"
  by (rule logs_bindI [OF assms]) (rule log_shows_append)

lemma logs_after:
  assumes "logs m (\<lambda>_ _. True)" and "\<And>x. logs (f x) Q" and "\<And>y pre es. Q y es \<Longrightarrow> Q y (pre @ es)"
  shows "logs (io_bind m f) Q"
  by (rule logs_bindI [OF assms(1,2)]) (rule assms(3))

lemma logs_quiet: "keeps exchanges m \<Longrightarrow> logs m (\<lambda>x es. es = [])"
  by (simp add: logs_def keeps_def)

lemma logs_True: "logs m Q \<Longrightarrow> logs m (\<lambda>_ _. True)"
  by (erule logs_weaken) simp

lemma logs_return: "Q x [] \<Longrightarrow> logs (io_return x) Q"
  by (simp add: logs_def)

lemma logs_raise: "logs (io_raise e) Q"
  by (simp add: logs_def)

lemma logs_if: "(b \<Longrightarrow> logs m Q) \<Longrightarrow> (\<not> b \<Longrightarrow> logs n Q) \<Longrightarrow> logs (if b then m else n) Q"
  by simp

lemma logs_lift: "(\<And>x. r = Inr x \<Longrightarrow> Q x []) \<Longrightarrow> logs (io_lift r) Q"
  by (simp add: logs_def)

lemma logs_bind_lift: "(\<And>x. r = Inr x \<Longrightarrow> logs (f x) Q) \<Longrightarrow> logs (io_bind (io_lift r) f) Q"
  by (cases r) (simp_all add: logs_def io_bind_def)

lemma logs_bind_clock: "(\<And>t. logs (f t) Q) \<Longrightarrow> logs (io_bind (read_clock T) f) Q"
  unfolding logs_def
proof (intro allI)
  fix w :: "'a tool_world"
  assume *: "\<And>t. \<forall>w. \<exists>es. exchanges (snd (f t w)) = exchanges w @ es \<and> (\<forall>x. fst (f t w) = Inr x \<longrightarrow> Q x es)"
  obtain t x where "clock T (tool_ext w) = (t, x)" by fastforce
  then show "\<exists>es. exchanges (snd (io_bind (read_clock T) f w)) = exchanges w @ es \<and>
      (\<forall>x. fst (io_bind (read_clock T) f w) = Inr x \<longrightarrow> Q x es)"
    using *[of t] by (auto simp: read_clock_def io_bind_def dest: spec [of _ "w\<lparr>tool_ext := x\<rparr>"])
qed

lemma logs_urlopen:
  "logs (urlopen T req)
     (\<lambda>(code, body) es. 200 \<le> code \<and> code < 300 \<and> es = [(req, Inr (code, body))])"
  by (auto simp: logs_def urlopen_run split: prod.splits sum.splits)

text \<open>The JSON value that \<open>request_json\<close> makes of a body, and a field of it.\<close>

definition json_content :: "bytes \<Rightarrow> exn + json" where
  "json_content body =
     sum_bind (utf8_decode body) (\<lambda>content. if content = [] then Inr (JObj []) else json_loads content)"

definition answer_field :: "string \<Rightarrow> bytes \<Rightarrow> exn + json" where
  "answer_field key body = sum_bind (json_content body) (\<lambda>v. json_subscript v (lit key))"

lemma json_loads_Nil: "json_loads [] = Inl JSONDecodeError"
proof -
  have "json_value (Suc (Suc 0)) [] = Inl JSONDecodeError" by (simp only: json_value.simps list.case)
  then show ?thesis by (simp add: json_loads_def skip_ws_def del: json_value.simps)
qed

lemma json_content_read: "read_json body = Inr v \<Longrightarrow> json_content body = Inr v"
proof (cases "utf8_decode body")
  case (Inr s)
  then show "read_json body = Inr v \<Longrightarrow> ?thesis"
    by (cases "s = []") (simp_all add: read_json_def json_content_def json_loads_Nil)
qed (simp add: read_json_def json_content_def)

lemma json_request_fields:
  "json_request T url meth hdrs data = Inr req \<Longrightarrow>
     http_url req = url \<and> http_method req = meth \<and>
     http_headers req = (if data = None then hdrs else json_headers hdrs)"
  by (auto simp: json_request_def sum_bind_Inr_iff split: option.splits)

lemma logs_request_json:
  "logs (request_json T url meth hdrs data code) (\<lambda>v es. \<exists>req body.
     es = [(req, Inr (code, body))] \<and> json_content body = Inr v \<and> http_url req = url \<and>
     http_headers req = (if data = None then hdrs else json_headers hdrs))"
  unfolding request_json_def
proof (rule logs_bind_lift)
  fix req
  assume req: "json_request T url meth hdrs data = Inr req"
  let ?attempt = "io_catch (io_bind (urlopen T req) (\<lambda>answer. io_lift (decoded answer)))
      (\<lambda>e. case e of HTTPError code body \<Rightarrow> io_lift (decoded (code, body)) | _ \<Rightarrow> io_raise e)"
  have "logs ?attempt (\<lambda>(status, content) es. \<exists>body.
      es = [(req, Inr (status, body))] \<and> utf8_decode body = Inr content)"
    by (auto simp: logs_def io_catch_def io_bind_def urlopen_run decoded_def sum_bind_def
        dest!: utf8_decode_error split: prod.splits sum.splits exn.splits if_splits)
  then show "logs (io_bind ?attempt (\<lambda>(status, content).
         if status \<noteq> code
         then io_raise (RuntimeError (url @ lit '' returned '' @ number_text status @
                lit '', expected '' @ number_text code @ lit '': '' @ content))
         else if content = [] then io_return (JObj []) else io_lift (json_loads content)))
     (\<lambda>v es. \<exists>req body. es = [(req, Inr (code, body))] \<and> json_content body = Inr v \<and>
       http_url req = url \<and> http_headers req = (if data = None then hdrs else json_headers hdrs))"
    by (rule logs_bindI [where R = "\<lambda>(status, content) v es. es = [] \<and> status = code \<and>
          (if content = [] then v = JObj [] else json_loads content = Inr v)"])
      (use json_request_fields [OF req] in
        \<open>auto simp: json_content_def split: prod.splits if_splits intro!: logs_return logs_raise logs_lift\<close>)
qed

text \<open>What the exchanges of a pass must have shown.\<close>

definition healthy :: "smoke_args \<Rightarrow> http_exchange \<Rightarrow> bool" where
  "healthy args x \<longleftrightarrow> http_url (fst x) = base_url args @ lit ''/health'' \<and>
     (case snd x of Inl _ \<Rightarrow> False | Inr (code, body) \<Rightarrow>
        code = 200 \<and> answer_field ''status'' body = Inr (JStr (lit ''ok'')))"

definition to_webhook :: "smoke_args \<Rightarrow> pystr \<Rightarrow> pystr \<Rightarrow> http_request \<Rightarrow> bool" where
  "to_webhook args name v req \<longleftrightarrow>
     http_url req = rstrip_slash (base_url args) @ lit ''/webhook'' \<and> (name, v) \<in> set (http_headers req)"

definition answered :: "smoke_args \<Rightarrow> pystr \<Rightarrow> json \<Rightarrow> http_exchange \<Rightarrow> bool" where
  "answered args dlv v x \<longleftrightarrow> to_webhook args (lit ''X-Webhook-ID'') dlv (fst x) \<and>
     (case snd x of Inl _ \<Rightarrow> False | Inr (code, body) \<Rightarrow>
        200 \<le> code \<and> code < 300 \<and> json_content body = Inr v)"

definition delivered :: "smoke_args \<Rightarrow> pystr \<Rightarrow> string \<Rightarrow> http_exchange \<Rightarrow> bool" where
  "delivered args dlv wanted x \<longleftrightarrow> to_webhook args (lit ''X-Webhook-ID'') dlv (fst x) \<and>
     (case snd x of Inl _ \<Rightarrow> False | Inr (code, body) \<Rightarrow>
        200 \<le> code \<and> code < 300 \<and> answer_field ''status'' body = Inr (JStr (lit wanted)))"

definition refused :: "smoke_args \<Rightarrow> http_exchange \<Rightarrow> bool" where
  "refused args x \<longleftrightarrow> http_url (fst x) = base_url args @ lit ''/webhook'' \<and>
     (lit ''X-Webhook-Signature'', lit ''invalid'') \<in> set (http_headers (fst x)) \<and>
     (case snd x of Inl _ \<Rightarrow> False | Inr (code, body) \<Rightarrow> code = 401)"

definition dead_lettered :: "smoke_args \<Rightarrow> http_exchange \<Rightarrow> bool" where
  "dead_lettered args x \<longleftrightarrow> http_url (fst x) = base_url args @ lit ''/queue/stats'' \<and>
     (case snd x of Inl _ \<Rightarrow> False | Inr (code, body) \<Rightarrow> code = 200 \<and>
        sum_bind (json_content body) (\<lambda>stats.
        sum_bind (json_get stats (lit ''dead_letter_depth'') JNull) (\<lambda>d. json_ge (or_zero d) 1)) = Inr True)"

definition redriven_some :: "smoke_args \<Rightarrow> http_exchange \<Rightarrow> bool" where
  "redriven_some args x \<longleftrightarrow> http_url (fst x) = base_url args @ lit ''/queue/dlq/redrive?limit=10'' \<and>
     (case snd x of Inl _ \<Rightarrow> False | Inr (code, body) \<Rightarrow> code = 202 \<and>
        sum_bind (answer_field ''redriven_count'' body) (\<lambda>n. json_less n 1) = Inr False)"

definition is_processed :: "json \<Rightarrow> json \<Rightarrow> bool" where
  "is_processed sent item \<longleftrightarrow>
     json_subscript item (lit ''processing_status'') = Inr (JStr (lit ''processed'')) \<and>
     (case (json_subscript item (lit ''id''), json_subscript sent (lit ''event_id'')) of
        (Inr i, Inr j) \<Rightarrow> json_eq i j | _ \<Rightarrow> False)"

definition listed_processed :: "smoke_args \<Rightarrow> json \<Rightarrow> http_exchange \<Rightarrow> bool" where
  "listed_processed args sent x \<longleftrightarrow>
     http_url (fst x) = base_url args @ lit ''/events?limit=20&offset=0&source=smoke'' \<and>
     (case snd x of Inl _ \<Rightarrow> False | Inr (code, body) \<Rightarrow> code = 200 \<and>
        (case sum_bind (answer_field ''items'' body) json_iter of
           Inl _ \<Rightarrow> False | Inr its \<Rightarrow> list_ex (is_processed sent) its))"

definition exposes_metrics :: "smoke_args \<Rightarrow> http_exchange \<Rightarrow> bool" where
  "exposes_metrics args x \<longleftrightarrow> http_url (fst x) = base_url args @ lit ''/metrics'' \<and>
     (case snd x of Inl _ \<Rightarrow> False | Inr (code, body) \<Rightarrow> 200 \<le> code \<and> code < 300 \<and>
        (case utf8_decode body of Inl _ \<Rightarrow> False | Inr t \<Rightarrow> occurs_in (lit ''webhook_intake_total'') t))"

lemma logs_check_health: "logs (check_health T args) (\<lambda>_. log_shows [healthy args])"
  unfolding check_health_def
  by (rule logs_bindI [OF logs_request_json, where R = "\<lambda>v _ es.
      es = [] \<and> json_subscript v (lit ''status'') = Inr (JStr (lit ''ok''))"])
    (auto simp: healthy_def answer_field_def intro!: logs_bind_lift logs_raise logs_return)

lemma logs_send_webhook:
  "logs (send_webhook T base secret key data dlv) (\<lambda>v es. \<exists>body ts sig code content.
     es = [(signed_request base key dlv body ts sig, Inr (code, content))] \<and>
     200 \<le> code \<and> code < 300 \<and> read_json content = Inr v)"
  unfolding send_webhook_def Let_def
  by (intro logs_bind_lift logs_bind_clock logs_bindI [OF logs_urlopen, where
        R = "\<lambda>(_, content) v es. es = [] \<and> read_json content = Inr v"])
    (auto intro!: logs_lift, (rule exI)+, rule refl)

lemma to_webhook_signed:
  "to_webhook args (lit ''X-Webhook-ID'') dlv (signed_request (base_url args) key dlv body ts sig)"
  by (simp add: to_webhook_def signed_request_def)

lemma logs_deliver_expecting:
  "logs (deliver_expecting T args dlv wanted) (\<lambda>_. log_shows [delivered args dlv wanted])"
  unfolding deliver_expecting_def
  by (rule logs_bindI [OF logs_send_webhook, where R = "\<lambda>v _ es.
      es = [] \<and> json_subscript v (lit ''status'') = Inr (JStr (lit wanted))"])
    (auto simp: delivered_def to_webhook_signed answer_field_def dest!: json_content_read
      intro!: logs_bind_lift logs_raise logs_return)

lemma logs_check_invalid_signature:
  "logs (check_invalid_signature T args) (\<lambda>_. log_shows [refused args])"
  unfolding check_invalid_signature_def
  by (intro logs_bind_clock logs_bind_lift logs_weaken [OF logs_request_json])
    (auto simp: refused_def json_headers_def)

lemma logs_check_redrive: "logs (check_redrive T args) (\<lambda>_. log_shows [redriven_some args])"
  unfolding check_redrive_def
  by (rule logs_bindI [OF logs_request_json, where R = "\<lambda>v _ es. es = [] \<and>
      sum_bind (json_subscript v (lit ''redriven_count'')) (\<lambda>n. json_less n 1) = Inr False"])
    (auto simp: redriven_some_def answer_field_def intro!: logs_bind_lift logs_raise logs_return)

lemma logs_get_json:
  "logs (get_json T args path) (\<lambda>v es. \<exists>req body. es = [(req, Inr (200, body))] \<and>
     json_content body = Inr v \<and> http_url req = base_url args @ lit path)"
  unfolding get_json_def by (rule logs_weaken [OF logs_request_json]) blast

lemma logs_dlq_ready:
  "logs (dlq_ready T args) (\<lambda>v es. truthy v \<longrightarrow> log_shows [dead_lettered args] es)"
proof -
  let ?dead = "\<lambda>stats. sum_bind (json_get stats (lit ''dead_letter_depth'') JNull)
    (\<lambda>d. json_ge (or_zero d) 1) = Inr True"
  show ?thesis
    unfolding dlq_ready_def
    by (rule logs_bindI [OF logs_get_json, where R = "\<lambda>stats v _. truthy v \<longrightarrow> ?dead stats"],
        rule logs_after [OF logs_True [OF logs_get_json]])
      (auto simp: dead_lettered_def intro!: logs_bind_lift logs_return)
qed

lemma logs_search_items:
  "logs (search_items T args sent its) (\<lambda>v _. truthy v \<longrightarrow> list_ex (is_processed sent) its)"
proof (induction its)
  case Nil
  show ?case unfolding search_items.simps by (rule logs_return) simp
next
  case (Cons item rest)
  have rest: "logs (search_items T args sent rest) (\<lambda>v _. truthy v \<longrightarrow> list_ex (is_processed sent) (item # rest))"
    by (rule logs_weaken [OF Cons]) simp
  have stats: "logs (io_bind (get_json T args ''/queue/stats'') f) Q"
    if "\<And>x. logs (f x) Q" "\<And>y pre es. Q y es \<Longrightarrow> Q y (pre @ es)" for f and Q :: "json \<Rightarrow> http_exchange list \<Rightarrow> bool"
    using that by (rule logs_after [OF logs_True [OF logs_get_json]])
  show ?case
    unfolding search_items.simps
  proof (intro logs_bind_lift)
    fix i j
    assume i: "json_subscript item (lit ''id'') = Inr i" and j: "json_subscript sent (lit ''event_id'') = Inr j"
    have hit: "is_processed sent item"
      if "json_eq i j" "json_subscript item (lit ''processing_status'') = Inr (JStr (lit ''processed''))"
      using that i j by (simp add: is_processed_def)
    show "logs (if \<not> json_eq i j then search_items T args sent rest
      else io_bind (io_lift (json_subscript item (lit ''processing_status''))) (\<lambda>status.
        if status \<noteq> JStr (lit ''processed'') then search_items T args sent rest
        else io_bind (get_json T args ''/queue/stats'') (\<lambda>stats.
          io_bind (io_lift (json_get stats (lit ''dead_letter_depth'') JNull)) (\<lambda>depth.
            if json_eq (or_zero depth) (JInt 0) then io_return (JBool True)
            else search_items T args sent rest))))
      (\<lambda>v _. truthy v \<longrightarrow> list_ex (is_processed sent) (item # rest))"
    proof (rule logs_if)
      assume eq: "\<not> \<not> json_eq i j"
      show "logs (io_bind (io_lift (json_subscript item (lit ''processing_status''))) (\<lambda>status.
          if status \<noteq> JStr (lit ''processed'') then search_items T args sent rest
          else io_bind (get_json T args ''/queue/stats'') (\<lambda>stats.
            io_bind (io_lift (json_get stats (lit ''dead_letter_depth'') JNull)) (\<lambda>depth.
              if json_eq (or_zero depth) (JInt 0) then io_return (JBool True)
              else search_items T args sent rest))))
        (\<lambda>v _. truthy v \<longrightarrow> list_ex (is_processed sent) (item # rest))"
        by (intro logs_bind_lift logs_if rest stats) (use eq hit in \<open>auto intro: logs_return\<close>)
    qed (rule rest)
  qed
qed

lemma logs_event_processed:
  "logs (event_processed T args sent) (\<lambda>v es. truthy v \<longrightarrow> log_shows [listed_processed args sent] es)"
  unfolding event_processed_def
  by (rule logs_bindI [OF logs_get_json, where R = "\<lambda>events v _. truthy v \<longrightarrow>
      (case sum_bind (json_subscript events (lit ''items'')) json_iter of
         Inl _ \<Rightarrow> False | Inr its \<Rightarrow> list_ex (is_processed sent) its)"])
    (auto simp: listed_processed_def answer_field_def intro!: logs_bind_lift logs_weaken [OF logs_search_items])

lemma logs_wait_loop:
  assumes "logs predicate (\<lambda>v es. truthy v \<longrightarrow> log_shows Ps es)"
  shows "logs (wait_loop T predicate timeout pause description started n)
    (\<lambda>r es. r \<noteq> None \<longrightarrow> log_shows Ps es)"
proof (induction n)
  case 0
  show ?case unfolding wait_loop.simps by (rule logs_return) simp
next
  case (Suc n)
  have sleep: "logs (io_modify (\<lambda>w. w\<lparr>tool_ext := sleep T pause (tool_ext w)\<rparr>)) (\<lambda>_ _. True)"
    by (simp add: logs_def)
  have again: "logs (io_then (io_modify (\<lambda>w. w\<lparr>tool_ext := sleep T pause (tool_ext w)\<rparr>))
      (wait_loop T predicate timeout pause description started n)) (\<lambda>r es. r \<noteq> None \<longrightarrow> log_shows Ps es)"
    by (rule logs_after [OF sleep Suc]) (auto intro: log_shows_after)
  have look: "logs (io_bind predicate (\<lambda>result. if truthy result then io_return (Some result)
        else io_then (io_modify (\<lambda>w. w\<lparr>tool_ext := sleep T pause (tool_ext w)\<rparr>))
               (wait_loop T predicate timeout pause description started n)))
      (\<lambda>r es. r \<noteq> None \<longrightarrow> log_shows Ps es)"
  proof (rule logs_bindI [OF assms, where R = "\<lambda>result r es.
      (truthy result \<longrightarrow> es = []) \<and> (\<not> truthy result \<longrightarrow> r \<noteq> None \<longrightarrow> log_shows Ps es)"])
    fix result
    show "logs (if truthy result then io_return (Some result)
        else io_then (io_modify (\<lambda>w. w\<lparr>tool_ext := sleep T pause (tool_ext w)\<rparr>))
               (wait_loop T predicate timeout pause description started n))
      (\<lambda>r es. (truthy result \<longrightarrow> es = []) \<and> (\<not> truthy result \<longrightarrow> r \<noteq> None \<longrightarrow> log_shows Ps es))"
      by (rule logs_if) (rule logs_return, simp, rule logs_weaken [OF again], simp)
  qed (auto intro: log_shows_after)
  show ?case unfolding wait_loop.simps by (intro logs_bind_clock logs_if look logs_raise)
qed

lemma logs_wait_for:
  "logs predicate (\<lambda>v es. truthy v \<longrightarrow> log_shows Ps es) \<Longrightarrow>
    logs (wait_for T n predicate timeout pause description) (\<lambda>r es. r \<noteq> None \<longrightarrow> log_shows Ps es)"
  unfolding wait_for_def by (intro logs_bind_clock logs_wait_loop)

lemma logs_check_metrics: "logs (check_metrics T args) (\<lambda>_. log_shows [exposes_metrics args])"
  unfolding check_metrics_def
  by (rule logs_bindI [OF logs_urlopen, where R = "\<lambda>(_, body) _ es. es = [] \<and>
      (case utf8_decode body of Inl _ \<Rightarrow> False | Inr t \<Rightarrow> occurs_in (lit ''webhook_intake_total'') t)"])
    (auto simp: exposes_metrics_def get_request_def intro!: logs_bind_lift logs_raise logs_return)

lemma logs_request_ok: "logs (request_ok T url) (\<lambda>_ _. True)"
  unfolding request_ok_def
  by (rule logs_bindI [OF logs_urlopen, where R = "\<lambda>_ _ _. True"]) (auto intro: logs_raise logs_return)

lemma logs_check_stack: "logs (check_stack T args) (\<lambda>_ _. True)"
  unfolding check_stack_def
  by (intro logs_after [OF logs_request_ok] logs_after [OF logs_True [OF logs_request_json]])
    (auto intro: logs_raise logs_return)

lemma logs_print_line: "logs (print_line s) (\<lambda>_ _. True)"
  by (simp add: logs_def print_line_def)

lemma logs_intake_checks:
  "logs (intake_checks T args run_id) (\<lambda>_. log_shows
     [healthy args, delivered args (lit ''smoke-accepted-'' @ run_id) ''accepted'',
      delivered args (lit ''smoke-accepted-'' @ run_id) ''duplicate'', refused args])"
  unfolding intake_checks_def
  by (rule logs_weaken)
    (rule logs_then logs_check_health logs_deliver_expecting logs_check_invalid_signature
      logs_return [where Q = "\<lambda>_. log_shows []"] | simp)+

lemma logs_closing_checks: "logs (closing_checks T args) (\<lambda>_. log_shows [exposes_metrics args])"
proof -
  have "logs (io_then (check_stack T args) (io_bind (io_lift (success_line T)) print_line)) (\<lambda>_. log_shows [])"
    by (rule logs_after [OF logs_check_stack], rule logs_bind_lift, rule logs_weaken [OF logs_print_line])
      simp_all
  from logs_then [OF logs_check_metrics this] show ?thesis
    unfolding closing_checks_def by simp
qed

lemma logs_sent:
  "logs (send_webhook T (base_url args) secret key data dlv) (\<lambda>v. log_shows [answered args dlv v])"
  by (rule logs_weaken [OF logs_send_webhook])
    (auto simp: answered_def to_webhook_signed dest!: json_content_read)

lemma logs_option_bind:
  assumes "logs m (\<lambda>r es. r \<noteq> None \<longrightarrow> log_shows Ps es)"
    and "\<And>x. logs (f x) (\<lambda>r es. r \<noteq> None \<longrightarrow> log_shows Qs es)"
  shows "logs (io_bind m (\<lambda>r. case r of None \<Rightarrow> io_return None | Some x \<Rightarrow> f x))
    (\<lambda>r es. r \<noteq> None \<longrightarrow> log_shows (Ps @ Qs) es)"
  by (rule logs_bindI [OF assms(1), where R = "\<lambda>r y es. r = None \<and> y = None \<or>
        r \<noteq> None \<and> (y \<noteq> None \<longrightarrow> log_shows Qs es)"])
    (auto intro: log_shows_append logs_return logs_weaken [OF assms(2)] split: option.split)

lemma logs_then_option:
  assumes "logs m (\<lambda>_. log_shows Ps)" and "logs n (\<lambda>r es. r \<noteq> None \<longrightarrow> log_shows Qs es)"
  shows "logs (io_then m n) (\<lambda>r es. r \<noteq> None \<longrightarrow> log_shows (Ps @ Qs) es)"
  by (rule logs_bindI [OF assms]) (auto intro: log_shows_append)

definition pass_shows :: "smoke_args \<Rightarrow> pystr \<Rightarrow> json \<Rightarrow> (http_exchange \<Rightarrow> bool) list" where
  "pass_shows args run_id sent =
     [healthy args,
      delivered args (lit ''smoke-accepted-'' @ run_id) ''accepted'',
      delivered args (lit ''smoke-accepted-'' @ run_id) ''duplicate'',
      refused args,
      answered args (lit ''smoke-retryable-'' @ run_id) sent,
      dead_lettered args,
      redriven_some args,
      listed_processed args sent,
      exposes_metrics args]"

lemma logs_after_send:
  "logs (io_bind (wait_for T n (dlq_ready T args) t1 p1 d1) (\<lambda>ready.
      case ready of None \<Rightarrow> io_return None | Some _ \<Rightarrow>
        io_then (check_redrive T args)
       (io_bind (wait_for T n (event_processed T args sent) t2 p2 d2) (\<lambda>done.
          case done of None \<Rightarrow> io_return None | Some _ \<Rightarrow>
            io_then (closing_checks T args) (io_return (Some ()))))))
    (\<lambda>r es. r \<noteq> None \<longrightarrow> log_shows ([dead_lettered args] @ [redriven_some args] @
       [listed_processed args sent] @ [exposes_metrics args] @ []) es)"
  by (intro logs_option_bind logs_then_option logs_wait_for logs_dlq_ready logs_check_redrive
      logs_event_processed logs_closing_checks logs_return) simp

lemma logs_smoke_main:
  "logs (smoke_main T args n) (\<lambda>r es. r \<noteq> None \<longrightarrow> (\<exists>run_id sent. log_shows (pass_shows args run_id sent) es))"
  unfolding smoke_main_def
proof (intro logs_bind_clock logs_bind_lift)
  fix now run_id
  show "logs (io_then (intake_checks T args run_id)
      (io_bind (send_webhook T (base_url args) (smoke_secret args) (smoke_api_key args)
          (smoke_payload ''demo.retryable'' [(lit ''fail_attempts_remaining'', JInt 3)])
          (lit ''smoke-retryable-'' @ run_id)) (\<lambda>sent.
       io_bind (wait_for T n (dlq_ready T args) 90000000 2000000 (lit ''event to reach DLQ'')) (\<lambda>ready.
       case ready of None \<Rightarrow> io_return None | Some _ \<Rightarrow>
         io_then (check_redrive T args)
        (io_bind (wait_for T n (event_processed T args sent) 90000000 2000000
                    (lit ''redriven event to process successfully'')) (\<lambda>done.
         case done of None \<Rightarrow> io_return None | Some _ \<Rightarrow>
           io_then (closing_checks T args) (io_return (Some ()))))))))
    (\<lambda>r es. r \<noteq> None \<longrightarrow> (\<exists>run_id sent. log_shows (pass_shows args run_id sent) es))"
    (is "logs (io_then _ ?rest) _")
  proof (rule logs_bindI [OF logs_intake_checks])
    let ?dlv = "lit ''smoke-retryable-'' @ run_id"
    let ?later = "\<lambda>sent. [answered args ?dlv sent] @ [dead_lettered args] @ [redriven_some args] @
      [listed_processed args sent] @ [exposes_metrics args] @ []"
    show "logs ?rest (\<lambda>r es. r \<noteq> None \<longrightarrow> (\<exists>sent. log_shows (?later sent) es))"
      by (rule logs_bindI [OF logs_sent logs_after_send]) (blast intro: log_shows_append)
    fix r :: "unit option" and a b
    assume early: "log_shows [healthy args, delivered args (lit ''smoke-accepted-'' @ run_id) ''accepted'',
        delivered args (lit ''smoke-accepted-'' @ run_id) ''duplicate'', refused args] a"
      and late: "r \<noteq> None \<longrightarrow> (\<exists>sent. log_shows (?later sent) b)"
    show "r \<noteq> None \<longrightarrow> (\<exists>run_id sent. log_shows (pass_shows args run_id sent) (a @ b))"
    proof
      assume "r \<noteq> None"
      then obtain sent where "log_shows (?later sent) b" using late by blast
      from log_shows_append [OF early this]
      show "\<exists>run_id sent. log_shows (pass_shows args run_id sent) (a @ b)"
        by (intro exI [of _ run_id] exI [of _ sent]) (simp add: pass_shows_def)
    qed
  qed
qed

end
