(* ===== verification/Staged.thy ===== *)
theory Staged
  imports Smoke
begin

text \<open>
  An example for the smoke check: a stack that gives prepared answers, the run of the whole check
  against it, and what a passing run is evidence of.
\<close>

section \<open>A stack that passes\<close>

text \<open>A stack for the examples: it gives the answers it was loaded with, in order; its clock moves only
  during sleeps.\<close>

definition staged :: "((nat \<times> bytes) list \<times> int) tools" where
  "staged =
     \<lparr>exchange = (\<lambda>req (answers, t). case answers of
        [] \<Rightarrow> (Inl [], (answers, t)) | a # rest \<Rightarrow> (Inr a, (rest, t))),
      clock = (\<lambda>(answers, t). (t, (answers, t))),
      sleep = (\<lambda>d (answers, t). (answers, t + d)),
      float_repr = (\<lambda>_. []), json_str = (\<lambda>_. []),
      file_allows = (\<lambda>_ x. (Inr (), x)), subprocess = (\<lambda>_ x. (Inr (0, []), x))\<rparr>"

lemma steady_staged: "steady staged snd"
  by (auto simp: steady_def staged_def split: list.splits)

definition json_bytes :: "json \<Rightarrow> bytes" where
  "json_bytes v = (case sum_bind (dumps_default (\<lambda>_. []) v) utf8_encode of Inr b \<Rightarrow> b | Inl _ \<Rightarrow> [])"

lemma read_json_bytes:
  assumes "plain v" and "dumps_default (\<lambda>_. []) v = Inr t"
  shows "read_json (json_bytes v) = Inr v"
proof -
  have "list_all scalar t"
    using dumps_printable(1) [OF _ _ _ assms(2)] by (intro printable_scalar) simp
  then obtain b where "utf8_encode t = Inr b" by (auto simp: utf8_encode_def)
  moreover have "json_loads t = Inr v"
    by (rule json_loads_dumps [OF _ _ assms]) (simp_all add: item_seps_def key_seps_def)
  ultimately show ?thesis
    using utf8.dec_enc assms(2) by (simp add: json_bytes_def read_json_def)
qed

definition plays :: "(((nat \<times> bytes) list \<times> int) tool_world, 'a) io \<Rightarrow> (nat \<times> bytes) list \<Rightarrow> 'a \<Rightarrow> bool" where
  "plays m as x \<longleftrightarrow> (\<forall>w rest. tool_ext w = (as @ rest, 0) \<longrightarrow>
     (\<exists>w'. m w = (Inr x, w') \<and> tool_ext w' = (rest, 0)))"

lemma plays_run: "plays m as x \<Longrightarrow> tool_ext w = (as, 0) \<Longrightarrow> \<exists>w'. m w = (Inr x, w')"
  unfolding plays_def by (metis append_Nil2)

lemma plays_bind:
  assumes "plays m as x" and "plays (f x) bs y"
  shows "plays (io_bind m f) (as @ bs) y"
  unfolding plays_def
proof (intro allI impI)
  fix w :: "((nat \<times> bytes) list \<times> int) tool_world" and rest
  assume "tool_ext w = ((as @ bs) @ rest, 0)"
  then obtain w1 where "m w = (Inr x, w1)" "tool_ext w1 = (bs @ rest, 0)"
    using assms(1) by (auto simp: plays_def)
  then show "\<exists>w'. io_bind m f w = (Inr y, w') \<and> tool_ext w' = (rest, 0)"
    using assms(2) by (simp add: plays_def)
qed

lemma plays_quiet: "plays m [] x \<Longrightarrow> plays (f x) bs y \<Longrightarrow> plays (io_bind m f) bs y"
  using plays_bind [of m "[]"] by simp

lemma plays_lift: "r = Inr x \<Longrightarrow> plays (f x) bs y \<Longrightarrow> plays (io_bind (io_lift r) f) bs y"
  by (simp add: plays_def io_bind_def)

lemma plays_return [simp]: "plays (io_return x) [] x" "plays (io_lift (Inr x)) [] x"
  by (simp_all add: plays_def)

lemma plays_Pair [simp]: "plays (Pair (Inr x)) [] x"
  by (simp add: plays_def)

lemma plays_clock: "plays (read_clock staged) [] 0"
  by (simp add: plays_def read_clock_def staged_def)

lemma plays_after_clock: "plays (f 0) bs y \<Longrightarrow> plays (io_bind (read_clock staged) f) bs y"
  by (rule plays_quiet [OF plays_clock])

lemma plays_urlopen: "200 \<le> code \<Longrightarrow> code < 300 \<Longrightarrow> plays (urlopen staged req) [(code, body)] (code, body)"
  by (simp add: plays_def urlopen_run) (simp add: staged_def)

lemma plays_request_json:
  assumes "json_request staged url meth hdrs data = Inr req" and "json_content body = Inr v"
  shows "plays (request_json staged url meth hdrs data code) [(code, body)] v"
proof -
  obtain s where s: "utf8_decode body = Inr s" "(if s = [] then Inr (JObj []) else json_loads s) = Inr v"
    using assms(2) by (auto simp: json_content_def sum_bind_Inr_iff)
  let ?attempt = "io_catch (io_bind (urlopen staged req) (\<lambda>answer. io_lift (decoded answer)))
      (\<lambda>e. case e of HTTPError code body \<Rightarrow> io_lift (decoded (code, body)) | _ \<Rightarrow> io_raise e)"
  have tried: "plays ?attempt [(code, body)] (code, s)"
    unfolding plays_def
  proof (intro allI impI)
    fix w :: "((nat \<times> bytes) list \<times> int) tool_world" and rest
    assume w: "tool_ext w = ([(code, body)] @ rest, 0)"
    let ?w = "w\<lparr>tool_ext := (rest, 0), exchanges := exchanges w @ [(req, Inr (code, body))]\<rparr>"
    have "urlopen staged req w =
        (if 200 \<le> code \<and> code < 300 then Inr (code, body) else Inl (HTTPError code body), ?w)"
      using w by (simp add: urlopen_run) (simp add: staged_def)
    then have "?attempt w = (Inr (code, s), ?w)"
      using s(1) by (cases "200 \<le> code \<and> code < 300") (simp_all add: io_catch_def io_bind_def decoded_def)
    then show "\<exists>w'. ?attempt w = (Inr (code, s), w') \<and> tool_ext w' = (rest, 0)" by simp
  qed
  have "plays (if s = [] then io_return (JObj []) else io_lift (json_loads s)) [] v"
    using s(2) by (auto simp: plays_def split: if_splits)
  then have "plays (io_bind ?attempt (\<lambda>(status, content).
      if status \<noteq> code then io_raise (RuntimeError (url @ lit '' returned '' @ number_text status @
          lit '', expected '' @ number_text code @ lit '': '' @ content))
      else if content = [] then io_return (JObj []) else io_lift (json_loads content)))
      ([(code, body)] @ []) v"
    by (intro plays_bind [OF tried]) simp
  then show ?thesis unfolding request_json_def by (intro plays_lift [OF assms(1)]) simp
qed


lemma plays_get: "json_content body = Inr v \<Longrightarrow>
    plays (request_json staged url meth hdrs None code) [(code, body)] v"
  by (rule plays_request_json) (simp_all add: json_request_def)

lemma plays_send:
  assumes "json_dumps (\<lambda>_. []) [44] [58] data = Inr t" and "\<exists>b. utf8_encode secret = Inr b"
    and "read_json content = Inr v" and "200 \<le> code" "code < 300"
  shows "plays (send_webhook staged base secret key data dlv) [(code, content)] v"
proof -
  have t: "list_all scalar t"
    using dumps_printable(1) [OF _ _ _ assms(1)] by (intro printable_scalar) simp
  then obtain body where body: "utf8_encode t = Inr body" by (auto simp: utf8_encode_def)
  have ts: "py_str_int 0 = Inr [48]" by (simp add: py_str_int_def dec_digits.simps int_max_str_digits_def)
  have "utf8_decode body = Inr t" using body by (rule utf8.dec_enc)
  moreover have "\<exists>b. utf8_encode ([48] @ lit ''.'' @ t) = Inr b"
    using t by (auto simp: utf8_encode_def lit_def scalar_def)
  ultimately obtain sig where sig: "build_signature secret body 0 = Inr sig"
    using assms(2) ts by (auto simp: build_signature_def)
  show ?thesis
    unfolding send_webhook_def Let_def
  proof (rule plays_lift)
    show "sum_bind (json_dumps (float_repr staged) [44] [58] data) utf8_encode = Inr body"
      using assms(1) body by (simp add: staged_def)
    have "plays (io_bind (urlopen staged (signed_request base key dlv body [48] sig))
        (\<lambda>(_, content). io_lift (read_json content))) ([(code, content)] @ []) v"
      by (rule plays_bind [OF plays_urlopen [OF assms(4,5)]]) (simp add: assms(3) plays_return)
    then show "plays (io_bind (read_clock staged) (\<lambda>now.
        io_bind (io_lift (py_str_int (whole_seconds now))) (\<lambda>ts.
        io_bind (io_lift (build_signature secret body (whole_seconds now))) (\<lambda>signature.
        io_bind (urlopen staged (signed_request base key dlv body ts signature))
          (\<lambda>(_, content). io_lift (read_json content)))))) [(code, content)] v"
      using ts sig by (intro plays_after_clock plays_lift [where x = "[48]"] plays_lift [where x = sig])
        (simp_all add: whole_seconds_def)
  qed
qed


lemma digit_text: "0 \<le> n \<Longrightarrow> n < 10 \<Longrightarrow> py_str_int n = Inr [48 + nat n]"
  by (simp add: py_str_int_def dec_digits.simps [of "nat n"] int_max_str_digits_def Let_def nat_less_iff)

definition object :: "string \<Rightarrow> json \<Rightarrow> json" where
  "object key v = JObj [(lit key, v)]"

definition sent_answer :: json where
  "sent_answer = object ''event_id'' (JStr (lit ''e''))"

definition processed_item :: json where
  "processed_item = JObj [(lit ''id'', JStr (lit ''e'')), (lit ''processing_status'', JStr (lit ''processed''))]"

definition passing_answers :: "(nat \<times> bytes) list" where
  "passing_answers = map (\<lambda>(code, v). (code, json_bytes v))
     [(200, object ''status'' (JStr (lit ''ok''))),
      (202, object ''status'' (JStr (lit ''accepted''))),
      (202, object ''status'' (JStr (lit ''duplicate''))),
      (401, JNull),
      (202, sent_answer),
      (200, object ''dead_letter_depth'' (JInt 1)),
      (200, object ''failed'' (JInt 1)),
      (202, object ''redriven_count'' (JInt 1)),
      (200, object ''items'' (JArr [processed_item])),
      (200, object ''dead_letter_depth'' (JInt 0)),
      (200, JStr (lit ''webhook_intake_total'')),
      (200, JNull),
      (200, JNull),
      (200, JNull),
      (200, JInt 1)]"

lemma content_bytes:
  "plain v \<Longrightarrow> dumps_default (\<lambda>_. []) v = Inr t \<Longrightarrow> json_content (json_bytes v) = Inr v"
  by (intro json_content_read read_json_bytes)

lemma lit_scalar [simp]: "list_all scalar (lit s)"
  by (induction s) (auto simp: lit_def scalar_def intro: less_trans [OF nat_of_char_less_256])

lemma utf8_lit: "\<exists>b. utf8_encode (lit s) = Inr b"
  by (simp add: utf8_encode_def)

lemma plays_health: "plays (check_health staged args) [(200, json_bytes (object ''status'' (JStr (lit ''ok''))))] ()"
proof -
  have "json_content (json_bytes (object ''status'' (JStr (lit ''ok'')))) = Inr (object ''status'' (JStr (lit ''ok'')))"
    by (rule content_bytes) (simp_all add: object_def)
  from plays_bind [OF plays_get [OF this], where bs = "[]" and y = "()"] show ?thesis
    by (simp add: check_health_def plays_return plays_lift object_def json_subscript_def dict_get_def)
qed

lemma bind_lift_Inr: "io_bind (io_lift (Inr x)) f = f x"
  by (simp add: io_bind_def fun_eq_iff)

lemma object_content:
  assumes "plain v" and "dumps_default (\<lambda>_. []) v = Inr t"
  shows "json_content (json_bytes (object key v)) = Inr (object key v)"
    "read_json (json_bytes (object key v)) = Inr (object key v)"
proof -
  have "plain (object key v)" "dumps_default (\<lambda>_. []) (object key v) = Inr ([123] @ json_quote (lit key) @ [58, 32] @ t @ [125])"
    using assms by (simp_all add: object_def)
  then show "json_content (json_bytes (object key v)) = Inr (object key v)"
    "read_json (json_bytes (object key v)) = Inr (object key v)"
    by (rule content_bytes, rule read_json_bytes)
qed

lemma object_field [simp]: "json_subscript (object key v) (lit key) = Inr v" "json_get (object key v) (lit key) d = Inr v"
  by (simp_all add: object_def json_subscript_def json_get_def dict_get_def)

lemma plays_deliver:
  "plays (deliver_expecting staged default_smoke_args dlv wanted)
     [(202, json_bytes (object ''status'' (JStr (lit wanted))))] ()"
proof -
  have "read_json (json_bytes (object ''status'' (JStr (lit wanted)))) = Inr (object ''status'' (JStr (lit wanted)))"
    by (rule object_content) simp_all
  from plays_bind [OF plays_send [OF _ _ this], where bs = "[]" and y = "()"] show ?thesis
    by (simp add: deliver_expecting_def plays_return plays_lift smoke_payload_def default_smoke_args_def utf8_lit)
qed

lemma float_repr_staged [simp]: "float_repr staged = (\<lambda>_. [])"
  by (simp add: staged_def)

lemma plays_post:
  assumes "json_content body = Inr v" and "dumps_default (\<lambda>_. []) data = Inr t"
  shows "plays (request_json staged url meth hdrs (Some data) code) [(code, body)] v"
proof -
  have "list_all scalar t"
    using dumps_printable(1) [OF _ _ _ assms(2)] by (intro printable_scalar) simp
  then obtain b where "utf8_encode t = Inr b" by (auto simp: utf8_encode_def)
  then show ?thesis using assms by (intro plays_request_json) (simp_all add: json_request_def)
qed

lemma plays_invalid: "plays (check_invalid_signature staged args) [(401, json_bytes JNull)] JNull"
proof -
  have content: "json_content (json_bytes JNull) = Inr JNull" by (rule content_bytes) simp_all
  show ?thesis
    unfolding check_invalid_signature_def
    by (rule plays_after_clock, rule plays_lift [where x = "[48]"], simp add: whole_seconds_def digit_text,
        rule plays_post [OF content]) (simp add: smoke_payload_def)
qed

lemma plays_then: "plays m [a] x \<Longrightarrow> plays (f x) bs y \<Longrightarrow> plays (io_bind m f) (a # bs) y"
  using plays_bind [of m "[a]"] by simp

lemma number_content: "0 \<le> n \<Longrightarrow> n < 10 \<Longrightarrow> json_content (json_bytes (object key (JInt n))) = Inr (object key (JInt n))"
  by (rule object_content) (simp_all add: digit_text)

lemma plays_dlq_ready:
  "plays (dlq_ready staged args) [(200, json_bytes (object ''dead_letter_depth'' (JInt 1))),
     (200, json_bytes (object ''failed'' (JInt 1)))] (object ''dead_letter_depth'' (JInt 1))"
  unfolding dlq_ready_def get_json_def
  by (rule plays_then [OF plays_get [OF number_content]], simp_all,
      rule plays_then [OF plays_get [OF number_content]])
    (simp_all add: bind_lift_Inr plays_return or_zero_def)

lemma plays_wait:
  assumes "plays predicate as v" and "truthy v" and "0 < timeout"
  shows "plays (wait_for staged 1 predicate timeout pause description) as (Some v)"
  unfolding wait_for_def One_nat_def wait_loop.simps
  using assms(2,3) plays_bind [OF assms(1) plays_return(1)]
  by (intro plays_after_clock) (simp add: plays_bind [OF assms(1), where bs = "[]", simplified] plays_return)

lemma plays_redrive:
  "plays (check_redrive staged args) [(202, json_bytes (object ''redriven_count'' (JInt 1)))] ()"
  unfolding check_redrive_def
  by (rule plays_then [OF plays_get [OF number_content]]) (simp_all add: bind_lift_Inr plays_return)

lemma plays_event_processed:
  "plays (event_processed staged args sent_answer)
     [(200, json_bytes (object ''items'' (JArr [processed_item]))),
      (200, json_bytes (object ''dead_letter_depth'' (JInt 0)))] (JBool True)"
proof -
  have page: "json_content (json_bytes (object ''items'' (JArr [processed_item]))) =
      Inr (object ''items'' (JArr [processed_item]))"
    by (rule object_content) (simp_all add: processed_item_def)
  have item: "json_subscript processed_item (lit ''id'') = Inr (JStr (lit ''e''))"
    "json_subscript processed_item (lit ''processing_status'') = Inr (JStr (lit ''processed''))"
    by (simp_all add: processed_item_def json_subscript_def dict_get_def)
  have stats: "plays (io_bind (get_json staged args ''/queue/stats'') f)
      [(200, json_bytes (object ''dead_letter_depth'' (JInt 0)))] v"
    if "plays (f (object ''dead_letter_depth'' (JInt 0))) [] v" for f and v :: json
    unfolding get_json_def using that by (rule plays_then [OF plays_get [OF number_content], rotated 2]) simp_all
  have "plays (search_items staged args sent_answer [processed_item])
      [(200, json_bytes (object ''dead_letter_depth'' (JInt 0)))] (JBool True)"
    by (simp add: sent_answer_def item bind_lift_Inr json_eq_str)
      (rule stats, simp add: bind_lift_Inr plays_return or_zero_def json_eq.simps [of "JInt 0"])
  then show ?thesis
    unfolding event_processed_def get_json_def
    by (intro plays_then [OF plays_get [OF page]]) (simp add: bind_lift_Inr json_iter_def)
qed

lemma plays_metrics:
  "plays (check_metrics staged args) [(200, json_bytes (JStr (lit ''webhook_intake_total'')))] ()"
proof -
  have "list_all scalar (json_quote (lit ''webhook_intake_total''))" by (rule printable_scalar) simp
  then obtain b where b: "utf8_encode (json_quote (lit ''webhook_intake_total'')) = Inr b"
    by (auto simp: utf8_encode_def)
  moreover have "occurs_in (lit ''webhook_intake_total'') (json_quote (lit ''webhook_intake_total''))"
    by code_simp
  ultimately show ?thesis
    unfolding check_metrics_def using utf8.dec_enc [OF b]
    by (intro plays_then [OF plays_urlopen]) (simp_all add: json_bytes_def bind_lift_Inr)
qed

lemma plays_request_ok: "plays (request_ok staged url) [(200, b)] ()"
  unfolding request_ok_def by (rule plays_then [OF plays_urlopen]) simp_all

lemma plays_closing:
  "plays (closing_checks staged args)
     [(200, json_bytes (JStr (lit ''webhook_intake_total''))), (200, json_bytes JNull),
      (200, json_bytes JNull), (200, json_bytes JNull), (200, json_bytes (JInt 1))] ()"
proof -
  have null: "json_content (json_bytes JNull) = Inr JNull" by (rule content_bytes) simp_all
  have one: "json_content (json_bytes (JInt 1)) = Inr (JInt 1)" by (rule content_bytes) (simp_all add: digit_text)
  have stack: "plays (check_stack staged args) [(200, json_bytes JNull), (200, json_bytes JNull),
      (200, json_bytes JNull), (200, json_bytes (JInt 1))] ()"
    unfolding check_stack_def
    by (intro plays_then [OF plays_request_ok] plays_then [OF plays_get [OF null]] plays_then [OF plays_get [OF one]])
      simp
  have report: "plays (io_bind (io_lift (success_line staged)) print_line) [] ()"
    by (auto simp: plays_def success_line_def print_line_def io_bind_def)
  show ?thesis
    unfolding closing_checks_def
    by (rule plays_then [OF plays_metrics], rule plays_bind [OF stack report, unfolded append_Nil2])
qed

lemma plays_intake:
  "plays (intake_checks staged default_smoke_args run_id)
     [(200, json_bytes (object ''status'' (JStr (lit ''ok'')))),
      (202, json_bytes (object ''status'' (JStr (lit ''accepted'')))),
      (202, json_bytes (object ''status'' (JStr (lit ''duplicate'')))),
      (401, json_bytes JNull)] ()"
  unfolding intake_checks_def
  by (intro plays_then [OF plays_health] plays_then [OF plays_deliver] plays_then [OF plays_invalid]) simp

lemma staged_run: "plays (smoke_main staged default_smoke_args 1) passing_answers (Some ())"
proof -
  have sent: "read_json (json_bytes sent_answer) = Inr sent_answer"
    unfolding sent_answer_def by (rule object_content) simp_all
  have send: "plays (send_webhook staged (base_url default_smoke_args) (smoke_secret default_smoke_args)
      (smoke_api_key default_smoke_args)
      (smoke_payload ''demo.retryable'' [(lit ''fail_attempts_remaining'', JInt 3)]) dlv)
      [(202, json_bytes sent_answer)] sent_answer" for dlv
    by (rule plays_send [OF _ _ sent]) (simp_all add: smoke_payload_def default_smoke_args_def utf8_lit digit_text)
  have wait1: "plays (wait_for staged 1 (dlq_ready staged default_smoke_args) 90000000 2000000 d)
      [(200, json_bytes (object ''dead_letter_depth'' (JInt 1))), (200, json_bytes (object ''failed'' (JInt 1)))]
      (Some (object ''dead_letter_depth'' (JInt 1)))" for d
    by (rule plays_wait [OF plays_dlq_ready]) (simp_all add: object_def)
  have wait2: "plays (wait_for staged 1 (event_processed staged default_smoke_args sent_answer) 90000000 2000000 d)
      [(200, json_bytes (object ''items'' (JArr [processed_item]))),
       (200, json_bytes (object ''dead_letter_depth'' (JInt 0)))] (Some (JBool True))" for d
    by (rule plays_wait [OF plays_event_processed]) simp_all
  show ?thesis
    unfolding smoke_main_def
    by (rule plays_after_clock, rule plays_lift [where x = "[48]"], simp add: whole_seconds_def digit_text,
        simp add: passing_answers_def, rule plays_bind [OF plays_intake, simplified],
        rule plays_then [OF send], rule plays_bind [OF wait1, simplified], simp,
        rule plays_then [OF plays_redrive], rule plays_bind [OF wait2, simplified], simp,
        rule plays_bind [OF plays_closing, where bs = "[]", unfolded append_Nil2], rule plays_return)
qed

definition staged_world :: "((nat \<times> bytes) list \<times> int) tool_world" where
  "staged_world = \<lparr>exchanges = [], stdout = [], stderr = [], files = Map.empty,
     tool_ext = (passing_answers, 0)\<rparr>"

section \<open>The check ends\<close>

text \<open>
  C28: the smoke check ends. Each of its two waits gives up after 90 seconds by the clock and pauses
  2 seconds between two looks, so with a clock that is not set back 46 looks are enough for each
  wait to have an answer or to have raised: the check never goes on waiting.
\<close>

theorem smoke_check_ends:
  assumes "steady T clk" and "46 \<le> n"
  shows "fst (smoke_main T args n w) \<noteq> Inr None"
proof -
  obtain m where m: "n = Suc m" "45 \<le> m" using assms(2) by (cases n) auto
  have wait: "fst (wait_for T n predicate 90000000 2000000 description u) \<noteq> Inr None"
    if "moves (no_earlier clk) predicate" for predicate description u
    using wait_for_ends [OF assms(1) that, of 90000000 m 2000000] m by simp
  show ?thesis
    unfolding smoke_main_def
    by (rule bind_not_None bind_wait_not_None wait time_dlq_ready time_event_processed assms(1))+ simp
qed

theorem smoke_check_ends_witness: "fst (smoke_main staged default_smoke_args 46 staged_world) \<noteq> Inr None"
  by (rule smoke_check_ends [OF steady_staged]) simp

section \<open>Evidence\<close>

text \<open>
  C27: what a passing smoke check is evidence of. When the check ends with success, the exchanges
  it had with the stack show, in this order: a health answer "ok"; a signed webhook accepted; the
  same delivery id answered "duplicate"; a webhook with an invalid signature refused with 401; a
  webhook with transient failures taken; a dead-letter queue that holds a message; a redrive
  that moved at least one; that very event listed as processed; and the metrics exposed.
\<close>

theorem smoke_pass_shows_the_flow:
  assumes "smoke_main T args n w = (Inr (Some ()), w')"
  shows "\<exists>run_id sent es. exchanges w' = exchanges w @ es \<and> log_shows (pass_shows args run_id sent) es"
  using logsD [OF logs_smoke_main assms] by blast

theorem smoke_pass_shows_the_flow_witness:
  "\<exists>w' run_id sent es. smoke_main staged default_smoke_args 1 staged_world = (Inr (Some ()), w') \<and>
    exchanges w' = exchanges staged_world @ es \<and>
    log_shows (pass_shows default_smoke_args run_id sent) es"
proof -
  obtain w' where "smoke_main staged default_smoke_args 1 staged_world = (Inr (Some ()), w')"
    using plays_run [OF staged_run, of staged_world] by (auto simp: staged_world_def)
  then show ?thesis using smoke_pass_shows_the_flow [of staged default_smoke_args 1 staged_world] by blast
qed

end
