(* ===== verification/EndToEnd.thy ===== *)
theory EndToEnd
  imports App Staged
begin

text \<open>
  A client of tools/ and the service together: the request that \<open>send_webhook\<close> builds, as the
  service of App receives it.
\<close>

section \<open>What the handler raises once the signature is accepted\<close>

text \<open>SQLAlchemy raises exceptions of its own, never FastAPI's \<open>HTTPException\<close>.\<close>

definition foreign_db_errors :: "'x services \<Rightarrow> bool" where
  "foreign_db_errors S \<longleftrightarrow>
     (\<forall>x e. fst (db_query S x) = Inl e \<longrightarrow> unhandled e) \<and>
     (\<forall>t x e. fst (db_commit S t x) = Inl e \<longrightarrow> unhandled e) \<and>
     (\<forall>x e. fst (db_rollback S x) = Inl e \<longrightarrow> unhandled e)"

definition server_fault :: "exn \<Rightarrow> bool" where
  "server_fault e \<longleftrightarrow> unhandled e \<or> e = queue_unavailable_503"

lemma server_fault_status: "server_fault e \<Longrightarrow> status_of (Inl e) \<in> {500, 503}"
  by (auto simp: server_fault_def unhandled_status) (simp add: status_of_def queue_unavailable_503_def)

lemma call_faults:
  assumes "foreign_db_errors S"
  shows "raises_only server_fault (call (db_query S))" "raises_only server_fault (call (db_commit S t))"
    "raises_only server_fault (call (db_rollback S))"
  by (rule raises_only_call, use assms in \<open>auto simp: foreign_db_errors_def server_fault_def\<close>)+

lemma lookup_faults:
  assumes "foreign_db_errors S"
  shows "raises_only server_fault (get_event_by_delivery_id S d)"
proof -
  have "raises_only server_fault (io_lift (scalar_one_or_none rows))" for rows :: "event list"
    by (rule raises_only_lift)
      (auto simp: scalar_one_or_none_def server_fault_def unhandled_def multiple_results_def split: list.splits)
  then show ?thesis
    unfolding get_event_by_delivery_id_def query_def
    by (intro raises_rules call_faults [OF assms])
qed

lemma create_faults:
  assumes "foreign_db_errors S"
  shows "raises_only server_fault (create_event S dlv req src etype data)"
  unfolding create_event_def commit_def
  by (intro raises_rules raises_only_catch [where Q = server_fault] raises_only_raise call_faults [OF assms])

lemma schedule_faults: "raises_only server_fault (schedule_event S c i)"
proof -
  have "raises_only is_queue_unavailable (enqueue_event S c i 1)"
    unfolding enqueue_event_def
    by (rule raises_only_catch [where Q = "\<lambda>_. True"]) (simp_all add: raises_only_def)
  then have "raises_only server_fault (or_503 (enqueue_event S c i 1))"
    unfolding or_503_def
    by (rule raises_only_catch) (simp add: raises_only_raise server_fault_def)
  then show ?thesis unfolding schedule_event_def add_task_def by (intro raises_rules)
qed

lemma receive_after_signature:
  assumes "foreign_db_errors S"
    and "fst (verify_webhook_signature S c body (hdrs (webhook_timestamp_header c))
           (hdrs (webhook_signature_header c)) w) = Inr ()"
    and "receive_webhook S c hdrs body rid data w = (Inl e, w')"
  shows "server_fault e"
proof -
  obtain w1 where v: "verify_webhook_signature S c body (hdrs (webhook_timestamp_header c))
      (hdrs (webhook_signature_header c)) w = (Inr (), w1)"
    using assms(2) by (metis prod.collapse)
  let ?rest = "io_bind (if absent (hdrs (webhook_id_header c)) then io_return None
      else get_event_by_delivery_id S (the (hdrs (webhook_id_header c)))) (\<lambda>found. case found of
        Some existing \<Rightarrow>
          io_then (set_metrics record_duplicate)
         (io_then (set_metrics (record_webhook_intake (in_source data) (lit ''duplicate'')))
            (io_return \<lparr>accepted_status = lit ''duplicate'', accepted_event_id = ev_id existing,
               accepted_delivery_id = delivery_id existing\<rparr>))
      | None \<Rightarrow>
          io_bind (create_event S (hdrs (webhook_id_header c)) rid (in_source data) (in_event_type data)
                     (in_payload data)) (\<lambda>event.
          io_then (schedule_event S c (ev_id event))
         (io_then (set_metrics (record_webhook_intake (in_source data) (lit ''accepted'')))
            (io_return \<lparr>accepted_status = lit ''accepted'', accepted_event_id = ev_id event,
               accepted_delivery_id = delivery_id event\<rparr>))))"
  have "raises_only server_fault ?rest"
    by (intro raises_rules lookup_faults create_faults schedule_faults assms(1))
  moreover have "?rest w1 = (Inl e, w')"
    using assms(3) v by (simp add: receive_webhook_def Let_def)
  ultimately show ?thesis by (rule raises_onlyD)
qed

section \<open>A signed delivery\<close>

text \<open>
  The client's message as the service receives it: body and headers as sent, and the body parsed
  as JSON for the route.
\<close>

definition arrives_as :: "http_request \<Rightarrow> request \<Rightarrow> bool" where
  "arrives_as msg req \<longleftrightarrow>
     http_data msg = Some (req_body req) \<and>
     list_all (\<lambda>(name, v). req_header req name = Some v) (http_headers msg) \<and>
     (case (req_endpoint req, read_json (req_body req)) of
        (PostWebhook v, Inr u) \<Rightarrow> v = u | _ \<Rightarrow> False)"

definition default_headers :: "settings \<Rightarrow> bool" where
  "default_headers c \<longleftrightarrow>
     webhook_id_header c = lit ''X-Webhook-ID'' \<and>
     webhook_timestamp_header c = lit ''X-Webhook-Timestamp'' \<and>
     webhook_signature_header c = lit ''X-Webhook-Signature''"

lemma send_webhook_message:
  assumes "send_webhook T base secret key data dlv w = (res, w')"
    and "exchanges w' = exchanges w @ [(msg, answer)]"
  obtains body ts sig t where
    "msg = signed_request base key dlv body ts sig"
    "json_dumps (float_repr T) [44] [58] data = Inr t" "utf8_encode t = Inr body"
    "py_str_int (whole_seconds (fst (clock T (tool_ext w)))) = Inr ts"
    "build_signature secret body (whole_seconds (fst (clock T (tool_ext w)))) = Inr sig"
proof -
  obtain now x where now: "clock T (tool_ext w) = (now, x)" by fastforce
  consider t body ts sig where "json_dumps (float_repr T) [44] [58] data = Inr t" "utf8_encode t = Inr body"
      "py_str_int (whole_seconds now) = Inr ts" "build_signature secret body (whole_seconds now) = Inr sig"
    | "exchanges w' = exchanges w"
    using assms(1) now
    by (auto simp: send_webhook_def Let_def io_bind_def read_clock_def sum_bind_def split: sum.splits)
  then show thesis
  proof cases
    case 1
    then have "exchanges w' = exchanges w @ [(signed_request base key dlv body ts sig,
        fst (exchange T (signed_request base key dlv body ts sig) x))]"
      using assms(1) now
      by (auto simp: send_webhook_def Let_def io_bind_def read_clock_def urlopen_run split: sum.splits prod.splits if_splits)
    then show thesis using 1 assms(2) now by (intro that [of body ts sig t]) simp_all
  qed (use assms(2) in simp)
qed

text \<open>When the verifier of a request that comes in the state \<open>w\<close> reads the clock.\<close>

definition clock_on_arrival :: "'x services \<Rightarrow> 'x world \<Rightarrow> int set" where
  "clock_on_arrival S w =
     (\<lambda>x. fst (time_now S (db_open S (snd (perf_counter S x))))) ` {ext w, snd (uuid4 S (ext w))}"

lemma signed_body_arrives:
  assumes "arrives_as (signed_request base key dlv body ts sig) req" and "plain data"
    and "json_dumps fr [44] [58] data = Inr t" and "utf8_encode t = Inr body"
  shows "req_endpoint req = PostWebhook data" "req_body req = body"
    "req_header req (lit ''X-API-KEY'') = Some key" "req_header req (lit ''X-Webhook-ID'') = Some dlv"
    "req_header req (lit ''X-Webhook-Timestamp'') = Some ts"
    "req_header req (lit ''X-Webhook-Signature'') = Some sig"
proof -
  have "json_loads t = Inr data"
    using assms(2,3) by (intro json_loads_dumps) (simp_all add: item_seps_def key_seps_def)
  then have "read_json body = Inr data"
    using utf8.dec_enc [OF assms(4)] by (simp add: read_json_def)
  then show "req_endpoint req = PostWebhook data" "req_body req = body"
    "req_header req (lit ''X-API-KEY'') = Some key" "req_header req (lit ''X-Webhook-ID'') = Some dlv"
    "req_header req (lit ''X-Webhook-Timestamp'') = Some ts"
    "req_header req (lit ''X-Webhook-Signature'') = Some sig"
    using assms(1) by (auto simp: arrives_as_def signed_request_def split: endpoint.splits sum.splits)
qed

lemma own_key_outcomes: "require_api_key c (Some (api_key c)) = Inr () \<or>
    (\<exists>d. require_api_key c (Some (api_key c)) = Inl (TypeError d))"
  by (auto simp: require_api_key_def compare_digest_def)

text \<open>
  C11: a client with the right secret and key is never refused. Take any valid webhook without
  floats that \<open>send_webhook\<close> sends with the service's own secret and API key. When its message
  arrives as sent and the service's clock is then within the tolerance of the client's, the
  service answers 202, or 500 or 503 for a fault of its own (the database, the broker, a key that
  is not ASCII): never 401 and never 422.
\<close>

theorem signed_delivery_is_not_refused:
  assumes "send_webhook T base (webhook_secret c) (api_key c) data dlv v = (res, v')"
    and "exchanges v' = exchanges v @ [(msg, answer)]"
    and "arrives_as msg req" and "default_headers c"
    and "\<forall>now \<in> clock_on_arrival S w.
      \<bar>now - whole_seconds (fst (clock T (tool_ext v)))\<bar> \<le> webhook_timestamp_tolerance_seconds c"
    and "plain data" and "validate_webhook_in data = Inr webhook" and "foreign_db_errors S"
  shows "\<exists>response w'. serve S c req w = (Inr response, w') \<and> status_code response \<in> {202, 500, 503}"
proof -
  let ?sent = "whole_seconds (fst (clock T (tool_ext v)))"
  obtain body ts sig t where msg: "msg = signed_request base (api_key c) dlv body ts sig"
    and body: "json_dumps (float_repr T) [44] [58] data = Inr t" "utf8_encode t = Inr body"
    and ts: "py_str_int ?sent = Inr ts" and sig: "build_signature (webhook_secret c) body ?sent = Inr sig"
    using assms(1,2) by (rule send_webhook_message)
  note arrived = signed_body_arrives [OF assms(3) [unfolded msg] assms(6) body]
  obtain rid w1 r w2 response w' where s: "serve S c req w = (Inr response, w')"
    and run: "run_endpoint S c req rid w1 = (r, w2)" and code: "status_code response = status_of r"
    and x1: "\<exists>x \<in> {ext w, snd (uuid4 S (ext w))}. ext w1 = snd (perf_counter S x)"
    by (rule serve_cases [of S c req w])
  let ?w1 = "w1\<lparr>ext := db_open S (ext w1)\<rparr>"
  let ?handler = "receive_webhook S c (req_header req) body (Some rid) webhook"
  have in_time: "\<bar>fst (time_now S (ext ?w1)) - ?sent\<bar> \<le> webhook_timestamp_tolerance_seconds c"
    using x1 assms(5) by (auto simp: clock_on_arrival_def)
  have ok: "fst (verify_webhook_signature S c body (req_header req (webhook_timestamp_header c))
      (req_header req (webhook_signature_header c)) ?w1) = Inr ()"
    using signer_accepted [OF sig ts in_time] arrived(5,6) assms(4) by (simp add: default_headers_def)
  have "status_of r \<in> {202, 500, 503}"
    using own_key_outcomes [of c]
  proof
    assume "require_api_key c (Some (api_key c)) = Inr ()"
    then have "run_endpoint S c req rid w1 =
        io_bind ?handler (\<lambda>out. io_return (respond 202 (WebhookAccepted out))) ?w1"
      by (simp add: run_endpoint_def guarded_def arrived assms(7) io_bind_def open_session_def)
    then have r: "(r, w2) = io_bind ?handler (\<lambda>out. io_return (respond 202 (WebhookAccepted out))) ?w1"
      using run by simp
    obtain a w3 where a: "?handler ?w1 = (a, w3)" by fastforce
    show ?thesis
    proof (cases a)
      case (Inl e)
      then have "server_fault e" using receive_after_signature [OF assms(8) ok] a by simp
      then show ?thesis using r a Inl server_fault_status by simp
    next
      case (Inr out)
      then show ?thesis using r a by (simp add: status_of_def respond_def)
    qed
  next
    assume "\<exists>d. require_api_key c (Some (api_key c)) = Inl (TypeError d)"
    then obtain d where "require_api_key c (Some (api_key c)) = Inl (TypeError d)" ..
    then have "run_endpoint S c req rid w1 = (Inl (TypeError d), w1)"
      by (simp add: run_endpoint_def guarded_def arrived io_bind_def)
    then show ?thesis using run by (simp add: status_of_def)
  qed
  then show ?thesis using s code by simp
qed

definition e2e_settings :: settings where
  "e2e_settings = signed_settings\<lparr>api_key := lit ''key''\<rparr>"

definition e2e_data :: json where
  "e2e_data = JObj [(lit ''source'', JStr (lit ''demo'')), (lit ''event_type'', JStr (lit ''paid'')),
     (lit ''payload'', JObj [])]"

definition delivered_request :: "http_request \<Rightarrow> request" where
  "delivered_request msg =
     \<lparr>req_method = http_method msg, req_path = lit ''/webhook'', req_header = map_of (http_headers msg),
      req_body = the (http_data msg), req_endpoint = PostWebhook e2e_data\<rparr>"

lemma delivered_arrives:
  assumes "msg = signed_request base key dlv body ts sig" and "read_json body = Inr e2e_data"
  shows "arrives_as msg (delivered_request msg)"
  using assms by (simp add: arrives_as_def delivered_request_def signed_request_def)

lemma e2e_plain: "plain e2e_data" "json_dumps (\<lambda>_. []) [44] [58] e2e_data = Inr t \<Longrightarrow> json_loads t = Inr e2e_data"
proof -
  show p: "plain e2e_data" by (simp add: e2e_data_def)
  show "json_dumps (\<lambda>_. []) [44] [58] e2e_data = Inr t \<Longrightarrow> json_loads t = Inr e2e_data"
    by (rule json_loads_dumps [OF _ _ p]) (simp_all add: item_seps_def key_seps_def)
qed

definition e2e_client :: "((nat \<times> bytes) list \<times> int) tool_world" where
  "e2e_client = staged_world\<lparr>tool_ext := ([(202, json_bytes (object ''status'' (JStr (lit ''accepted''))))], 0)\<rparr>"

lemma foreign_calm: "foreign_db_errors calm"
  by (simp add: foreign_db_errors_def calm_def unhandled_def)

theorem signed_delivery_is_not_refused_witness:
  "\<exists>answer v' msg reply response w'.
    send_webhook staged [] (webhook_secret e2e_settings) (api_key e2e_settings) e2e_data (lit ''d'') e2e_client
      = (Inr answer, v') \<and>
    exchanges v' = exchanges e2e_client @ [(msg, reply)] \<and>
    serve calm e2e_settings (delivered_request msg) calm_start = (Inr response, w') \<and>
    status_code response \<in> {202, 500, 503}"
proof -
  let ?send = "send_webhook staged [] (webhook_secret e2e_settings) (api_key e2e_settings) e2e_data (lit ''d'')"
  let ?ok = "object ''status'' (JStr (lit ''accepted''))"
  have answer: "read_json (json_bytes ?ok) = Inr ?ok" by (rule object_content) simp_all
  have "plays ?send [(202, json_bytes ?ok)] ?ok"
    by (rule plays_send [OF _ _ answer])
      (simp_all add: e2e_settings_def signed_settings_def e2e_data_def utf8_lit)
  from plays_run [OF this, of e2e_client]
  obtain v' where run: "?send e2e_client = (Inr ?ok, v')" by (auto simp: e2e_client_def)
  obtain msg reply where log: "exchanges v' = exchanges e2e_client @ [(msg, reply)]"
    using logsD [OF logs_send_webhook run] by blast
  obtain body ts sig t where msg: "msg = signed_request [] (api_key e2e_settings) (lit ''d'') body ts sig"
    and t: "json_dumps (\<lambda>_. []) [44] [58] e2e_data = Inr t" "utf8_encode t = Inr body"
    by (rule send_webhook_message [OF run log, unfolded float_repr_staged])
  have arrives: "arrives_as msg (delivered_request msg)"
    using e2e_plain(2) [OF t(1)] utf8.dec_enc [OF t(2)]
    by (intro delivered_arrives [OF msg]) (simp add: read_json_def)
  have headers: "default_headers e2e_settings"
    by (simp add: default_headers_def e2e_settings_def signed_settings_def default_settings_def)
  have time: "\<forall>now \<in> clock_on_arrival calm calm_start.
      \<bar>now - whole_seconds (fst (clock staged (tool_ext e2e_client)))\<bar>
        \<le> webhook_timestamp_tolerance_seconds e2e_settings"
    by (simp add: clock_on_arrival_def calm_def calm_tick_def calm_start_def init_world_def staged_def
        e2e_client_def whole_seconds_def e2e_settings_def signed_settings_def default_settings_def)
  have valid: "\<exists>webhook. validate_webhook_in e2e_data = Inr webhook"
    by (simp add: validate_webhook_in_def e2e_data_def name_field_def dict_get_def)
  from valid obtain webhook where "validate_webhook_in e2e_data = Inr webhook" ..
  from signed_delivery_is_not_refused [OF run log arrives headers time e2e_plain(1) this foreign_calm]
  obtain response w' where "serve calm e2e_settings (delivered_request msg) calm_start = (Inr response, w')"
    "status_code response \<in> {202, 500, 503}" by blast
  then show ?thesis using run log by (intro exI conjI)
qed

end
