(* ===== verification/Spec2Isabelle.thy ===== *)
theory Spec2Isabelle
  imports Drain RedisFlow Overlap Races Scripts EndToEnd Staged
begin

text \<open>
  Webhook ingestion service: the verification development.

  The program (app/) is an HTTP service that takes signed webhooks, stores each as an event, puts
  the event's id on a queue, and a worker that processes the queued events, sends the failed ones
  through a delayed retry queue and, after the last attempt, to a dead-letter queue from which an
  operator can redrive them. Beside it stand the scripts of tools/: clients, a smoke check of the
  running stack, a policy check of the repository's files.

  Parts, theories and code:

  Prelude: text, bytes, exceptions; the state-and-exception monad all operations are written in;
  rules for frames and pre/postconditions; the interfaces of encoders and of monads over a
  preorder. PyText, Utf8, PyJson: the Python this program uses: int() and str(), UUIDs, UTF-8,
  json.loads and json.dumps. Digest: hashlib.sha256, hmac, hmac.compare_digest.

  Config (app/config.py), Models (app/models.py), Metrics (app/metrics.py): the settings and their
  validators, the row of the table \<open>events\<close>, the collectors and the functions that record.

  World: what the program runs in. \<open>services\<close> is the record of everything it calls (clock,
  random UUIDs, database, RabbitMQ, Redis), as functions on a state \<open>ext\<close> of its own that may
  answer anything, exceptions included; \<open>world\<close> is the program's state: table, metrics, globals of
  app/queue.py, the root logger, background tasks, and the trace of what was done to the broker.

  Database and Crud (app/db.py, app/crud.py), Queue (app/queue.py), Security (app/security.py),
  Processor (app/services/processor.py), Worker (app/worker.py), Webhooks (app/routers/webhooks.py,
  app/schemas.py), Observability (app/observability.py), App (app/main.py): one definition per
  function of the code, with its name, in the order of the code.

  Lifecycle: the steps of the running service, as an inductive relation (requests, background
  tasks, worker iterations, poller rounds, start, stop, anything happening outside, a crash); the
  single writes of the code with what is known where they are called (\<open>row_step\<close>) and the proof
  that every step consists of them; the invariants of all reachable states; and a specification of
  the life of an event on the fields of its row alone (\<open>lifecycle\<close>: received, processed, rejected,
  redriven), which uses none of the code's functions and which the service refines. Races: \<open>receive_webhook\<close> cut between its lookup and
  its insertion, and a relation in which any number of deliveries stand between the two halves
  while the others, and the whole service, go on. Overlap: \<open>process_event_by_id\<close> cut after its
  load, with a session that writes only the columns it changed.

  Flow: services in which nothing fails, as laws about what each command does to the messages
  waiting on each queue; the books (where the message of every event must be) and the proof that
  requests, worker, poller, start and stop keep them. Drain: rounds of retry delay and worker
  iteration, with the load that every round decreases, and the course of one event. RedisFlow: the
  worker's loop on Redis.

  ToolWorld: what the scripts run in (files, subprocesses, console, a clock, an HTTP transport with
  a log of its exchanges). Clients (tools/send_signed_webhook.py, tools/redrive_dlq.py), Smoke
  (tools/smoke_check.py), Scripts (tools/bootstrap_env.py, tools/collect_logs.py,
  tools/hardening_check.py): the scripts, function by function. Staged: a run of the smoke check
  against answers laid down beforehand, in which it passes. EndToEnd: the client's request put to
  the application.

  What is proved, by part. Config: which settings are accepted, exactly. Queue: the message format
  round-trips; what each operation does to the broker, on success and on every failure; no
  operation acknowledges a message before what replaces it is published. Security: which requests
  the verifier accepts, exactly; the signer's signatures are accepted; an accepted signature fits no
  other timestamp or body, short of a collision of HMAC-SHA-256. Processor: what one attempt does to the row, on every branch. Worker: a message is
  acknowledged only when its event is settled. Webhooks: deduplication, storing and scheduling, and
  their failures; retry and redrive; the summary, and the pages under whatever order the database
  gives to events of the same time in each query (\<open>db_scan\<close>). Observability: log lines read back
  as JSON. App: every request is answered and counted once, the API key guards the endpoints, the
  health answer agrees with the gauges, the poller never stops by itself. Lifecycle: the service
  refines the lifecycle, rows stay well-formed, the lookup alone keeps delivery ids unique, no event
  is lost, PROCESSED is final; all of them for steps that do not overlap. Races: of simultaneous deliveries with one id at most one
  is accepted. Overlap: an attempt that overlaps another can undo its success, so PROCESSED is
  final only while attempts at one event do not overlap. Flow and Drain: without faults no event is
  stranded, the worker empties the queues, an event that fails for a while ends PROCESSED.
  RedisFlow: on Redis a failing event is retried for ever. Smoke and Staged: what a passing smoke
  check has seen, and that it always ends. Scripts: the verdict of the hardening check, line by line
  against the policy as a list of requirements. EndToEnd:
  a delivery signed by the client is not refused.

  Bounds and fuel. \<open>json_value\<close> recurses with fuel, and \<open>json_loads\<close> gives it twice the length of
  the text plus two, which is enough for any text of that length (\<open>json_value_fuel\<close>). The loop of
  the worker is observed for a number of iterations that the theorems quantify over, and so are the
  two waits of the smoke check: its clock counts microseconds, and if it is not set back, 46 looks
  two seconds apart outlast the 90 seconds of each wait (\<open>wait_loop_ends\<close>). The poller and the rounds
  of Drain are counted too; the maximum of attempts for each waiting message is enough
  (\<open>load_bound\<close>). Python's limit on the digits of an int (\<open>int_max_str_digits\<close>) is modelled:
  that is why the round trip of messages has a bound.

  Not modelled. The insides of FastAPI, pydantic, SQLAlchemy, aio_pika, redis, prometheus_client,
  OpenTelemetry, argparse and urllib: they are parameters, in \<open>services\<close>, in the tools' services
  or as the decoded request. Interleaving inside one operation other than the two cuts of Races and
  Overlap: a step of the service is one whole operation, so what two of the others that run at the
  same time do between their awaits is not covered. API and worker are steps over one state: the
  globals of app/queue.py (the handles of connections), the metrics and the logger, of which each
  process has its own, are one here. A commit that fails has not been done: the case that the server
  commits and the connection breaks before the answer is left out. Text is ordered by code points,
  where the database's collation may sort the sources of the summary differently. Cancellation in the middle of a round of the
  poller; between two rounds it changes nothing. The text of \<open>/metrics\<close>. Log lines that nothing else reads.
  The deployment files, which configure other programs.
\<close>

end
